(* ===== verification/Prelude.thy ===== *)
theory Prelude
  imports Complex_Main "HOL-Library.Finite_Map" "HOL-Library.Multiset"
    "HOL-Library.List_Lexorder" "HOL-Library.Char_ord"
begin

text \<open>
  Shared vocabulary of the development.

  \<^item> Go strings are \<open>string\<close> (a list of bytes); \<open>List_Lexorder\<close> and \<open>Char_ord\<close> give them
    Go's bytewise order, so \<open>sort\<close> is \<^verbatim>\<open>sort.Strings\<close>.
  \<^item> A Go map is a \<open>('k, 'v) fmap\<close>. A \<^verbatim>\<open>for range\<close> loop over a map visits the keys in an
    order that Go leaves open: every function that ranges over a map takes the order as an
    argument, and \<open>ranges ord m\<close> says that \<open>ord\<close> enumerates the keys of \<open>m\<close>.
  \<^item> An \<^verbatim>\<open>error\<close> value is the unrendered call that made it: the format string of
    \<^verbatim>\<open>fmt.Errorf\<close> and its arguments.
  \<^item> A computation that dereferences nil is \<open>Panic\<close>; one that runs out of fuel is \<open>Diverge\<close>.
\<close>

section \<open>Collections of hints\<close>

named_theorems go_simps "rewrite rules of the Go vocabulary"
named_theorems frame_simps "fields an operation leaves alone"

section \<open>Errors and outcomes\<close>

datatype err = Err string "farg list"
  and farg = FStr string | FInt int | FErr err | FNil | FStrs "string list" | FOpaque nat

datatype 'a outcome = Ret 'a | Panic | Diverge

fun bind_outcome :: "'a outcome \<Rightarrow> ('a \<Rightarrow> 'b outcome) \<Rightarrow> 'b outcome" where
  "bind_outcome (Ret a) f = f a"
| "bind_outcome Panic f = Panic"
| "bind_outcome Diverge f = Diverge"

lemma bind_outcome_cong [fundef_cong]:
  "m = m' \<Longrightarrow> (\<And>a. m' = Ret a \<Longrightarrow> f a = g a) \<Longrightarrow> bind_outcome m f = bind_outcome m' g"
  by (cases m') auto

lemma bind_outcome_Ret [simp]: "bind_outcome m f = Ret b \<longleftrightarrow> (\<exists>a. m = Ret a \<and> f a = Ret b)"
  by (cases m) auto

fun is_ok :: "err + 'a \<Rightarrow> bool" where
  "is_ok (Inl e) = False"
| "is_ok (Inr a) = True"

lemma is_ok_iff [simp]: "is_ok r \<longleftrightarrow> (\<exists>a. r = Inr a)"
  by (cases r) auto

type_synonym duration = int \<comment> \<open>nanoseconds, the \<^verbatim>\<open>int64\<close> behind \<^verbatim>\<open>time.Duration\<close>\<close>
type_synonym time = int \<comment> \<open>nanoseconds since the zero \<^verbatim>\<open>time.Time\<close>\<close>

section \<open>Go maps\<close>

definition ranges :: "'k list \<Rightarrow> ('k, 'v) fmap \<Rightarrow> bool" where
  "ranges ord m \<longleftrightarrow> distinct ord \<and> set ord = fmdom' m"

text \<open>Reading a missing key of a map of slices gives the nil slice.\<close>

definition getl :: "('k, 'v list) fmap \<Rightarrow> 'k \<Rightarrow> 'v list" where
  "getl m k = (case fmlookup m k of None \<Rightarrow> [] | Some xs \<Rightarrow> xs)"

text \<open>\<^verbatim>\<open>m[k] = append(m[k], x)\<close>\<close>

definition appendl :: "('k, 'v list) fmap \<Rightarrow> 'k \<Rightarrow> 'v \<Rightarrow> ('k, 'v list) fmap" where
  "appendl m k x = fmupd k (getl m k @ [x]) m"

text \<open>\<^verbatim>\<open>len(m)\<close>\<close>

definition map_len :: "('k, 'v) fmap \<Rightarrow> nat" where
  "map_len m = fcard (fmdom m)"

text \<open>The keys of a map, collected in any order and then sorted by \<^verbatim>\<open>sort.Strings\<close>.\<close>

definition sorted_keys :: "('k::linorder, 'v) fmap \<Rightarrow> 'k list" where
  "sorted_keys m = sorted_list_of_fset (fmdom m)"

lemma ranges_distinct [dest]: "ranges ord m \<Longrightarrow> distinct ord"
  by (simp add: ranges_def)

lemma ranges_set [go_simps]: "ranges ord m \<Longrightarrow> set ord = fmdom' m"
  by (simp add: ranges_def)

lemma in_ranges_iff: "ranges ord m \<Longrightarrow> k \<in> set ord \<longleftrightarrow> fmlookup m k \<noteq> None"
  by (simp add: ranges_def fmdom'_notI fmdom'I fmlookup_dom'_iff)

lemma length_ranges: "ranges ord m \<Longrightarrow> length ord = map_len m"
  by (metis ranges_def map_len_def distinct_card fcard.rep_eq fmdom'_alt_def)

lemma ranges_mset: "ranges o1 m \<Longrightarrow> ranges o2 m \<Longrightarrow> mset o1 = mset o2"
  by (metis ranges_def set_eq_iff_mset_eq_distinct)

lemma sorted_keys_simps [simp]:
  "sorted (sorted_keys m)" "distinct (sorted_keys m)" "set (sorted_keys m) = fmdom' m"
  by (simp_all add: sorted_keys_def fmdom'_alt_def sorted_list_of_fset.rep_eq)

lemma ranges_sorted_keys [simp]: "ranges (sorted_keys m) m"
  by (simp add: ranges_def)

lemma sort_ranges: "ranges ord m \<Longrightarrow> sort ord = sorted_keys m"
  by (metis ranges_def properties_for_sort set_eq_iff_mset_eq_distinct sorted_keys_simps)

lemma getl_fmupd [go_simps]: "getl (fmupd k xs m) k' = (if k = k' then xs else getl m k')"
  by (simp add: getl_def)

lemma getl_appendl [go_simps]:
  "getl (appendl m k x) k' = (if k = k' then getl m k @ [x] else getl m k')"
  by (simp add: appendl_def getl_fmupd)

lemma fmdom'_appendl [go_simps]: "fmdom' (appendl m k x) = insert k (fmdom' m)"
  by (simp add: appendl_def)

lemma getl_empty [go_simps]: "getl fmempty k = []"
  by (simp add: getl_def)

lemma getl_notin: "k \<notin> fmdom' m \<Longrightarrow> getl m k = []"
  by (simp add: getl_def fmdom'_notD)

lemma getl_Some: "fmlookup m k = Some xs \<Longrightarrow> getl m k = xs"
  by (simp add: getl_def)

lemma mem_getl_iff: "v \<in> set (getl m k) \<longleftrightarrow> (\<exists>vs. fmlookup m k = Some vs \<and> v \<in> set vs)"
  by (cases "fmlookup m k") (auto simp: getl_def)

lemma getl_nonempty_dom: "x \<in> set (getl m k) \<Longrightarrow> k \<in> fmdom' m"
  by (metis getl_notin empty_iff empty_set)

lemma map_len_zero_iff: "map_len m = 0 \<longleftrightarrow> m = fmempty"
  by (metis fcard_0_eq fmdom_empty fmrestrict_fset_dom fmrestrict_fset_null map_len_def)

lemma fmmap_ident: "fmmap (\<lambda>x. x) m = m"
  by (rule fmap_ext) (simp add: option.map_ident)

section \<open>Sorting by a key\<close>

text \<open>
  A stable insertion sort over every visiting order of a map reaches every list that is sorted
  and holds the map's values: this is how \<^verbatim>\<open>sort.Slice\<close>, which is not stable, is modelled.
\<close>

lemma sort_key_mset_eq:
  assumes "mset xs = mset ys" and "inj_on f (set xs)"
  shows "sort_key f xs = sort_key f ys"
  using assms by (intro sort_key_inj_key_eq) (auto dest: inj_onD)

lemma sort_key_eqI:
  "mset xs = mset ys \<Longrightarrow> inj_on f (set ys) \<Longrightarrow> sorted (map f ys) \<Longrightarrow> sort_key f xs = ys"
  using sort_key_mset_eq [of ys xs f] by (simp add: sort_key_id_if_sorted)

text \<open>Sorting values by a key that recovers the index they were looked up with.\<close>

lemma sort_key_map_inverse:
  assumes "\<And>k. k \<in> set ks \<Longrightarrow> f (h k) = k"
  shows "sort_key f (map h ks) = map h (sort ks)"
proof (rule sort_key_eqI)
  show "mset (map h ks) = mset (map h (sort ks))" by simp
  show "inj_on f (set (map h (sort ks)))" using assms by (auto intro!: inj_onI)
  have "map f (map h (sort ks)) = map (\<lambda>k. k) (sort ks)" 
    unfolding map_map by (rule map_cong) (auto simp: assms)
  then show "sorted (map f (map h (sort ks)))" by simp
qed

lemma filter_sort_ranges:
  "ranges ord m \<Longrightarrow> sort (filter p ord) = filter p (sorted_keys m)"
  by (simp add: filter_sort [symmetric] sort_ranges)

end
