(* ===== verification/Float64.thy ===== *)
theory Float64
  imports Prelude "HOL-Library.Log_Nat"
begin

text \<open>
  IEEE 754 binary64, the \<^verbatim>\<open>float64\<close> of Go, as far as the retry delays use it: finite values
  are rationals, every operation rounds its exact result to the nearest representable
  value, ties to even. The sign of zero is not kept (no operation here tells the zeros apart).
\<close>

datatype f64 = NaN | PosInf | NegInf | Fin rat

section \<open>Rounding\<close>

text \<open>The nearest integer, ties to even.\<close>

definition round_even :: "rat \<Rightarrow> int" where
  "round_even q =
     (let f = \<lfloor>q\<rfloor>; d = q - of_int f in
      if d < 1 / 2 then f else if 1 / 2 < d then f + 1 else if even f then f else f + 1)"

text \<open>The exponent of the leading bit: \<open>2 ^ floor_log2 q \<le> q < 2 ^ (floor_log2 q + 1)\<close>.\<close>

definition floor_log2 :: "rat \<Rightarrow> int" where
  "floor_log2 q =
     (let (n, d) = quotient_of q; k = bitlen n - bitlen d
      in if 2 powi k \<le> q then k else k - 1)"

text \<open>The exponent of the last of the 53 bits; -1074 for the subnormal numbers.\<close>

definition ulp_exp :: "rat \<Rightarrow> int" where
  "ulp_exp x = (if x = 0 then - 1074 else max (floor_log2 \<bar>x\<bar> - 52) (- 1074))"

definition fl_rat :: "rat \<Rightarrow> rat" where
  "fl_rat x = of_int (round_even (x / 2 powi ulp_exp x)) * 2 powi ulp_exp x"

definition fl :: "rat \<Rightarrow> f64" where
  "fl x = (let y = fl_rat x in
           if 2 ^ 1024 \<le> y then PosInf else if y \<le> - (2 ^ 1024) then NegInf else Fin y)"

section \<open>Operations\<close>

definition f64_of_int :: "int \<Rightarrow> f64" where
  "f64_of_int n = fl (of_int n)"

definition inf_of_sign :: "rat \<Rightarrow> f64" where
  "inf_of_sign s = (if s = 0 then NaN else if 0 < s then PosInf else NegInf)"

fun f64_mul :: "f64 \<Rightarrow> f64 \<Rightarrow> f64" where
  "f64_mul NaN _ = NaN"
| "f64_mul _ NaN = NaN"
| "f64_mul (Fin a) (Fin b) = fl (a * b)"
| "f64_mul (Fin a) PosInf = inf_of_sign a"
| "f64_mul (Fin a) NegInf = inf_of_sign (- a)"
| "f64_mul PosInf (Fin a) = inf_of_sign a"
| "f64_mul NegInf (Fin a) = inf_of_sign (- a)"
| "f64_mul PosInf PosInf = PosInf"
| "f64_mul NegInf NegInf = PosInf"
| "f64_mul PosInf NegInf = NegInf"
| "f64_mul NegInf PosInf = NegInf"

fun f64_add :: "f64 \<Rightarrow> f64 \<Rightarrow> f64" where
  "f64_add NaN _ = NaN"
| "f64_add _ NaN = NaN"
| "f64_add (Fin a) (Fin b) = fl (a + b)"
| "f64_add PosInf NegInf = NaN"
| "f64_add NegInf PosInf = NaN"
| "f64_add PosInf _ = PosInf"
| "f64_add _ PosInf = PosInf"
| "f64_add NegInf _ = NegInf"
| "f64_add _ NegInf = NegInf"

fun f64_neg :: "f64 \<Rightarrow> f64" where
  "f64_neg NaN = NaN"
| "f64_neg PosInf = NegInf"
| "f64_neg NegInf = PosInf"
| "f64_neg (Fin a) = Fin (- a)"

definition f64_sub :: "f64 \<Rightarrow> f64 \<Rightarrow> f64" where
  "f64_sub a b = f64_add a (f64_neg b)"

section \<open>Signed 64-bit integers\<close>

definition min_int64 :: int where "min_int64 = - (2 ^ 63)"
definition max_int64 :: int where "max_int64 = 2 ^ 63 - 1"

definition in_int64 :: "int \<Rightarrow> bool" where
  "in_int64 n \<longleftrightarrow> min_int64 \<le> n \<and> n \<le> max_int64"

text \<open>Two's complement wrap-around of the exact result of an operation.\<close>

definition wrap64 :: "int \<Rightarrow> int" where
  "wrap64 n = (n + 2 ^ 63) mod 2 ^ 64 - 2 ^ 63"

lemma wrap64_id: "in_int64 n \<Longrightarrow> wrap64 n = n"
  by (simp add: wrap64_def in_int64_def min_int64_def max_int64_def)

lemma wrap64_range: "in_int64 (wrap64 n)"
  using pos_mod_sign [of "2 ^ 64" "n + 2 ^ 63"] pos_mod_bound [of "2 ^ 64" "n + 2 ^ 63"]
  by (simp add: wrap64_def in_int64_def min_int64_def max_int64_def)

definition trunc_rat :: "rat \<Rightarrow> int" where
  "trunc_rat q = (if 0 \<le> q then \<lfloor>q\<rfloor> else \<lceil>q\<rceil>)"

text \<open>
  The conversion \<^verbatim>\<open>int64(f)\<close> truncates towards zero. For a NaN or a value that does not fit, the
  Go specification leaves the result to the implementation: it is the function \<open>oob\<close>
  (on amd64 the instruction gives \<open>min_int64\<close>, on arm64 it saturates).
\<close>

fun int64_of_f64 :: "(f64 \<Rightarrow> int) \<Rightarrow> f64 \<Rightarrow> int" where
  "int64_of_f64 oob (Fin q) =
     (let n = trunc_rat q in if in_int64 n then n else wrap64 (oob (Fin q)))"
| "int64_of_f64 oob f = wrap64 (oob f)"

lemma int64_of_f64_range: "in_int64 (int64_of_f64 oob f)"
  by (cases f) (simp_all add: Let_def wrap64_range)

section \<open>Rounding is exact on representable values and close elsewhere\<close>

lemma floor_log2_bounds:
  assumes "0 < q"
  shows "2 powi floor_log2 q \<le> q" "q < 2 powi (floor_log2 q + 1)"
proof -
  obtain n d where nd: "quotient_of q = (n, d)" by (cases "quotient_of q")
  have d: "0 < d" using quotient_of_denom_pos [OF nd] .
  have q: "q = of_int n / of_int d" using quotient_of_div [OF nd] .
  have n: "0 < n" using assms d by (simp add: q zero_less_divide_iff)
  define bn bd where "bn = nat (bitlen n - 1)" and "bd = nat (bitlen d - 1)"
  have pos: "0 < bitlen n" "0 < bitlen d"
    using n d bitlen_nonneg [of n] bitlen_nonneg [of d] bitlen_eq_zero_iff [of n] bitlen_eq_zero_iff [of d]
    by linarith+
  have bl: "bitlen n = int bn + 1" "bitlen d = int bd + 1" using pos by (simp_all add: bn_def bd_def)
  have "2 ^ bn \<le> n" "n < 2 ^ (bn + 1)" "2 ^ bd \<le> d" "d < 2 ^ (bd + 1)"
    using bitlen_bounds [OF n] bitlen_bounds [OF d] pos by (simp_all add: bn_def bd_def nat_diff_distrib' nat_add_distrib)
  then have b: "2 ^ bn \<le> (of_int n :: rat)" "(of_int n :: rat) < 2 ^ (bn + 1)"
      "2 ^ bd \<le> (of_int d :: rat)" "(of_int d :: rat) < 2 ^ (bd + 1)"
    by (metis of_int_le_iff of_int_less_iff of_int_numeral of_int_power)+
  have e: "(2::rat) powi (int bn - int bd) = 2 ^ bn / 2 ^ bd"
    by (simp add: power_int_diff)
  have up: "q < 2 powi (int bn - int bd + 1)"
  proof -
    have "q < 2 ^ (bn + 1) / of_int d" unfolding q using b(2) d by (intro divide_strict_right_mono) auto
    also have "\<dots> \<le> 2 ^ (bn + 1) / 2 ^ bd" using b(3) d by (intro divide_left_mono) auto
    finally show ?thesis by (simp add: power_int_add e mult.commute)
  qed
  have lo: "2 powi (int bn - int bd - 1) < q"
  proof -
    have "2 ^ bn / 2 ^ (bd + 1) < 2 ^ bn / (of_int d :: rat)"
      using b(4) d by (intro divide_strict_left_mono) auto
    also have "\<dots> \<le> q" unfolding q using b(1) d by (intro divide_right_mono) auto
    finally show ?thesis by (simp add: power_int_diff e)
  qed
  show "2 powi floor_log2 q \<le> q" "q < 2 powi (floor_log2 q + 1)"
    using up lo by (auto simp: floor_log2_def nd bl Let_def not_le)
qed

lemma powi_mono2: "m \<le> n \<Longrightarrow> (2::rat) powi m \<le> 2 powi n"
  by (simp add: power_int_increasing)

lemma powi_less2: "(2::rat) powi m < 2 powi n \<Longrightarrow> m < n"
  by (metis leI not_less powi_mono2)

text \<open>A value below \<open>2 ^ (53 + k)\<close> is rounded to a multiple of \<open>2 ^ k\<close> or a finer one.\<close>

lemma ulp_exp_le:
  assumes "\<bar>x\<bar> < 2 powi (k + 53)" "- 1074 \<le> k"
  shows "ulp_exp x \<le> k"
proof (cases "x = 0")
  case False
  have "2 powi floor_log2 \<bar>x\<bar> < (2::rat) powi (k + 53)"
    using floor_log2_bounds(1) [of "\<bar>x\<bar>"] False assms(1) by simp
  then have "floor_log2 \<bar>x\<bar> < k + 53" by (rule powi_less2)
  then show ?thesis using assms(2) False by (simp add: ulp_exp_def)
qed (use assms in \<open>simp add: ulp_exp_def\<close>)

lemma round_even_of_int [simp]: "round_even (of_int n) = n"
  by (simp add: round_even_def)

lemma round_even_error: "\<bar>of_int (round_even q) - q\<bar> \<le> 1 / 2"
proof -
  have "of_int \<lfloor>q\<rfloor> \<le> q" "q < of_int \<lfloor>q\<rfloor> + 1" by linarith+
  then show ?thesis by (simp add: round_even_def Let_def)
qed

lemma fl_rat_error:
  assumes "\<bar>x\<bar> < 2 powi (k + 53)" "- 1074 \<le> k"
  shows "\<bar>fl_rat x - x\<bar> \<le> 2 powi k / 2"
proof -
  let ?u = "2 powi ulp_exp x :: rat"
  have u: "0 < ?u" "?u \<le> 2 powi k" using ulp_exp_le [OF assms] by (simp_all add: powi_mono2)
  have "fl_rat x - x = (of_int (round_even (x / ?u)) - x / ?u) * ?u"
    by (simp add: fl_rat_def left_diff_distrib)
  then have "\<bar>fl_rat x - x\<bar> = \<bar>of_int (round_even (x / ?u)) - x / ?u\<bar> * ?u"
    by (simp add: abs_mult)
  also have "\<dots> \<le> 1 / 2 * ?u" using round_even_error u(1) by (intro mult_right_mono) auto
  also have "\<dots> \<le> 2 powi k / 2" using u(2) by simp
  finally show ?thesis .
qed

lemma fl_rat_exact:
  assumes "\<bar>n\<bar> < 2 ^ 53" "- 1074 \<le> k"
  shows "fl_rat (of_int n * 2 powi k) = of_int n * 2 powi k"
proof -
  let ?x = "of_int n * 2 powi k :: rat"
  have "\<bar>?x\<bar> = of_int \<bar>n\<bar> * 2 powi k" by (simp add: abs_mult)
  also have "\<dots> < 2 ^ 53 * 2 powi k"
    using assms(1) by (intro mult_strict_right_mono) (metis of_int_less_iff of_int_numeral of_int_power, simp)
  also have "\<dots> = 2 powi (k + 53)" by (simp add: power_int_add)
  finally have "ulp_exp ?x \<le> k" using assms(2) by (rule ulp_exp_le)
  then obtain j where j: "k = ulp_exp ?x + int j" by (metis zle_iff_zadd)
  have "2 powi k = (2::rat) ^ j * 2 powi ulp_exp ?x"
    by (metis j mult.commute power_int_add power_int_of_nat zero_neq_numeral)
  then have x: "?x = of_int (n * 2 ^ j) * 2 powi ulp_exp ?x"
    by (metis mult.assoc of_int_mult of_int_numeral of_int_power)
  then have "?x / 2 powi ulp_exp ?x = of_int (n * 2 ^ j)"
    by (metis nonzero_mult_div_cancel_right power_int_eq_0_iff zero_neq_numeral)
  then have "fl_rat ?x = of_int (n * 2 ^ j) * 2 powi ulp_exp ?x"
    unfolding fl_rat_def by (simp only: round_even_of_int)
  then show ?thesis using x by (simp only:)
qed

lemma fl_exact:
  assumes "\<bar>n\<bar> < 2 ^ 53" "- 1074 \<le> k" "k \<le> 971"
  shows "fl (of_int n * 2 powi k) = Fin (of_int n * 2 powi k)"
proof -
  have "(of_int \<bar>n\<bar> :: rat) < 2 ^ 53"
    using assms(1) by (metis of_int_less_iff of_int_numeral of_int_power)
  then have "\<bar>of_int n * 2 powi k\<bar> < 2 ^ 53 * (2 powi k :: rat)" by (simp add: abs_mult)
  also have "\<dots> \<le> 2 ^ 53 * 2 powi 971" using assms(3) by (intro mult_left_mono powi_mono2) auto
  also have "\<dots> = 2 powi (53 + 971)" by (subst power_int_add) simp_all
  also have "\<dots> = (2::rat) ^ 1024" by simp
  finally show ?thesis
    unfolding fl_def fl_rat_exact [OF assms(1,2)] Let_def by auto
qed

lemma fl_int: "\<bar>n\<bar> < 2 ^ 53 \<Longrightarrow> fl (of_int n) = Fin (of_int n)"
  using fl_exact [of n 0] by simp

lemma f64_of_int_exact: "\<bar>n\<bar> < 2 ^ 53 \<Longrightarrow> f64_of_int n = Fin (of_int n)"
  by (simp add: f64_of_int_def fl_int)

text \<open>Without overflow, the result is finite and within half a unit in the last place.\<close>

lemma fl_close:
  assumes "\<bar>x\<bar> < 2 powi (k + 53)" "- 1074 \<le> k" "k \<le> 970"
  shows "\<exists>y. fl x = Fin y \<and> \<bar>y - x\<bar> \<le> 2 powi k / 2"
proof -
  have e: "\<bar>fl_rat x - x\<bar> \<le> 2 powi k / 2" using assms(1,2) by (rule fl_rat_error)
  have "(2::rat) powi k / 2 \<le> 2 powi (k + 53)"
    by (simp add: power_int_add)
  then have "\<bar>fl_rat x\<bar> < 2 * 2 powi (k + 53)" using e assms(1) by linarith
  also have "\<dots> = (2::rat) powi (k + 54)" by (simp add: power_int_add)
  also have "\<dots> \<le> 2 powi 1024" using assms(3) by (intro powi_mono2) simp
  finally have "\<bar>fl_rat x\<bar> < 2 ^ 1024" by simp
  then show ?thesis using e by (auto simp: fl_def Let_def)
qed

section \<open>math.Pow\<close>

text \<open>
  \<^verbatim>\<open>math.Pow(x, y)\<close> of the Go library for an integral \<open>y \<ge> 0\<close>: the special cases, then repeated
  squaring of the fraction \<open>x1\<close> of \<open>x\<close>, with its binary exponent \<open>xe\<close> kept apart. \<open>frexp\<close>
  splits a number, \<open>ldexp\<close> puts it together again.
\<close>

definition frexp :: "rat \<Rightarrow> rat \<times> int" where
  "frexp x = (let e = floor_log2 \<bar>x\<bar> + 1 in (x / 2 powi e, e))"

function pow_loop :: "nat \<Rightarrow> rat \<Rightarrow> int \<Rightarrow> rat \<Rightarrow> int \<Rightarrow> rat \<times> int" where
  "pow_loop i x1 xe a1 ae =
     (if i = 0 then (a1, ae)
      else if xe < - (2 ^ 12) \<or> 2 ^ 12 < xe then (a1, ae + xe)
      else
        let (a1', ae') = (if odd i then (fl_rat (a1 * x1), ae + xe) else (a1, ae));
            x1' = fl_rat (x1 * x1)
        in if x1' < 1 / 2 then pow_loop (i div 2) (x1' + x1') (2 * xe - 1) a1' ae'
           else pow_loop (i div 2) x1' (2 * xe) a1' ae')"
  by pat_completeness auto
termination by (relation "measure fst") auto

declare pow_loop.simps [simp del]

fun pow_int :: "f64 \<Rightarrow> nat \<Rightarrow> f64" where
  "pow_int x y =
     (if y = 0 \<or> x = Fin 1 then Fin 1
      else if y = 1 then x
      else case x of
        NaN \<Rightarrow> NaN
      | PosInf \<Rightarrow> PosInf
      | NegInf \<Rightarrow> if odd y then NegInf else PosInf
      | Fin q \<Rightarrow>
          if q = 0 then Fin 0
          else if 2 ^ 63 \<le> y then
            (if q = - 1 then Fin 1 else if \<bar>q\<bar> < 1 then Fin 0 else PosInf)
          else
            (let (x1, xe) = frexp q; (a1, ae) = pow_loop y x1 xe 1 0
             in fl (a1 * 2 powi ae)))"

text \<open>Powers of two come out exactly.\<close>

lemma fl_rat_powi: "- 1074 \<le> k \<Longrightarrow> fl_rat (2 powi k) = 2 powi k"
  using fl_rat_exact [of 1 k] by simp

lemma pow_loop_two:
  "0 \<le> v \<Longrightarrow> v * int i \<le> 4095 \<Longrightarrow> i < 2 ^ n \<Longrightarrow> int n - 1074 \<le> j \<Longrightarrow>
     \<exists>a e. pow_loop i (1 / 2) (v + 1) (2 powi j) ae = (a, e) \<and>
           a * 2 powi e = 2 powi (j + ae + v * int i)"
proof (induction n arbitrary: i v j ae)
  case 0
  then show ?case by (simp add: pow_loop.simps power_int_add)
next
  case (Suc n)
  show ?case
  proof (cases "i = 0")
    case True
    then show ?thesis by (simp add: pow_loop.simps power_int_add)
  next
    case False
    have i: "int i = 2 * int (i div 2) + (if odd i then 1 else 0)"
      by presburger
    have "v * 1 \<le> v * int i" using False Suc.prems(1) by (intro mult_left_mono) auto
    then have xe: "\<not> (v + 1 < - (2 ^ 12) \<or> 2 ^ 12 < v + 1)" using Suc.prems(1,2) by simp
    have sq: "fl_rat (1 / 2 * (1 / 2)) = 1 / 4"
      using fl_rat_powi [of "- 2"] by (simp add: power_int_minus)
    define j' ae' where "j' = (if odd i then j - 1 else j)" and "ae' = (if odd i then ae + (v + 1) else ae)"
    have a: "(if odd i then (fl_rat (2 powi j * (1 / 2)), ae + (v + 1)) else (2 powi j, ae)) = (2 powi j', ae')"
      using fl_rat_powi [of "j - 1"] Suc.prems(4)
      by (simp add: j'_def ae'_def power_int_diff)
    have step: "pow_loop i (1 / 2) (v + 1) (2 powi j) ae =
        pow_loop (i div 2) (1 / 2) (2 * v + 1) (2 powi j') ae'"
      by (subst pow_loop.simps) (simp only: False xe a sq Let_def if_False split, simp add: add.commute)
    have "2 * v * int (i div 2) \<le> v * int i" using Suc.prems(1) by (subst i) (simp add: algebra_simps)
    then have "2 * v * int (i div 2) \<le> 4095" using Suc.prems(2) by linarith
    from Suc.IH [of "2 * v" "i div 2" j' ae', OF _ this]
    show ?thesis unfolding step
      using Suc.prems i by (auto simp: j'_def ae'_def algebra_simps split: if_splits)
  qed
qed

lemma frexp_two: "frexp 2 = (1 / 2, 2)"
proof -
  have "2 powi floor_log2 (2::rat) < (2::rat) powi 2" "(2::rat) powi 1 < 2 powi (floor_log2 2 + 1)"
    using floor_log2_bounds [of 2] by auto
  from this [THEN powi_less2] have "floor_log2 (2::rat) = 1" by linarith
  then show ?thesis by (simp add: frexp_def)
qed

lemma pow_int_two:
  assumes "y \<le> 971"
  shows "pow_int (Fin 2) y = Fin (2 ^ y)"
proof -
  consider "y = 0" | "y = 1" | "2 \<le> y" by linarith
  then show ?thesis
  proof cases
    case 3
    have "y < 2 ^ 10" "y < 2 ^ 63" using assms by simp_all
    moreover from pow_loop_two [of 1 y 10 0 0]
    obtain a e where "pow_loop y (1 / 2) 2 1 0 = (a, e)" "a * 2 powi e = 2 ^ y"
      using assms \<open>y < 2 ^ 10\<close> by auto
    moreover have "fl (2 ^ y) = Fin (2 ^ y)"
      using fl_exact [of 1 "int y"] assms by simp
    ultimately show ?thesis using 3 by (simp add: frexp_two)
  qed simp_all
qed

end
