(* ===== verification/Dag_Model.thy ===== *)
theory Dag_Model
  imports Float64
begin

text \<open>
  The data model of \<^verbatim>\<open>pkg/dag/dag.go\<close>: task and run statuses, the records for tasks and DAGs,
  and the operations that build a DAG (\<open>NewDAG\<close>, \<open>AddTask\<close>, \<open>AddEdge\<close>,
  \<open>BuildEdgesFromDependencies\<close>), with the relation between the \<open>Dependencies\<close> of the tasks
  and the \<open>Edges\<close> map that the graph algorithms read.
\<close>

section \<open>Statuses\<close>

text \<open>
  \<^verbatim>\<open>type Status int\<close> with eight named constants; a value outside them (say from a database
  column) is \<open>StatusOther\<close>, which every comparison of the code treats alike.
\<close>

datatype status = StatusPending | StatusQueued | StatusRunning | StatusSuccess | StatusFailed
  | StatusCancelled | StatusSkipped | StatusUpForRetry | StatusOther int

fun status_String :: "status \<Rightarrow> string" where
  "status_String StatusPending = ''pending''"
| "status_String StatusQueued = ''queued''"
| "status_String StatusRunning = ''running''"
| "status_String StatusSuccess = ''success''"
| "status_String StatusFailed = ''failed''"
| "status_String StatusCancelled = ''cancelled''"
| "status_String StatusSkipped = ''skipped''"
| "status_String StatusUpForRetry = ''up_for_retry''"
| "status_String (StatusOther n) = ''unknown''"

definition IsTerminal :: "status \<Rightarrow> bool" where
  "IsTerminal s \<longleftrightarrow>
     s = StatusSuccess \<or> s = StatusFailed \<or> s = StatusCancelled \<or> s = StatusSkipped"

text \<open>The numbering of \<^verbatim>\<open>iota\<close>, which the stores write out.\<close>

fun status_code :: "status \<Rightarrow> int" where
  "status_code StatusPending = 0"
| "status_code StatusQueued = 1"
| "status_code StatusRunning = 2"
| "status_code StatusSuccess = 3"
| "status_code StatusFailed = 4"
| "status_code StatusCancelled = 5"
| "status_code StatusSkipped = 6"
| "status_code StatusUpForRetry = 7"
| "status_code (StatusOther n) = n"

lemma IsTerminal_simps [simp]:
  "\<not> IsTerminal StatusPending" "\<not> IsTerminal StatusQueued" "\<not> IsTerminal StatusRunning"
  "IsTerminal StatusSuccess" "IsTerminal StatusFailed" "IsTerminal StatusCancelled"
  "IsTerminal StatusSkipped" "\<not> IsTerminal StatusUpForRetry" "\<not> IsTerminal (StatusOther n)"
  by (simp_all add: IsTerminal_def)

section \<open>Records\<close>

text \<open>A value of type \<^verbatim>\<open>any\<close> as the YAML and JSON decoders build it.\<close>

datatype gval = VNil | VStr string | VInt int | VFloat f64 | VBool bool
  | VList "gval list" | VMap "(string, gval) fmap"

record retry_policy =
  MaxRetries :: int
  InitialBackoff :: duration
  MaxBackoff :: duration
  BackoffFactor :: f64
  RetryOn :: "string list"

definition DefaultRetryPolicy :: retry_policy where
  "DefaultRetryPolicy =
     \<lparr>MaxRetries = 3, InitialBackoff = 10 * 1000000000, MaxBackoff = 5 * 60000000000,
      BackoffFactor = Fin 2, RetryOn = []\<rparr>"

record cron_schedule =
  Expression :: string
  Timezone :: string
  Catchup :: bool

record dag_config =
  MaxConcurrency :: int
  cfg_Timeout :: duration
  DefaultRetry :: "retry_policy option"
  Params :: "(string, string) fmap"
  Tags :: "string list"
  Owner :: string
  SLADuration :: duration

record task =
  task_ID :: string
  task_Name :: string
  Executor :: string
  Config :: "(string, gval) fmap"
  RetryPolicy :: "retry_policy option"
  Timeout :: duration
  Dependencies :: "string list"
  Labels :: "(string, string) fmap"
  Priority :: int

type_synonym tasks = "(string, task) fmap"
type_synonym edges = "(string, string list) fmap"

record dag =
  dag_ID :: string
  dag_Name :: string
  Description :: string
  Tasks :: tasks
  Edges :: edges
  Schedule_of :: "cron_schedule option"
  DConfig :: dag_config
  Version :: int
  dag_CreatedAt :: time
  dag_UpdatedAt :: time

section \<open>Building a DAG\<close>

text \<open>\<open>now\<close> is the value of \<^verbatim>\<open>time.Now()\<close>.\<close>

definition NewDAG :: "time \<Rightarrow> string \<Rightarrow> string \<Rightarrow> dag" where
  "NewDAG now i name =
     \<lparr>dag_ID = i, dag_Name = name, Description = '''', Tasks = fmempty, Edges = fmempty,
      Schedule_of = None,
      DConfig = \<lparr>MaxConcurrency = 16, cfg_Timeout = 0, DefaultRetry = None, Params = fmempty,
                 Tags = [], Owner = '''', SLADuration = 0\<rparr>,
      Version = 1, dag_CreatedAt = now, dag_UpdatedAt = now\<rparr>"

definition AddTask :: "dag \<Rightarrow> task \<Rightarrow> err + dag" where
  "AddTask d t =
     (if task_ID t = '''' then Inl (Err ''task ID must not be empty'' [])
      else if fmlookup (Tasks d) (task_ID t) \<noteq> None
      then Inl (Err ''task %q already exists in DAG %q'' [FStr (task_ID t), FStr (dag_ID d)])
      else Inr (d\<lparr>Tasks := fmupd (task_ID t) t (Tasks d)\<rparr>))"

definition AddEdge :: "dag \<Rightarrow> string \<Rightarrow> string \<Rightarrow> err + dag" where
  "AddEdge d f t =
     (if fmlookup (Tasks d) f = None
      then Inl (Err ''upstream task %q not found in DAG'' [FStr f])
      else if fmlookup (Tasks d) t = None
      then Inl (Err ''downstream task %q not found in DAG'' [FStr t])
      else Inr (d\<lparr>Edges := appendl (Edges d) f t\<rparr>))"

text \<open>
  The two nested loops of \<open>BuildEdgesFromDependencies\<close>. The loops write \<^verbatim>\<open>d.Edges\<close> as they
  go, so an error leaves the edges of the dependencies read so far: the result is the
  DAG as it is left and the error, if any. \<open>ord\<close> is the order in which the map of
  tasks is visited.
\<close>

fun add_dep_edges :: "tasks \<Rightarrow> string \<Rightarrow> string list \<Rightarrow> edges \<Rightarrow> edges \<times> err option" where
  "add_dep_edges ts i [] es = (es, None)"
| "add_dep_edges ts i (dep # deps) es =
     (if fmlookup ts dep = None
      then (es, Some (Err ''task %q depends on unknown task %q'' [FStr i, FStr dep]))
      else add_dep_edges ts i deps (appendl es dep i))"

fun build_edges :: "tasks \<Rightarrow> string list \<Rightarrow> edges \<Rightarrow> edges \<times> err option" where
  "build_edges ts [] es = (es, None)"
| "build_edges ts (k # ks) es =
     (case fmlookup ts k of
        None \<Rightarrow> build_edges ts ks es
      | Some t \<Rightarrow>
          (case add_dep_edges ts (task_ID t) (Dependencies t) es of
             (es', Some e) \<Rightarrow> (es', Some e)
           | (es', None) \<Rightarrow> build_edges ts ks es'))"

definition BuildEdgesFromDependencies :: "string list \<Rightarrow> dag \<Rightarrow> dag \<times> err option" where
  "BuildEdgesFromDependencies ord d =
     (let (es, e) = build_edges (Tasks d) ord fmempty in (d\<lparr>Edges := es\<rparr>, e))"

section \<open>Invariant and edge relation\<close>

text \<open>Every task is filed under its own, nonempty ID.\<close>

definition well_keyed :: "tasks \<Rightarrow> bool" where
  "well_keyed ts \<longleftrightarrow> fmpred (\<lambda>k t. task_ID t = k \<and> k \<noteq> '''') ts"

text \<open>Both ends of every edge are tasks; no source of an edge list is unknown.\<close>

definition edges_closed :: "tasks \<Rightarrow> edges \<Rightarrow> bool" where
  "edges_closed ts es \<longleftrightarrow> fmpred (\<lambda>u vs. u \<in> fmdom' ts \<and> set vs \<subseteq> fmdom' ts) es"

definition wf_dag :: "dag \<Rightarrow> bool" where
  "wf_dag d \<longleftrightarrow> well_keyed (Tasks d) \<and> edges_closed (Tasks d) (Edges d)"

text \<open>The graph that the edge lists describe, and the one that the dependencies describe.\<close>

definition edge_rel :: "edges \<Rightarrow> (string \<times> string) set" where
  "edge_rel es = {(u, v). v \<in> set (getl es u)}"

definition dep_rel :: "tasks \<Rightarrow> (string \<times> string) set" where
  "dep_rel ts = {(u, v). \<exists>t. fmlookup ts v = Some t \<and> u \<in> set (Dependencies t)}"

definition deps_known :: "tasks \<Rightarrow> bool" where
  "deps_known ts \<longleftrightarrow> fmpred (\<lambda>k t. set (Dependencies t) \<subseteq> fmdom' ts) ts"

lemma wf_dag_keyed: "wf_dag d \<Longrightarrow> well_keyed (Tasks d)"
  and wf_dag_closed: "wf_dag d \<Longrightarrow> edges_closed (Tasks d) (Edges d)"
  by (simp_all add: wf_dag_def)

lemma edge_rel_iff [simp]: "(u, v) \<in> edge_rel es \<longleftrightarrow> v \<in> set (getl es u)"
  by (simp add: edge_rel_def)

lemma dep_rel_iff: "(u, v) \<in> dep_rel ts \<longleftrightarrow> (\<exists>t. fmlookup ts v = Some t \<and> u \<in> set (Dependencies t))"
  by (simp add: dep_rel_def)

lemma well_keyedD: "well_keyed ts \<Longrightarrow> fmlookup ts k = Some t \<Longrightarrow> task_ID t = k \<and> k \<noteq> ''''"
  by (auto simp: well_keyed_def dest: fmpredD)

lemma well_keyed_nonempty: "well_keyed ts \<Longrightarrow> '''' \<notin> fmdom' ts"
  using well_keyedD [of ts "''''"] by (cases "fmlookup ts ''''") (auto simp: fmlookup_dom'_iff)

lemma edges_closed_iff:
  "edges_closed ts es \<longleftrightarrow>
     fmdom' es \<subseteq> fmdom' ts \<and> (\<forall>u v. v \<in> set (getl es u) \<longrightarrow> v \<in> fmdom' ts)"
  unfolding edges_closed_def fmpred_iff mem_getl_iff subset_iff fmlookup_dom'_iff
  by blast

lemma edges_closedD:
  assumes "edges_closed ts es" and "v \<in> set (getl es u)"
  shows "u \<in> fmdom' ts" and "v \<in> fmdom' ts"
  using assms getl_nonempty_dom [OF assms(2)] by (auto simp: edges_closed_iff)

lemma edges_closed_empty [simp]: "edges_closed ts fmempty"
  by (simp add: edges_closed_def)

lemma well_keyed_upd: "well_keyed ts \<Longrightarrow> task_ID t \<noteq> '''' \<Longrightarrow> well_keyed (fmupd (task_ID t) t ts)"
  by (fastforce simp: well_keyed_def fmpred_iff split: if_splits)

lemma edges_closed_upd: "edges_closed ts es \<Longrightarrow> edges_closed (fmupd k t ts) es"
  by (auto simp: edges_closed_iff)

lemma edges_closed_appendl:
  "edges_closed ts es \<Longrightarrow> u \<in> fmdom' ts \<Longrightarrow> v \<in> fmdom' ts \<Longrightarrow> edges_closed ts (appendl es u v)"
  by (auto simp: edges_closed_iff go_simps split: if_splits)

lemma finite_edge_rel: "finite (edge_rel es)"
proof (rule finite_subset)
  show "edge_rel es \<subseteq> (SIGMA u:fmdom' es. set (getl es u))"
    by (auto intro: getl_nonempty_dom)
qed (rule finite_SigmaI; simp)

section \<open>Building edges from dependencies\<close>

text \<open>What the inner loop adds to each edge list, and when it stops with an error.\<close>

lemma add_dep_edges_getl:
  "add_dep_edges ts i deps es = (es', None) \<Longrightarrow>
     getl es' u = getl es u @ replicate (count_list deps u) i"
  by (induction ts i deps es rule: add_dep_edges.induct)
     (auto simp: go_simps replicate_append_same split: if_splits)

lemma add_dep_edges_ok:
  "snd (add_dep_edges ts i deps es) = None \<longleftrightarrow> set deps \<subseteq> fmdom' ts"
  by (induction ts i deps es rule: add_dep_edges.induct) (auto simp: fmlookup_dom'_iff)

lemma add_dep_edges_closed:
  "edges_closed ts es \<Longrightarrow> i \<in> fmdom' ts \<Longrightarrow> edges_closed ts (fst (add_dep_edges ts i deps es))"
  by (induction ts i deps es rule: add_dep_edges.induct)
     (auto intro: edges_closed_appendl fmdom'I)

lemma add_dep_edges_error:
  "snd (add_dep_edges ts i deps es) = Some e \<Longrightarrow>
     \<exists>dep \<in> set deps. dep \<notin> fmdom' ts \<and>
       e = Err ''task %q depends on unknown task %q'' [FStr i, FStr dep]"
  by (induction ts i deps es rule: add_dep_edges.induct)
     (auto simp: fmlookup_dom'_iff split: if_splits)

text \<open>The copies of the task IDs that the tasks visited in order \<open>ks\<close> put on the list of \<open>u\<close>.\<close>

definition dependents :: "tasks \<Rightarrow> string list \<Rightarrow> string \<Rightarrow> string list" where
  "dependents ts ks u =
     concat (map (\<lambda>k. case fmlookup ts k of None \<Rightarrow> []
                       | Some t \<Rightarrow> replicate (count_list (Dependencies t) u) (task_ID t)) ks)"

lemma build_edges_getl:
  "build_edges ts ks es = (es', None) \<Longrightarrow> getl es' u = getl es u @ dependents ts ks u"
proof (induction ts ks es rule: build_edges.induct)
  case (2 ts k ks es)
  show ?case
  proof (cases "fmlookup ts k")
    case None
    with 2 show ?thesis by (simp add: dependents_def)
  next
    case (Some t)
    obtain es1 e where step: "add_dep_edges ts (task_ID t) (Dependencies t) es = (es1, e)"
      by (cases "add_dep_edges ts (task_ID t) (Dependencies t) es")
    with "2.prems" Some have "e = None" by (auto split: option.splits)
    with 2 Some step show ?thesis
      by (simp add: dependents_def add_dep_edges_getl)
  qed
qed (simp add: dependents_def)

lemma build_edges_ok:
  "snd (build_edges ts ks es) = None \<longleftrightarrow>
     (\<forall>k \<in> set ks. \<forall>t. fmlookup ts k = Some t \<longrightarrow> set (Dependencies t) \<subseteq> fmdom' ts)"
proof (induction ts ks es rule: build_edges.induct)
  case (2 ts k ks es)
  show ?case
  proof (cases "fmlookup ts k")
    case (Some t)
    show ?thesis
      using 2(2) [OF Some] Some add_dep_edges_ok [of ts "task_ID t" "Dependencies t" es]
      by (cases "add_dep_edges ts (task_ID t) (Dependencies t) es") (auto split: option.splits)
  qed (use 2 in auto)
qed auto

lemma build_edges_closed:
  "well_keyed ts \<Longrightarrow> edges_closed ts es \<Longrightarrow> edges_closed ts (fst (build_edges ts ks es))"
proof (induction ts ks es rule: build_edges.induct)
  case (2 ts k ks es)
  show ?case
  proof (cases "fmlookup ts k")
    case (Some t)
    then have "task_ID t \<in> fmdom' ts"
      using well_keyedD [OF "2.prems"(1) Some] by (auto intro: fmdom'I)
    with "2.prems" have "edges_closed ts (fst (add_dep_edges ts (task_ID t) (Dependencies t) es))"
      by (intro add_dep_edges_closed)
    then show ?thesis
      using 2(2) [OF Some] Some "2.prems"
      by (cases "add_dep_edges ts (task_ID t) (Dependencies t) es") (auto split: option.splits)
  qed (use 2 in auto)
qed auto

lemma count_list_concat: "count_list (concat xss) v = sum_list (map (\<lambda>xs. count_list xs v) xss)"
  by (induction xss) (simp_all add: count_list_append)

lemma count_list_replicate: "count_list (replicate n x) v = (if x = v then n else 0)"
  by (induction n) auto

lemma count_dependents:
  "well_keyed ts \<Longrightarrow> distinct ks \<Longrightarrow>
     count_list (dependents ts ks u) v =
       (if v \<in> set ks then case fmlookup ts v of None \<Rightarrow> 0 | Some t \<Rightarrow> count_list (Dependencies t) u
        else 0)"
  by (induction ks)
     (auto simp: dependents_def count_list_append count_list_replicate split: option.splits
           dest: well_keyedD)

lemma BuildEdges_Edges:
  "Edges (fst (BuildEdgesFromDependencies ord d)) = fst (build_edges (Tasks d) ord fmempty)"
  "snd (BuildEdgesFromDependencies ord d) = snd (build_edges (Tasks d) ord fmempty)"
  by (simp_all add: BuildEdgesFromDependencies_def split: prod.splits)

lemma BuildEdges_frame [frame_simps]:
  "fst (BuildEdgesFromDependencies ord d) =
     d\<lparr>Edges := Edges (fst (BuildEdgesFromDependencies ord d))\<rparr>"
  by (simp add: BuildEdgesFromDependencies_def split: prod.splits)

lemma BuildEdges_Tasks [simp]: "Tasks (fst (BuildEdgesFromDependencies ord d)) = Tasks d"
  by (subst BuildEdges_frame) simp

lemma BuildEdges_ok_iff:
  "ranges ord (Tasks d) \<Longrightarrow>
     snd (BuildEdgesFromDependencies ord d) = None \<longleftrightarrow> deps_known (Tasks d)"
  by (auto simp: BuildEdges_Edges build_edges_ok deps_known_def fmpred_iff go_simps
           dest: fmdom'I)

lemma BuildEdges_count:
  assumes "well_keyed (Tasks d)" "ranges ord (Tasks d)"
    and "snd (BuildEdgesFromDependencies ord d) = None"
  shows "count_list (getl (Edges (fst (BuildEdgesFromDependencies ord d))) u) v =
           (case fmlookup (Tasks d) v of None \<Rightarrow> 0 | Some t \<Rightarrow> count_list (Dependencies t) u)"
proof -
  obtain es where es: "build_edges (Tasks d) ord fmempty = (es, None)"
    using assms(3) by (cases "build_edges (Tasks d) ord fmempty") (simp add: BuildEdges_Edges)
  have "getl es u = dependents (Tasks d) ord u"
    using build_edges_getl [OF es] by (simp add: go_simps)
  then show ?thesis
    using assms(1,2) es
    by (auto simp: BuildEdges_Edges count_dependents ranges_def fmlookup_dom'_iff split: option.splits)
qed

lemma BuildEdges_edge_rel:
  assumes "well_keyed (Tasks d)" "ranges ord (Tasks d)"
    and "snd (BuildEdgesFromDependencies ord d) = None"
  shows "edge_rel (Edges (fst (BuildEdgesFromDependencies ord d))) = dep_rel (Tasks d)"
proof -
  have "v \<in> set (getl (Edges (fst (BuildEdgesFromDependencies ord d))) u) \<longleftrightarrow> (u, v) \<in> dep_rel (Tasks d)"
    for u v
    using BuildEdges_count [OF assms, of u v]
    by (auto simp: dep_rel_iff count_list_0_iff split: option.splits) (metis count_list_0_iff)+
  then show ?thesis by auto
qed

lemma BuildEdges_wf: "well_keyed (Tasks d) \<Longrightarrow> wf_dag (fst (BuildEdgesFromDependencies ord d))"
  using build_edges_closed [of "Tasks d" fmempty ord] by (simp add: wf_dag_def BuildEdges_Edges)

text \<open>
  \<open>BuildEdgesFromDependencies\<close> fails exactly when some task depends on a task that is not
  in the DAG. Otherwise, whatever order the map of tasks is visited in, the edge list of
  \<open>u\<close> holds \<open>v\<close> exactly as often as the dependencies of task \<open>v\<close> hold \<open>u\<close>, so that the
  edges are the dependency relation; nothing but the edges changes.
\<close>

theorem BuildEdges_correct:
  assumes "well_keyed (Tasks d)" and "ranges ord (Tasks d)"
  shows "(snd (BuildEdgesFromDependencies ord d) = None \<longleftrightarrow> deps_known (Tasks d)) \<and>
    (deps_known (Tasks d) \<longrightarrow>
       edge_rel (Edges (fst (BuildEdgesFromDependencies ord d))) = dep_rel (Tasks d) \<and>
       (\<forall>u v. count_list (getl (Edges (fst (BuildEdgesFromDependencies ord d))) u) v =
          (case fmlookup (Tasks d) v of None \<Rightarrow> 0 | Some t \<Rightarrow> count_list (Dependencies t) u))) \<and>
    fst (BuildEdgesFromDependencies ord d) =
      d\<lparr>Edges := Edges (fst (BuildEdgesFromDependencies ord d))\<rparr>"
  using assms BuildEdges_ok_iff [OF assms(2)] BuildEdges_count [OF assms] BuildEdges_edge_rel [OF assms]
    BuildEdges_frame by blast

section \<open>DAGs built through the API\<close>

text \<open>A small task for examples: everything but the ID, the executor and the dependencies is zero.\<close>

definition plain_task :: "string \<Rightarrow> string list \<Rightarrow> task" where
  "plain_task i deps =
     \<lparr>task_ID = i, task_Name = '''', Executor = ''shell'', Config = fmempty, RetryPolicy = None,
      Timeout = 0, Dependencies = deps, Labels = fmempty, Priority = 0\<rparr>"

inductive dag_built :: "dag \<Rightarrow> bool" where
  new: "dag_built (NewDAG now i name)"
| task: "dag_built d \<Longrightarrow> AddTask d t = Inr d' \<Longrightarrow> dag_built d'"
| edge: "dag_built d \<Longrightarrow> AddEdge d u v = Inr d' \<Longrightarrow> dag_built d'"
| deps: "dag_built d \<Longrightarrow> ranges ord (Tasks d) \<Longrightarrow>
     dag_built (fst (BuildEdgesFromDependencies ord d))"

lemma wf_NewDAG: "wf_dag (NewDAG now i name)"
  by (simp add: wf_dag_def NewDAG_def well_keyed_def edges_closed_def)

lemma wf_AddTask: "wf_dag d \<Longrightarrow> AddTask d t = Inr d' \<Longrightarrow> wf_dag d'"
  by (auto simp: wf_dag_def AddTask_def intro: well_keyed_upd edges_closed_upd split: if_splits)

lemma wf_AddEdge: "wf_dag d \<Longrightarrow> AddEdge d u v = Inr d' \<Longrightarrow> wf_dag d'"
  using edges_closed_appendl [of "Tasks d" "Edges d" u v]
  by (auto simp: wf_dag_def AddEdge_def fmlookup_dom'_iff split: if_splits)

text \<open>
  C37. Every DAG that the API can build (\<open>NewDAG\<close>, \<open>AddTask\<close>, \<open>AddEdge\<close> and
  \<open>BuildEdgesFromDependencies\<close>, in any order, also after one that failed half-way) is well
  formed: each task is filed under its own nonempty ID and both ends of every edge are tasks.
\<close>

theorem dag_built_wf: "dag_built d \<Longrightarrow> wf_dag d"
  by (induction rule: dag_built.induct)
     (blast intro: wf_NewDAG wf_AddTask wf_AddEdge BuildEdges_wf dest: wf_dag_keyed)+

section \<open>An example\<close>

text \<open>A diamond: \<open>b\<close> and \<open>c\<close> depend on \<open>a\<close>, and \<open>d\<close> on both.\<close>

definition diamond_tasks :: tasks where
  "diamond_tasks = fmap_of_list
     [(''a'', plain_task ''a'' []), (''b'', plain_task ''b'' [''a'']),
      (''c'', plain_task ''c'' [''a'']), (''d'', plain_task ''d'' [''b'', ''c''])]"

definition diamond_start :: dag where
  "diamond_start = (NewDAG 0 ''demo'' ''Demo'')\<lparr>Tasks := diamond_tasks\<rparr>"

definition diamond :: dag where
  "diamond = fst (BuildEdgesFromDependencies [''a'', ''b'', ''c'', ''d''] diamond_start)"

lemma BuildEdges_correct_witness:
  "edge_rel (Edges diamond) = dep_rel diamond_tasks"
proof -
  have "well_keyed (Tasks diamond_start)" "ranges [''a'', ''b'', ''c'', ''d''] (Tasks diamond_start)"
    "deps_known (Tasks diamond_start)" by code_simp+
  then show ?thesis
    using BuildEdges_correct [of diamond_start "[''a'', ''b'', ''c'', ''d'']"]
    by (simp add: diamond_def) (simp add: diamond_start_def)
qed

text \<open>Two tasks and one edge, added one by one.\<close>

definition pair_tasks :: "dag" where
  "pair_tasks = (NewDAG 0 ''demo'' ''Demo'')
     \<lparr>Tasks := fmupd ''b'' (plain_task ''b'' []) (fmupd ''a'' (plain_task ''a'' []) fmempty)\<rparr>"

lemma dag_built_wf_witness:
  "wf_dag (pair_tasks\<lparr>Edges := appendl (Edges pair_tasks) ''a'' ''b''\<rparr>)"
proof (rule dag_built_wf)
  let ?d0 = "NewDAG 0 ''demo'' ''Demo''"
  let ?d1 = "?d0\<lparr>Tasks := fmupd ''a'' (plain_task ''a'' []) fmempty\<rparr>"
  have "AddTask ?d0 (plain_task ''a'' []) = Inr ?d1"
    by (simp add: AddTask_def plain_task_def NewDAG_def)
  then have "dag_built ?d1" by (rule dag_built.task [OF dag_built.new])
  moreover have "AddTask ?d1 (plain_task ''b'' []) = Inr pair_tasks"
    by (simp add: AddTask_def plain_task_def NewDAG_def pair_tasks_def)
  ultimately have "dag_built pair_tasks" by (rule dag_built.task)
  moreover have "AddEdge pair_tasks ''a'' ''b'' = Inr (pair_tasks\<lparr>Edges := appendl (Edges pair_tasks) ''a'' ''b''\<rparr>)"
    by (simp add: AddEdge_def pair_tasks_def)
  ultimately show "dag_built (pair_tasks\<lparr>Edges := appendl (Edges pair_tasks) ''a'' ''b''\<rparr>)"
    by (rule dag_built.edge)
qed

text \<open>Two tasks in a row.\<close>

definition chain :: dag where
  "chain = (NewDAG 0 ''demo'' ''Demo'')\<lparr>Tasks := fmap_of_list
     [(''a'', plain_task ''a'' []), (''b'', plain_task ''b'' [''a''])],
     Edges := fmap_of_list [(''a'', [''b''])]\<rparr>"

end
