(* ===== verification/Dag_Order.thy ===== *)
theory Dag_Order
  imports Dag_Model
begin

text \<open>
  \<open>TopologicalSort\<close> and \<open>GetRoots\<close> of \<^verbatim>\<open>pkg/dag/dag.go\<close>: Kahn's algorithm over the edge lists,
  with its in-place sorting of the lists it reads, and the proof that it returns a
  topological order of the tasks exactly for the acyclic graphs.
\<close>

section \<open>In-degrees\<close>

definition geti :: "(string, int) fmap \<Rightarrow> string \<Rightarrow> int" where
  "geti m k = (case fmlookup m k of None \<Rightarrow> 0 | Some n \<Rightarrow> n)"

definition incr :: "string \<Rightarrow> (string, int) fmap \<Rightarrow> (string, int) fmap" where
  "incr k m = fmupd k (geti m k + 1) m"

definition decr :: "string \<Rightarrow> (string, int) fmap \<Rightarrow> (string, int) fmap" where
  "decr k m = fmupd k (geti m k - 1) m"

text \<open>
  The map \<^verbatim>\<open>inDegree\<close>: zero for every task, then one more for every occurrence in an edge
  list. \<open>ot\<close> and \<open>oe\<close> are the orders in which the tasks and the edges are visited.
\<close>

definition in_degrees :: "string list \<Rightarrow> string list \<Rightarrow> dag \<Rightarrow> (string, int) fmap" where
  "in_degrees ot oe d =
     fold (\<lambda>f m. fold incr (getl (Edges d) f) m) oe (fold (\<lambda>i m. fmupd i 0 m) ot fmempty)"

text \<open>The orders of the range loops over \<^verbatim>\<open>d.Tasks\<close>, \<^verbatim>\<open>d.Edges\<close> and \<^verbatim>\<open>inDegree\<close>.\<close>

definition visit_orders :: "string list \<Rightarrow> string list \<Rightarrow> string list \<Rightarrow> dag \<Rightarrow> bool" where
  "visit_orders ot oe od d \<longleftrightarrow>
     ranges ot (Tasks d) \<and> ranges oe (Edges d) \<and> ranges od (in_degrees ot oe d)"

section \<open>Kahn's algorithm\<close>

record kahn =
  k_queue :: "string list"
  k_deg :: "(string, int) fmap"
  k_edges :: edges
  k_ordered :: "task option list"

text \<open>The inner loop over the targets of the current task.\<close>

fun relax :: "string list \<Rightarrow> (string, int) fmap \<times> string list \<Rightarrow> (string, int) fmap \<times> string list" where
  "relax [] (deg, q) = (deg, q)"
| "relax (n # ns) (deg, q) =
     (let deg' = decr n deg in relax ns (deg', if geti deg' n = 0 then q @ [n] else q))"

text \<open>
  One turn of the outer loop. \<^verbatim>\<open>sort.Strings(targets)\<close> sorts the slice that \<^verbatim>\<open>d.Edges[current]\<close>
  holds, so the edge list of the DAG is sorted in place.
\<close>

definition kahn_step :: "tasks \<Rightarrow> kahn \<Rightarrow> kahn" where
  "kahn_step ts st =
     (case k_queue st of [] \<Rightarrow> st
      | cur # q \<Rightarrow>
          let targets = sort (getl (k_edges st) cur);
              (deg, q') = relax targets (k_deg st, q)
          in \<lparr>k_queue = q', k_deg = deg,
              k_edges = (if fmlookup (k_edges st) cur = None then k_edges st
                         else fmupd cur targets (k_edges st)),
              k_ordered = k_ordered st @ [fmlookup ts cur]\<rparr>)"

fun kahn_loop :: "tasks \<Rightarrow> nat \<Rightarrow> kahn \<Rightarrow> kahn option" where
  "kahn_loop ts fuel st =
     (if k_queue st = [] then Some st
      else case fuel of 0 \<Rightarrow> None | Suc n \<Rightarrow> kahn_loop ts n (kahn_step ts st))"

definition kahn_start :: "string list \<Rightarrow> string list \<Rightarrow> string list \<Rightarrow> dag \<Rightarrow> kahn" where
  "kahn_start ot oe od d =
     (let deg = in_degrees ot oe d in
      \<lparr>k_queue = sort (filter (\<lambda>i. geti deg i = 0) od), k_deg = deg,
       k_edges = Edges d, k_ordered = []\<rparr>)"

definition TopologicalSort ::
  "string list \<Rightarrow> string list \<Rightarrow> string list \<Rightarrow> dag \<Rightarrow> (dag \<times> (err + task option list)) outcome" where
  "TopologicalSort ot oe od d =
     (case kahn_loop (Tasks d) (map_len (in_degrees ot oe d)) (kahn_start ot oe od d) of
        None \<Rightarrow> Diverge
      | Some st \<Rightarrow>
          Ret (d\<lparr>Edges := k_edges st\<rparr>,
            if length (k_ordered st) \<noteq> map_len (Tasks d)
            then Inl (Err ''DAG contains a cycle: topological sort found %d of %d tasks''
                       [FInt (int (length (k_ordered st))), FInt (int (map_len (Tasks d)))])
            else Inr (k_ordered st)))"

section \<open>GetRoots\<close>

text \<open>
  The tasks of in-degree zero, sorted by \<^verbatim>\<open>ID\<close>. A node of in-degree zero is a task (the
  others are edge targets), so no nil is dereferenced by the comparison.
\<close>

definition GetRoots :: "string list \<Rightarrow> string list \<Rightarrow> string list \<Rightarrow> dag \<Rightarrow> task list" where
  "GetRoots ot oe od d =
     (let deg = in_degrees ot oe d in
      sort_key task_ID
        (List.map_filter (\<lambda>i. fmlookup (Tasks d) i) (filter (\<lambda>i. geti deg i = 0) od)))"

declare kahn_loop.simps [simp del]

section \<open>In-degrees count edges\<close>

lemma geti_incr [go_simps]: "geti (incr k m) x = geti m x + (if x = k then 1 else 0)"
  by (simp add: incr_def geti_def)

lemma geti_decr [go_simps]: "geti (decr k m) x = geti m x - (if x = k then 1 else 0)"
  by (simp add: decr_def geti_def)

lemma geti_fold_incr: "geti (fold incr xs m) x = geti m x + int (count_list xs x)"
  by (induction xs arbitrary: m) (auto simp: go_simps)

lemma fmdom'_fold_incr: "fmdom' (fold incr xs m) = set xs \<union> fmdom' m"
  by (induction xs arbitrary: m) (auto simp: incr_def)

lemma geti_zeros: "geti m x = 0 \<Longrightarrow> geti (fold (\<lambda>i m. fmupd i 0 m) ot m) x = 0"
  by (induction ot arbitrary: m) (auto simp: geti_def)

lemma fmdom'_zeros: "fmdom' (fold (\<lambda>i m. fmupd i 0 m) ot m) = set ot \<union> fmdom' m"
  by (induction ot arbitrary: m) auto

lemma geti_fold_targets:
  "geti (fold (\<lambda>f m. fold incr (getl es f) m) oe m) x =
     geti m x + int (\<Sum>f\<leftarrow>oe. count_list (getl es f) x)"
  by (induction oe arbitrary: m) (simp_all add: geti_fold_incr)

lemma fmdom'_fold_targets:
  "fmdom' (fold (\<lambda>f m. fold incr (getl es f) m) oe m) =
     (\<Union>f \<in> set oe. set (getl es f)) \<union> fmdom' m"
  by (induction oe arbitrary: m) (auto simp: fmdom'_fold_incr)

text \<open>How many edges reach \<open>x\<close> from the sources in \<open>S\<close>, counted with multiplicity.\<close>

definition edges_into :: "edges \<Rightarrow> string set \<Rightarrow> string \<Rightarrow> nat" where
  "edges_into es S x = (\<Sum>u\<in>S. count_list (getl es u) x)"

lemma edges_into_zero_iff:
  "finite S \<Longrightarrow> edges_into es S x = 0 \<longleftrightarrow> (\<forall>u\<in>S. x \<notin> set (getl es u))"
  by (simp add: edges_into_def count_list_0_iff)

definition nodes :: "dag \<Rightarrow> string set" where
  "nodes d = fmdom' (Tasks d) \<union> (\<Union>u \<in> fmdom' (Edges d). set (getl (Edges d) u))"

lemma geti_in_degrees:
  assumes "ranges oe (Edges d)"
  shows "geti (in_degrees ot oe d) x = int (edges_into (Edges d) (fmdom' (Edges d)) x)"
proof -
  have "(\<Sum>f\<leftarrow>oe. count_list (getl (Edges d) f) x) = edges_into (Edges d) (fmdom' (Edges d)) x"
    using assms by (simp add: edges_into_def ranges_def sum_list_distinct_conv_sum_set)
  moreover have "geti (fold (\<lambda>i m. fmupd i 0 m) ot fmempty) x = 0"
    by (rule geti_zeros) (simp add: geti_def)
  ultimately show ?thesis
    by (simp add: in_degrees_def geti_fold_targets)
qed

lemma fmdom'_in_degrees:
  "ranges ot (Tasks d) \<Longrightarrow> ranges oe (Edges d) \<Longrightarrow> fmdom' (in_degrees ot oe d) = nodes d"
  by (auto simp: in_degrees_def fmdom'_fold_targets fmdom'_zeros ranges_def nodes_def)

lemma fmlookup_geti: "fmlookup m x = (if x \<in> fmdom' m then Some (geti m x) else None)"
  by (auto simp: geti_def fmlookup_dom'_iff split: option.splits)

lemma in_degrees_unique:
  assumes "ranges ot (Tasks d)" "ranges oe (Edges d)" "ranges ot' (Tasks d)" "ranges oe' (Edges d)"
  shows "in_degrees ot oe d = in_degrees ot' oe' d"
proof (rule fmap_ext)
  fix x
  show "fmlookup (in_degrees ot oe d) x = fmlookup (in_degrees ot' oe' d) x"
    unfolding fmlookup_geti [of "in_degrees ot oe d"] fmlookup_geti [of "in_degrees ot' oe' d"]
      geti_in_degrees [OF assms(2)] geti_in_degrees [OF assms(4)]
      fmdom'_in_degrees [OF assms(1,2)] fmdom'_in_degrees [OF assms(3,4)] ..
qed

lemma finite_nodes [simp]: "finite (nodes d)"
  by (simp add: nodes_def)

lemma nodes_closed: "edges_closed (Tasks d) (Edges d) \<Longrightarrow> nodes d = fmdom' (Tasks d)"
  by (auto simp: nodes_def dest: edges_closedD)

section \<open>One turn of the loop\<close>

text \<open>
  The inner loop lowers each in-degree by the number of times the node is a target, and
  appends the nodes that reach zero, once each, when no in-degree goes below zero.
\<close>

lemma geti_relax: "geti (fst (relax ns (deg, q))) x = geti deg x - int (count_list ns x)"
  by (induction ns arbitrary: deg q) (simp_all add: Let_def go_simps)

lemma counted_down:
  assumes "\<And>x. int (count_list (n # ns) x) \<le> geti deg x"
  shows "{x \<in> set (n # ns). geti deg x = int (count_list (n # ns) x)} =
    (if geti deg n = 1 then {n} else {}) \<union> {x \<in> set ns. geti (decr n deg) x = int (count_list ns x)}"
proof (rule set_eqI)
  fix x
  have "x \<in> set ns \<longleftrightarrow> 0 < count_list ns x" using count_list_0_iff [of ns x] by auto
  then show "x \<in> {x \<in> set (n # ns). geti deg x = int (count_list (n # ns) x)} \<longleftrightarrow>
      x \<in> (if geti deg n = 1 then {n} else {}) \<union> {x \<in> set ns. geti (decr n deg) x = int (count_list ns x)}"
    using assms [of x] by (cases "x = n") (auto simp: geti_decr)
qed

lemma relax_queue:
  assumes "\<And>x. int (count_list ns x) \<le> geti deg x"
  shows "\<exists>new. snd (relax ns (deg, q)) = q @ new \<and> distinct new \<and>
           set new = {x \<in> set ns. geti deg x = int (count_list ns x)}"
  using assms
proof (induction ns arbitrary: deg q)
  case (Cons n ns)
  let ?deg = "decr n deg"
  let ?q = "if geti ?deg n = 0 then q @ [n] else q"
  have "int (count_list ns x) \<le> geti ?deg x" for x
    using Cons.prems [of x] by (auto simp: go_simps)
  from Cons.IH [OF this, of ?q] obtain new where
    new: "snd (relax ns (?deg, ?q)) = ?q @ new" "distinct new"
         "set new = {x \<in> set ns. geti ?deg x = int (count_list ns x)}" by blast
  show ?case
  proof (cases "geti deg n = 1")
    case True
    then have "n \<notin> set new" using Cons.prems [of n] new(3) count_list_0_iff [of ns n] by (auto simp: geti_decr)
    then show ?thesis
      using True new counted_down [OF Cons.prems] by (intro exI [of _ "n # new"]) (simp add: Let_def geti_decr)
  next
    case False
    then show ?thesis
      using new counted_down [OF Cons.prems] by (intro exI [of _ new]) (simp add: Let_def geti_decr)
  qed
qed simp

section \<open>The invariant of Kahn's algorithm\<close>

text \<open>
  \<open>P\<close> lists the nodes taken off the queue so far. The in-degree of a node counts its edges
  from the nodes not yet taken; the nodes of in-degree zero are those taken or queued; the edge
  lists are permuted only; and every node taken had all its predecessors taken before it.
\<close>

definition predecessors_first :: "(string \<times> string) set \<Rightarrow> string list \<Rightarrow> bool" where
  "predecessors_first E P \<longleftrightarrow>
     (\<forall>i < length P. \<forall>u. (u, P ! i) \<in> E \<longrightarrow> u \<in> set (take i P))"

definition kahn_inv :: "dag \<Rightarrow> string list \<Rightarrow> kahn \<Rightarrow> bool" where
  "kahn_inv d P st \<longleftrightarrow>
     distinct (P @ k_queue st) \<and> set (P @ k_queue st) \<subseteq> nodes d \<and>
     (\<forall>x. geti (k_deg st) x = int (edges_into (Edges d) (fmdom' (Edges d) - set P) x)) \<and>
     (\<forall>x \<in> nodes d. geti (k_deg st) x = 0 \<longleftrightarrow> x \<in> set (P @ k_queue st)) \<and>
     k_ordered st = map (fmlookup (Tasks d)) P \<and>
     (\<forall>u. mset (getl (k_edges st) u) = mset (getl (Edges d) u)) \<and>
     fmdom' (k_edges st) = fmdom' (Edges d) \<and>
     predecessors_first (edge_rel (Edges d)) P"

lemma predecessors_first_snoc:
  "predecessors_first E (P @ [x]) \<longleftrightarrow> predecessors_first E P \<and> (\<forall>u. (u, x) \<in> E \<longrightarrow> u \<in> set P)"
  by (auto simp: predecessors_first_def nth_append less_Suc_eq)

lemma edges_into_remove:
  assumes "cur \<in> fmdom' es - S \<or> getl es cur = []" and "cur \<notin> S"
  shows "edges_into es (fmdom' es - S) x =
           count_list (getl es cur) x + edges_into es (fmdom' es - insert cur S) x"
proof (cases "cur \<in> fmdom' es")
  case True
  let ?R = "fmdom' es - insert cur S"
  from True assms(2) have "fmdom' es - S = insert cur ?R" by auto
  moreover have "(\<Sum>u\<in>insert cur ?R. count_list (getl es u) x) =
      count_list (getl es cur) x + (\<Sum>u\<in>?R. count_list (getl es u) x)"
    by (rule sum.insert) auto
  ultimately show ?thesis by (simp only: edges_into_def)
next
  case False
  then have "fmdom' es - S = fmdom' es - insert cur S" by auto
  with False show ?thesis by (simp add: getl_notin)
qed

lemma count_list_mset: "count_list xs x = count (mset xs) x"
  by (induction xs) auto

lemma kahn_inv_start:
  assumes "visit_orders ot oe od d"
  shows "kahn_inv d [] (kahn_start ot oe od d)"
proof -
  let ?deg = "in_degrees ot oe d"
  have od: "distinct od" "set od = nodes d" and oe: "ranges oe (Edges d)"
    using assms fmdom'_in_degrees by (auto simp: visit_orders_def ranges_def)
  then show ?thesis
    by (auto simp: kahn_inv_def kahn_start_def Let_def geti_in_degrees predecessors_first_def)
qed

text \<open>Taking the edges of one more node away, in any order.\<close>

lemma kahn_relax:
  assumes inv: "kahn_inv d P st" and q: "k_queue st = cur # q"
  obtains new where "snd (relax (sort (getl (k_edges st) cur)) (k_deg st, q)) = q @ new" "distinct new"
    "set new \<inter> set (P @ cur # q) = {}" "set new \<subseteq> nodes d"
    "\<forall>x. geti (fst (relax (sort (getl (k_edges st) cur)) (k_deg st, q))) x =
      int (edges_into (Edges d) (fmdom' (Edges d) - set (P @ [cur])) x)"
    "\<forall>x \<in> nodes d. geti (fst (relax (sort (getl (k_edges st) cur)) (k_deg st, q))) x = 0 \<longleftrightarrow>
      x \<in> set (P @ cur # q @ new)"
proof -
  let ?es = "Edges d" and ?D = "fmdom' (Edges d)" and ?ts = "sort (getl (k_edges st) cur)"
  let ?r = "relax ?ts (k_deg st, q)"
  have dist: "distinct (P @ cur # q)"
    and deg: "\<And>x. geti (k_deg st) x = int (edges_into ?es (?D - set P) x)"
    and zero: "\<And>x. x \<in> nodes d \<Longrightarrow> geti (k_deg st) x = 0 \<longleftrightarrow> x \<in> set (P @ cur # q)"
    and perm: "\<And>u. mset (getl (k_edges st) u) = mset (getl ?es u)"
    using inv q by (auto simp: kahn_inv_def)
  have cnt: "count_list ?ts x = count_list (getl ?es cur) x" for x
    by (simp add: count_list_mset perm)
  have split: "edges_into ?es (?D - set P) x =
      count_list (getl ?es cur) x + edges_into ?es (?D - insert cur (set P)) x" for x
    using dist by (intro edges_into_remove) (auto simp: getl_notin)
  have low: "int (count_list ?ts x) \<le> geti (k_deg st) x" for x
    unfolding deg cnt by (simp add: split)
  obtain new where new: "snd ?r = q @ new" "distinct new"
      "set new = {x \<in> set ?ts. geti (k_deg st) x = int (count_list ?ts x)}"
    using relax_queue [OF low] by blast
  have deg': "geti (fst ?r) x = int (edges_into ?es (?D - set (P @ [cur])) x)" for x
    unfolding geti_relax deg cnt by (simp add: split)
  have "set ?ts = set (getl ?es cur)" using perm [of cur] by (metis set_mset_mset set_sort)
  then have new_pos: "geti (k_deg st) x \<noteq> 0 \<and> x \<in> nodes d" if "x \<in> set new" for x
    using that new(3) count_list_0_iff [of ?ts x] getl_nonempty_dom [of x ?es cur] by (auto simp: nodes_def)
  then have fresh: "set new \<inter> set (P @ cur # q) = {}" "set new \<subseteq> nodes d" using zero by blast+
  have "geti (fst ?r) x = 0 \<longleftrightarrow> x \<in> set (P @ cur # q @ new)" if x: "x \<in> nodes d" for x
  proof -
    have "geti (fst ?r) x = 0 \<longleftrightarrow> geti (k_deg st) x = int (count_list ?ts x)"
      by (simp add: geti_relax)
    also have "\<dots> \<longleftrightarrow> x \<in> set new \<or> geti (k_deg st) x = 0"
      using new(3) low [of x] count_list_0_iff [of ?ts x] by (cases "x \<in> set ?ts") auto
    finally show ?thesis using zero [OF x] by auto
  qed
  with deg' that [OF new(1,2) fresh] show ?thesis by blast
qed

text \<open>A turn of the loop moves the head of the queue to the end of \<open>P\<close>.\<close>

lemma kahn_inv_step:
  assumes inv: "kahn_inv d P st" and q: "k_queue st = cur # q"
  shows "kahn_inv d (P @ [cur]) (kahn_step (Tasks d) st)"
proof -
  let ?ts = "sort (getl (k_edges st) cur)"
  let ?r = "relax ?ts (k_deg st, q)"
  obtain new where new: "snd ?r = q @ new" "distinct new" "set new \<inter> set (P @ cur # q) = {}" "set new \<subseteq> nodes d"
      "\<forall>x. geti (fst ?r) x = int (edges_into (Edges d) (fmdom' (Edges d) - set (P @ [cur])) x)"
      "\<forall>x \<in> nodes d. geti (fst ?r) x = 0 \<longleftrightarrow> x \<in> set (P @ cur # q @ new)"
    by (rule kahn_relax [OF inv q])
  have step: "k_queue (kahn_step (Tasks d) st) = q @ new"
    "k_deg (kahn_step (Tasks d) st) = fst ?r"
    "k_ordered (kahn_step (Tasks d) st) = k_ordered st @ [fmlookup (Tasks d) cur]"
    "k_edges (kahn_step (Tasks d) st) =
       (if fmlookup (k_edges st) cur = None then k_edges st else fmupd cur ?ts (k_edges st))"
    using new(1) by (cases ?r; simp add: kahn_step_def q Let_def)+
  have "edges_into (Edges d) (fmdom' (Edges d) - set P) cur = 0"
    using inv q by (force simp: kahn_inv_def)
  then have pred: "u \<in> set P" if "cur \<in> set (getl (Edges d) u)" for u
    using that getl_nonempty_dom [OF that] edges_into_zero_iff [of _ "Edges d" cur] by auto
  have "distinct ((P @ [cur]) @ (q @ new))" "set ((P @ [cur]) @ (q @ new)) \<subseteq> nodes d"
    using inv q new(2-4) by (auto simp: kahn_inv_def)
  moreover have "predecessors_first (edge_rel (Edges d)) P" "fmdom' (k_edges st) = fmdom' (Edges d)"
    "k_ordered st = map (fmlookup (Tasks d)) P" "\<And>u. mset (getl (k_edges st) u) = mset (getl (Edges d) u)"
    using inv by (simp_all add: kahn_inv_def)
  ultimately show ?thesis
    using new(5,6) pred
    by (auto simp: kahn_inv_def step predecessors_first_snoc go_simps fmlookup_dom'_iff)
qed

section \<open>The loop ends, and what it has found\<close>

lemma kahn_loop_ends:
  assumes "kahn_inv d P st" and "card (nodes d) \<le> length P + fuel"
  shows "\<exists>st' P'. kahn_loop (Tasks d) fuel st = Some st' \<and> kahn_inv d P' st' \<and> k_queue st' = []"
  using assms
proof (induction fuel arbitrary: P st)
  case 0
  have "length (P @ k_queue st) \<le> card (nodes d)"
    using "0.prems"(1) by (metis (no_types, lifting) kahn_inv_def card_mono distinct_card finite_nodes)
  then have "length (k_queue st) = 0" using "0.prems"(2) by (metis add_le_same_cancel1 le_trans le_zero_eq length_append)
  with "0.prems"(1) show ?case
    by (subst kahn_loop.simps) auto
next
  case (Suc fuel)
  show ?case
  proof (cases "k_queue st")
    case Nil
    with Suc.prems show ?thesis by (subst kahn_loop.simps) auto
  next
    case (Cons cur q)
    have "kahn_inv d (P @ [cur]) (kahn_step (Tasks d) st)"
      using Suc.prems(1) Cons by (rule kahn_inv_step)
    moreover have "card (nodes d) \<le> length (P @ [cur]) + fuel"
      using Suc.prems(2) by simp
    ultimately show ?thesis
      using Suc.IH Cons by (subst kahn_loop.simps) auto
  qed
qed

lemma kahn_finishes:
  assumes "visit_orders ot oe od d"
  shows "\<exists>st P. kahn_loop (Tasks d) (map_len (in_degrees ot oe d)) (kahn_start ot oe od d) = Some st \<and>
           kahn_inv d P st \<and> k_queue st = []"
proof -
  have "map_len (in_degrees ot oe d) = card (nodes d)"
    using assms fmdom'_in_degrees [of ot d oe]
    by (simp add: visit_orders_def map_len_def fcard.rep_eq fmdom'_alt_def)
  then show ?thesis
    using kahn_loop_ends [OF kahn_inv_start [OF assms]] by simp
qed

text \<open>When the queue is empty, the nodes left over each have a predecessor that is left over.\<close>

lemma kahn_left_over:
  assumes "kahn_inv d P st" "k_queue st = []" "x \<in> nodes d - set P"
  shows "\<exists>u \<in> fmdom' (Edges d) - set P. (u, x) \<in> edge_rel (Edges d)"
proof -
  have "edges_into (Edges d) (fmdom' (Edges d) - set P) x \<noteq> 0"
    using assms by (auto simp: kahn_inv_def)
  then show ?thesis using edges_into_zero_iff [of "fmdom' (Edges d) - set P" "Edges d" x] by auto
qed

lemma acyclic_minimal:
  assumes "finite E" "acyclic E" "R \<noteq> {}"
  shows "\<exists>x\<in>R. \<forall>u\<in>R. (u, x) \<notin> E"
  using assms wfE_min [OF finite_acyclic_wf [OF assms(1,2)]] by (metis ex_in_conv)

lemma kahn_all_taken:
  assumes "kahn_inv d P st" "k_queue st = []" "edges_closed (Tasks d) (Edges d)"
    and "acyclic (edge_rel (Edges d))"
  shows "set P = fmdom' (Tasks d)"
proof (rule ccontr)
  have sub: "set P \<subseteq> fmdom' (Tasks d)"
    using assms(1,3) by (auto simp: kahn_inv_def nodes_closed)
  assume "set P \<noteq> fmdom' (Tasks d)"
  with sub have "fmdom' (Tasks d) - set P \<noteq> {}" by auto
  from acyclic_minimal [OF finite_edge_rel assms(4) this]
  obtain x where x: "x \<in> fmdom' (Tasks d) - set P"
    and min: "\<And>u. u \<in> fmdom' (Tasks d) - set P \<Longrightarrow> (u, x) \<notin> edge_rel (Edges d)" by blast
  obtain u where "u \<in> fmdom' (Edges d) - set P" "(u, x) \<in> edge_rel (Edges d)"
    using kahn_left_over [OF assms(1,2), of x] x nodes_closed [OF assms(3)] by auto
  then show False
    using min [of u] assms(3) by (auto simp: edges_closed_iff)
qed

text \<open>A list in which predecessors come first proves the graph acyclic on its elements.\<close>

lemma predecessors_first_trancl:
  assumes "predecessors_first E P" "(u, v) \<in> E\<^sup>+" "i < length P" "P ! i = v"
  shows "u \<in> set (take i P)"
  using assms(2-)
proof (induction arbitrary: i rule: trancl_induct)
  case (base v)
  with assms(1) show ?case by (auto simp: predecessors_first_def)
next
  case (step v w)
  have "v \<in> set (take i P)"
    using assms(1) step by (auto simp: predecessors_first_def)
  then obtain j where j: "j < i" "P ! j = v"
    by (auto simp: in_set_conv_nth)
  with step have "u \<in> set (take j P)" by auto
  then show ?case
    using j(1) by (meson set_take_subset_set_take less_imp_le_nat subsetD)
qed

lemma predecessors_first_acyclic:
  assumes "predecessors_first E P" "distinct P" "Range E \<subseteq> set P"
  shows "acyclic E"
  unfolding acyclic_def
proof (intro allI notI)
  fix x assume x: "(x, x) \<in> E\<^sup>+"
  then have "x \<in> set P" using assms(3) by (metis Range.intros trancl_range subsetD)
  then obtain i where i: "i < length P" "P ! i = x" by (auto simp: in_set_conv_nth)
  then have "x \<in> set (take i P)" using predecessors_first_trancl [OF assms(1) x] by blast
  then show False
    using i assms(2) by (auto simp: in_set_conv_nth nth_eq_iff_index_eq)
qed

section \<open>Properties of TopologicalSort\<close>

lemma kahn_taken_length:
  assumes "kahn_inv d P st" and "edges_closed (Tasks d) (Edges d)"
  shows "length (k_ordered st) = map_len (Tasks d) \<longleftrightarrow> set P = fmdom' (Tasks d)"
proof -
  have P: "distinct P" "set P \<subseteq> fmdom' (Tasks d)" "length (k_ordered st) = length P"
    using assms by (auto simp: kahn_inv_def nodes_closed)
  then have "length P = card (set P)" by (simp add: distinct_card)
  moreover have "map_len (Tasks d) = card (fmdom' (Tasks d))"
    by (simp add: map_len_def fcard.rep_eq fmdom'_alt_def)
  ultimately show ?thesis
    using P card_subset_eq [of "fmdom' (Tasks d)" "set P"] by auto
qed

lemma TopologicalSort_cases:
  assumes "visit_orders ot oe od d"
  obtains st P where "kahn_inv d P st" "k_queue st = []"
    "TopologicalSort ot oe od d =
       Ret (d\<lparr>Edges := k_edges st\<rparr>,
         if length (k_ordered st) \<noteq> map_len (Tasks d)
         then Inl (Err ''DAG contains a cycle: topological sort found %d of %d tasks''
                    [FInt (int (length (k_ordered st))), FInt (int (map_len (Tasks d)))])
         else Inr (k_ordered st))"
  using kahn_finishes [OF assms] that by (auto simp: TopologicalSort_def)

text \<open>
  C31. \<open>TopologicalSort\<close> always returns: for every DAG, whatever its edge lists hold and
  whatever order the maps are visited in, the loop over the queue ends (within one turn per node),
  and all it changes in the DAG is the order inside the edge lists.
\<close>

theorem TopologicalSort_terminates:
  assumes "visit_orders ot oe od d"
  shows "\<exists>es r. TopologicalSort ot oe od d = Ret (d\<lparr>Edges := es\<rparr>, r) \<and>
           fmdom' es = fmdom' (Edges d) \<and> (\<forall>u. mset (getl es u) = mset (getl (Edges d) u))"
  using assms by (rule TopologicalSort_cases) (auto simp: kahn_inv_def)

lemma TopologicalSort_order:
  assumes "visit_orders ot oe od d" and "wf_dag d"
    and "TopologicalSort ot oe od d = Ret (d', Inr xs)"
  shows "\<exists>ids. xs = map (fmlookup (Tasks d)) ids \<and> distinct ids \<and> set ids = fmdom' (Tasks d) \<and>
           predecessors_first (edge_rel (Edges d)) ids"
  using assms(1)
proof (rule TopologicalSort_cases)
  fix st P
  assume inv: "kahn_inv d P st"
    and res: "TopologicalSort ot oe od d =
       Ret (d\<lparr>Edges := k_edges st\<rparr>,
         if length (k_ordered st) \<noteq> map_len (Tasks d)
         then Inl (Err ''DAG contains a cycle: topological sort found %d of %d tasks''
                    [FInt (int (length (k_ordered st))), FInt (int (map_len (Tasks d)))])
         else Inr (k_ordered st))"
  with assms(3) have "xs = k_ordered st" "length (k_ordered st) = map_len (Tasks d)"
    by (auto split: if_splits)
  then show ?thesis
    using inv kahn_taken_length [OF inv wf_dag_closed [OF assms(2)]] by (auto simp: kahn_inv_def)
qed

text \<open>
  C22. What \<open>TopologicalSort\<close> returns is a topological order: the tasks of the DAG, each
  exactly once and none of them nil, every task after all the tasks it has an edge from.
\<close>

theorem TopologicalSort_sound:
  assumes "visit_orders ot oe od d" and "wf_dag d"
    and "TopologicalSort ot oe od d = Ret (d', Inr xs)"
  shows "\<exists>ids. xs = map (fmlookup (Tasks d)) ids \<and> distinct ids \<and> set ids = fmdom' (Tasks d) \<and>
           predecessors_first (edge_rel (Edges d)) ids"
  using assms by (rule TopologicalSort_order)

lemma TopologicalSort_frame:
  assumes "visit_orders ot oe od d" and "TopologicalSort ot oe od d = Ret (d', r)"
  shows "\<exists>es. d' = d\<lparr>Edges := es\<rparr>"
  using assms(1) by (rule TopologicalSort_cases) (use assms(2) in auto)

lemma TopologicalSort_acyclic:
  assumes "visit_orders ot oe od d" and "wf_dag d"
  shows "(\<exists>d' xs. TopologicalSort ot oe od d = Ret (d', Inr xs)) \<longleftrightarrow> acyclic (edge_rel (Edges d))"
  using assms(1)
proof (rule TopologicalSort_cases)
  fix st P
  assume inv: "kahn_inv d P st" and stop: "k_queue st = []"
    and res: "TopologicalSort ot oe od d =
       Ret (d\<lparr>Edges := k_edges st\<rparr>,
         if length (k_ordered st) \<noteq> map_len (Tasks d)
         then Inl (Err ''DAG contains a cycle: topological sort found %d of %d tasks''
                    [FInt (int (length (k_ordered st))), FInt (int (map_len (Tasks d)))])
         else Inr (k_ordered st))"
  note closed = wf_dag_closed [OF assms(2)]
  have "set P = fmdom' (Tasks d) \<longleftrightarrow> acyclic (edge_rel (Edges d))"
  proof
    assume P: "set P = fmdom' (Tasks d)"
    have "Range (edge_rel (Edges d)) \<subseteq> set P"
      using closed unfolding P by (auto simp: edges_closed_iff)
    then show "acyclic (edge_rel (Edges d))"
      using inv predecessors_first_acyclic by (auto simp: kahn_inv_def)
  qed (rule kahn_all_taken [OF inv stop closed])
  then show ?thesis
    using res kahn_taken_length [OF inv closed] by simp
qed

text \<open>
  C3. On a well-formed DAG \<open>TopologicalSort\<close> succeeds if and only if the graph has no cycle.
\<close>

theorem TopologicalSort_ok_iff_acyclic:
  assumes "visit_orders ot oe od d" and "wf_dag d"
  shows "(\<exists>d' xs. TopologicalSort ot oe od d = Ret (d', Inr xs)) \<longleftrightarrow> acyclic (edge_rel (Edges d))"
  using assms by (rule TopologicalSort_acyclic)

section \<open>The order found does not depend on the visiting orders\<close>

text \<open>Two runs that agree but for the order inside the edge lists stay in lockstep.\<close>

definition kahn_sim :: "kahn \<Rightarrow> kahn \<Rightarrow> bool" where
  "kahn_sim s t \<longleftrightarrow> k_queue s = k_queue t \<and> k_deg s = k_deg t \<and> k_ordered s = k_ordered t \<and>
     (\<forall>u. mset (getl (k_edges s) u) = mset (getl (k_edges t) u))"

lemma sort_mset_eq: "mset xs = mset ys \<Longrightarrow> sort xs = sort ys" for xs ys :: "'a::linorder list"
  by (metis mset_sort properties_for_sort sorted_sort)

lemma kahn_step_Cons:
  assumes "k_queue st = cur # q"
  shows "k_queue (kahn_step ts st) = snd (relax (sort (getl (k_edges st) cur)) (k_deg st, q))"
    and "k_deg (kahn_step ts st) = fst (relax (sort (getl (k_edges st) cur)) (k_deg st, q))"
    and "k_ordered (kahn_step ts st) = k_ordered st @ [fmlookup ts cur]"
  using assms
  by (cases "relax (sort (getl (k_edges st) cur)) (k_deg st, q)"; simp add: kahn_step_def Let_def)+

lemma kahn_step_edges: "mset (getl (k_edges (kahn_step ts st)) u) = mset (getl (k_edges st) u)"
proof (cases "k_queue st")
  case (Cons cur q)
  then show ?thesis
    by (cases "relax (sort (getl (k_edges st) cur)) (k_deg st, q)")
       (simp add: kahn_step_def Let_def go_simps)
qed (simp add: kahn_step_def)

lemma kahn_sim_step:
  assumes "kahn_sim s t"
  shows "kahn_sim (kahn_step ts s) (kahn_step ts t)"
proof (cases "k_queue s")
  case Nil
  with assms show ?thesis by (simp add: kahn_step_def kahn_sim_def)
next
  case (Cons cur q)
  have "sort (getl (k_edges s) cur) = sort (getl (k_edges t) cur)"
    using assms by (intro sort_mset_eq) (simp add: kahn_sim_def)
  moreover from Cons assms have "k_queue t = cur # q" by (simp add: kahn_sim_def)
  ultimately show ?thesis
    using assms Cons by (simp add: kahn_sim_def kahn_step_Cons kahn_step_edges)
qed

lemma kahn_sim_loop:
  "kahn_sim s t \<Longrightarrow> rel_option kahn_sim (kahn_loop ts fuel s) (kahn_loop ts fuel t)"
proof (induction fuel arbitrary: s t)
  case 0
  then show ?case
    by (subst (1 2) kahn_loop.simps) (simp add: kahn_sim_def)
next
  case (Suc fuel)
  have "rel_option kahn_sim (kahn_loop ts fuel (kahn_step ts s)) (kahn_loop ts fuel (kahn_step ts t))"
    by (rule Suc.IH [OF kahn_sim_step [OF Suc.prems]])
  with Suc.prems show ?case
    by (subst (1 2) kahn_loop.simps) (simp add: kahn_sim_def)
qed

lemma edges_into_cong:
  assumes "\<And>u. mset (getl es u) = mset (getl es' u)"
  shows "edges_into es (fmdom' es) x = edges_into es' (fmdom' es') x"
proof -
  have "edges_into es (fmdom' es) x = edges_into es (fmdom' es \<union> fmdom' es') x"
    unfolding edges_into_def by (rule sum.mono_neutral_left) (auto simp: getl_notin)
  also have "\<dots> = edges_into es' (fmdom' es \<union> fmdom' es') x"
    by (simp add: edges_into_def count_list_mset assms)
  also have "\<dots> = edges_into es' (fmdom' es') x"
    unfolding edges_into_def by (rule sum.mono_neutral_right) (auto simp: getl_notin)
  finally show ?thesis .
qed

lemma nodes_cong:
  assumes "Tasks d = Tasks d'" "\<And>u. mset (getl (Edges d) u) = mset (getl (Edges d') u)"
  shows "nodes d = nodes d'"
proof -
  have "nodes d = fmdom' (Tasks d) \<union> (\<Union>u. set (getl (Edges d) u))" for d
    by (auto simp: nodes_def intro: getl_nonempty_dom)
  moreover have "set (getl (Edges d) u) = set (getl (Edges d') u)" for u
    by (rule mset_eq_setD [OF assms(2)])
  ultimately show ?thesis by (simp add: assms(1))
qed

lemma in_degrees_cong:
  assumes "visit_orders ot oe od d" "visit_orders ot' oe' od' d'"
    and "Tasks d = Tasks d'" "\<And>u. mset (getl (Edges d) u) = mset (getl (Edges d') u)"
  shows "in_degrees ot oe d = in_degrees ot' oe' d'"
proof (rule fmap_ext)
  fix x
  have o: "ranges ot (Tasks d)" "ranges oe (Edges d)" "ranges ot' (Tasks d')" "ranges oe' (Edges d')"
    using assms(1,2) by (auto simp: visit_orders_def)
  show "fmlookup (in_degrees ot oe d) x = fmlookup (in_degrees ot' oe' d') x"
    unfolding fmlookup_geti [of "in_degrees ot oe d"] fmlookup_geti [of "in_degrees ot' oe' d'"]
      geti_in_degrees [OF o(2)] geti_in_degrees [OF o(4)]
      fmdom'_in_degrees [OF o(1,2)] fmdom'_in_degrees [OF o(3,4)]
      nodes_cong [OF assms(3,4)] edges_into_cong [OF assms(4)] ..
qed

lemma sort_filter_unique:
  assumes "distinct xs" "distinct ys" "set xs = set ys"
  shows "sort (filter p xs) = sort (filter p ys)"
  using assms set_eq_iff_mset_eq_distinct [of xs ys] by (intro sort_mset_eq) simp

lemma TopologicalSort_cong:
  assumes v: "visit_orders ot oe od d" "visit_orders ot' oe' od' d'"
    and same: "Tasks d = Tasks d'" "\<And>u. mset (getl (Edges d) u) = mset (getl (Edges d') u)"
  shows "\<exists>e e' r. TopologicalSort ot oe od d = Ret (e, r) \<and> TopologicalSort ot' oe' od' d' = Ret (e', r)"
proof -
  note deg = in_degrees_cong [OF v same]
  have "sort (filter p od) = sort (filter p od')" for p
    using v deg by (intro sort_filter_unique) (auto simp: visit_orders_def ranges_def)
  then have "kahn_sim (kahn_start ot oe od d) (kahn_start ot' oe' od' d')"
    by (simp add: kahn_sim_def kahn_start_def Let_def deg same)
  from kahn_sim_loop [OF this, of "Tasks d" "map_len (in_degrees ot oe d)"] kahn_finishes [OF v(1)]
  show ?thesis
    by (auto simp: TopologicalSort_def deg same(1) kahn_sim_def option_rel_Some1 split: option.splits)
qed

text \<open>
  C32. Determinism, end to end: however the maps of tasks, edges and in-degrees are visited while
  the edges are built from the dependencies and while the DAG is sorted, \<open>TopologicalSort\<close>
  gives the same answer, although the edge lists that it reads may be in a different order.
\<close>

theorem TopologicalSort_deterministic:
  assumes keyed: "well_keyed (Tasks d)" and known: "deps_known (Tasks d)"
    and o: "ranges o1 (Tasks d)" "ranges o2 (Tasks d)"
    and v: "visit_orders ot oe od (fst (BuildEdgesFromDependencies o1 d))"
      "visit_orders ot' oe' od' (fst (BuildEdgesFromDependencies o2 d))"
  shows "\<exists>e e' r.
    TopologicalSort ot oe od (fst (BuildEdgesFromDependencies o1 d)) = Ret (e, r) \<and>
    TopologicalSort ot' oe' od' (fst (BuildEdgesFromDependencies o2 d)) = Ret (e', r)"
proof (rule TopologicalSort_cong [OF v])
  fix u
  have ok: "snd (BuildEdgesFromDependencies o1 d) = None" "snd (BuildEdgesFromDependencies o2 d) = None"
    using BuildEdges_ok_iff known o by blast+
  show "mset (getl (Edges (fst (BuildEdgesFromDependencies o1 d))) u) =
        mset (getl (Edges (fst (BuildEdgesFromDependencies o2 d))) u)"
    by (rule multiset_eqI)
       (simp add: count_list_mset [symmetric] BuildEdges_count [OF keyed o(1) ok(1)]
          BuildEdges_count [OF keyed o(2) ok(2)])
qed simp

section \<open>The example\<close>

abbreviation "diamond_ids \<equiv> [''c'', ''a'', ''d'', ''b'']"

lemma diamond_facts:
  "wf_dag diamond" "ranges diamond_ids (Tasks diamond)" "ranges [''c'', ''b'', ''a''] (Edges diamond)"
  "visit_orders diamond_ids [''c'', ''b'', ''a''] diamond_ids diamond"
  by code_simp+

lemma TopologicalSort_terminates_witness:
  "\<exists>es r. TopologicalSort diamond_ids [''c'', ''b'', ''a''] diamond_ids diamond =
            Ret (diamond\<lparr>Edges := es\<rparr>, r) \<and>
          fmdom' es = fmdom' (Edges diamond) \<and> (\<forall>u. mset (getl es u) = mset (getl (Edges diamond) u))"
  by (rule TopologicalSort_terminates) (rule diamond_facts)

lemma TopologicalSort_sound_witness:
  "\<exists>d' xs ids. TopologicalSort diamond_ids [''c'', ''b'', ''a''] diamond_ids diamond = Ret (d', Inr xs) \<and>
     xs = map (fmlookup (Tasks diamond)) ids \<and> distinct ids \<and> set ids = fmdom' (Tasks diamond) \<and>
     predecessors_first (edge_rel (Edges diamond)) ids"
proof -
  let ?r = "TopologicalSort diamond_ids [''c'', ''b'', ''a''] diamond_ids diamond"
  have "case ?r of Ret (d', x) \<Rightarrow> is_ok x | _ \<Rightarrow> False" by code_simp
  then obtain d' xs where r: "?r = Ret (d', Inr xs)"
    by (auto split: outcome.splits)
  then show ?thesis
    using TopologicalSort_sound [OF diamond_facts(4,1) r] by blast
qed

lemma TopologicalSort_ok_iff_acyclic_witness:
  "acyclic (edge_rel (Edges diamond))"
proof -
  let ?r = "TopologicalSort diamond_ids [''c'', ''b'', ''a''] diamond_ids diamond"
  have "case ?r of Ret (d', x) \<Rightarrow> is_ok x | _ \<Rightarrow> False" by code_simp
  then have "\<exists>d' xs. ?r = Ret (d', Inr xs)"
    by (auto split: outcome.splits)
  then show ?thesis
    using TopologicalSort_ok_iff_acyclic [OF diamond_facts(4,1)] by blast
qed

lemma TopologicalSort_deterministic_witness:
  "\<exists>e e' r.
     TopologicalSort diamond_ids [''c'', ''b'', ''a''] diamond_ids diamond = Ret (e, r) \<and>
     TopologicalSort [''a'', ''b'', ''c'', ''d''] [''a'', ''b'', ''c''] [''a'', ''b'', ''c'', ''d'']
       (fst (BuildEdgesFromDependencies diamond_ids diamond_start)) = Ret (e', r)"
  unfolding diamond_def by (rule TopologicalSort_deterministic) code_simp+

end
