(* ===== verification/Dag_Cycle.thy ===== *)
theory Dag_Cycle
  imports Dag_Order
begin

text \<open>
  \<open>DetectCycle\<close> and \<open>Validate\<close> of \<^verbatim>\<open>pkg/dag/dag.go\<close>: the depth-first search with white, gray
  and black nodes, the reconstruction of the cycle from the \<^verbatim>\<open>parent\<close> map, and the proof that
  it reports a real cycle exactly when there is one. The recursion of the code has no bound in
  its text: the model gives it fuel, and \<open>dfs_total\<close> shows that one unit per node is enough.
\<close>

section \<open>The search\<close>

datatype color = White | Gray | Black

text \<open>
  The maps \<^verbatim>\<open>color\<close> and \<^verbatim>\<open>parent\<close> are only read and written at single keys, and a missing key
  reads as the zero value (white, the empty string): they are total functions here.
\<close>

record dfs_state =
  color_of :: "string \<Rightarrow> color"
  parent_of :: "string \<Rightarrow> string"

text \<open>
  The loop \<^verbatim>\<open>for curr != next { curr = parent[curr]; if curr == "" { break }; append }\<close>.
\<close>

fun walk_parents :: "nat \<Rightarrow> (string \<Rightarrow> string) \<Rightarrow> string \<Rightarrow> string \<Rightarrow> string list \<Rightarrow> string list option" where
  "walk_parents fuel par nxt cur path =
     (if cur = nxt then Some path
      else case fuel of 0 \<Rightarrow> None
        | Suc n \<Rightarrow> (let cur' = par cur in
            if cur' = '''' then Some path
            else walk_parents n par nxt cur' (path @ [cur'])))"

declare walk_parents.simps [simp del]

text \<open>
  \<open>dfs\<close> is the recursive closure, \<open>dfs_loop\<close> its loop over \<^verbatim>\<open>d.Edges[node]\<close>. The result is
  the state and, when a cycle was found, the \<^verbatim>\<open>cyclePath\<close>; \<open>None\<close> is out of fuel.
\<close>

function (sequential) dfs ::
  "nat \<Rightarrow> edges \<Rightarrow> string \<Rightarrow> dfs_state \<Rightarrow> (dfs_state \<times> string list option) option"
and dfs_loop ::
  "nat \<Rightarrow> edges \<Rightarrow> string \<Rightarrow> string list \<Rightarrow> dfs_state \<Rightarrow> (dfs_state \<times> string list option) option"
where
  "dfs 0 es node s = None"
| "dfs (Suc n) es node s =
     dfs_loop n es node (getl es node) (s\<lparr>color_of := (color_of s)(node := Gray)\<rparr>)"
| "dfs_loop n es node [] s = Some (s\<lparr>color_of := (color_of s)(node := Black)\<rparr>, None)"
| "dfs_loop n es node (nxt # ns) s =
     (if color_of s nxt = Gray
      then (case walk_parents (Suc (fcard (fmdom es))) (parent_of s) nxt node [nxt, node] of
              None \<Rightarrow> None
            | Some path \<Rightarrow> Some (s, Some path))
      else if color_of s nxt = White
      then (case dfs n es nxt (s\<lparr>parent_of := (parent_of s)(nxt := node)\<rparr>) of
              None \<Rightarrow> None
            | Some (s', Some path) \<Rightarrow> Some (s', Some path)
            | Some (s', None) \<Rightarrow> dfs_loop n es node ns s')
      else dfs_loop n es node ns s)"
  by pat_completeness auto
termination
  by (relation "measures [\<lambda>x. case x of Inl (n, _) \<Rightarrow> 2 * n | Inr (n, _) \<Rightarrow> 2 * n + 1,
                          \<lambda>x. case x of Inl _ \<Rightarrow> 0 | Inr (_, _, _, ns, _) \<Rightarrow> length ns]") auto

text \<open>The loop over the sorted IDs.\<close>

fun dfs_all :: "nat \<Rightarrow> edges \<Rightarrow> string list \<Rightarrow> dfs_state \<Rightarrow> (dfs_state \<times> string list option) option" where
  "dfs_all n es [] s = Some (s, None)"
| "dfs_all n es (i # is) s =
     (if color_of s i = White
      then (case dfs n es i s of
              None \<Rightarrow> None
            | Some (s', Some path) \<Rightarrow> Some (s', Some path)
            | Some (s', None) \<Rightarrow> dfs_all n es is s')
      else dfs_all n es is s)"

definition dfs_start :: dfs_state where
  "dfs_start = \<lparr>color_of = (\<lambda>_. White), parent_of = (\<lambda>_. '''')\<rparr>"

text \<open>A bound on the nodes that the search can color: the tasks and all the edge targets.\<close>

definition dfs_fuel :: "dag \<Rightarrow> nat" where
  "dfs_fuel d = Suc (fcard (fmdom (Tasks d) |\<union>| ffUnion (fset_of_list |`| fmran (Edges d))))"

definition DetectCycle :: "string list \<Rightarrow> dag \<Rightarrow> string list outcome" where
  "DetectCycle ord d =
     (case dfs_all (dfs_fuel d) (Edges d) (sort ord) dfs_start of
        None \<Rightarrow> Diverge
      | Some (s, None) \<Rightarrow> Ret []
      | Some (s, Some path) \<Rightarrow> Ret path)"

section \<open>Validate\<close>

text \<open>The three range loops of \<open>Validate\<close> over the edges, the targets and the tasks.\<close>

fun check_targets :: "tasks \<Rightarrow> string \<Rightarrow> string list \<Rightarrow> err option" where
  "check_targets ts f [] = None"
| "check_targets ts f (t # tos) =
     (if fmlookup ts t = None
      then Some (Err ''edge target task %q not found (from %q)'' [FStr t, FStr f])
      else check_targets ts f tos)"

fun check_edges :: "tasks \<Rightarrow> edges \<Rightarrow> string list \<Rightarrow> err option" where
  "check_edges ts es [] = None"
| "check_edges ts es (f # fs) =
     (if fmlookup ts f = None then Some (Err ''edge source task %q not found'' [FStr f])
      else case check_targets ts f (getl es f) of
             Some e \<Rightarrow> Some e
           | None \<Rightarrow> check_edges ts es fs)"

fun check_executors :: "tasks \<Rightarrow> string list \<Rightarrow> err option" where
  "check_executors ts [] = None"
| "check_executors ts (k # ks) =
     (case fmlookup ts k of
        None \<Rightarrow> check_executors ts ks
      | Some t \<Rightarrow>
          if Executor t = ''''
          then Some (Err ''task %q must specify an executor'' [FStr (task_ID t)])
          else check_executors ts ks)"

definition Validate :: "string list \<Rightarrow> string list \<Rightarrow> dag \<Rightarrow> err option outcome" where
  "Validate oe ot d =
     (if dag_ID d = '''' then Ret (Some (Err ''DAG ID must not be empty'' []))
      else if map_len (Tasks d) = 0
      then Ret (Some (Err ''DAG %q must have at least one task'' [FStr (dag_ID d)]))
      else case check_edges (Tasks d) (Edges d) oe of
        Some e \<Rightarrow> Ret (Some e)
      | None \<Rightarrow>
          bind_outcome (DetectCycle ot d) (\<lambda>cycle.
            if 0 < length cycle
            then Ret (Some (Err ''DAG %q contains a cycle: %v'' [FStr (dag_ID d), FStrs cycle]))
            else Ret (check_executors (Tasks d) ot)))"

section \<open>The invariant of the search\<close>

text \<open>
  A reported path lists the nodes of a cycle backwards: it starts and ends in the same node
  and every node has an edge to the one before it.
\<close>

definition cycle_path :: "edges \<Rightarrow> string list \<Rightarrow> bool" where
  "cycle_path es p \<longleftrightarrow> 2 \<le> length p \<and> hd p = last p \<and> distinct (tl p) \<and>
     successively (\<lambda>x y. x \<in> set (getl es y)) p"

text \<open>
  \<open>g\<close> is the stack of gray nodes, innermost first; each is the parent of the one before it.
  Black nodes have black successors only, and no cycle goes through them. \<open>U\<close> is a finite set
  of nonempty names that holds the edge targets and the nodes on the stack.
\<close>

definition black_edges :: "edges \<Rightarrow> dfs_state \<Rightarrow> (string \<times> string) set" where
  "black_edges es s = {(u, v). v \<in> set (getl es u) \<and> color_of s u = Black}"

definition dfs_inv :: "edges \<Rightarrow> string set \<Rightarrow> string list \<Rightarrow> dfs_state \<Rightarrow> bool" where
  "dfs_inv es U g s \<longleftrightarrow>
     finite U \<and> '''' \<notin> U \<and> (\<forall>u. set (getl es u) \<subseteq> U) \<and> set g \<subseteq> U \<and>
     distinct g \<and> (\<forall>x. color_of s x = Gray \<longleftrightarrow> x \<in> set g) \<and>
     successively (\<lambda>x y. parent_of s x = y \<and> x \<in> set (getl es y)) g \<and>
     (\<forall>u v. color_of s u = Black \<longrightarrow> v \<in> set (getl es u) \<longrightarrow> color_of s v = Black) \<and>
     acyclic (black_edges es s)"

definition whites :: "string set \<Rightarrow> dfs_state \<Rightarrow> string set" where
  "whites U s = {x \<in> U. color_of s x = White}"

definition dfs_grows :: "dfs_state \<Rightarrow> dfs_state \<Rightarrow> bool" where
  "dfs_grows s s' \<longleftrightarrow> (\<forall>x. color_of s x = Black \<longrightarrow> color_of s' x = Black) \<and>
     (\<forall>x. color_of s' x = White \<longrightarrow> color_of s x = White)"

fun dfs_post ::
  "edges \<Rightarrow> string set \<Rightarrow> string list \<Rightarrow> string \<Rightarrow> dfs_state \<Rightarrow>
     (dfs_state \<times> string list option) option \<Rightarrow> bool" where
  "dfs_post es U g node s None \<longleftrightarrow> False"
| "dfs_post es U g node s (Some (s', Some p)) \<longleftrightarrow> cycle_path es p"
| "dfs_post es U g node s (Some (s', None)) \<longleftrightarrow>
     dfs_inv es U g s' \<and> color_of s' node = Black \<and> dfs_grows s s'"

lemma dfs_grows_refl [simp]: "dfs_grows s s"
  by (simp add: dfs_grows_def)

lemma dfs_grows_trans: "dfs_grows s t \<Longrightarrow> dfs_grows t u \<Longrightarrow> dfs_grows s u"
  unfolding dfs_grows_def by blast

lemma dfs_post_mono: "dfs_post es U g node t r \<Longrightarrow> dfs_grows s t \<Longrightarrow> dfs_post es U g node s r"
  by (cases "(es, U, g, node, t, r)" rule: dfs_post.cases) (simp_all, blast intro: dfs_grows_trans)

lemma whites_grows: "dfs_grows s s' \<Longrightarrow> finite U \<Longrightarrow> card (whites U s') \<le> card (whites U s)"
  unfolding dfs_grows_def whites_def by (intro card_mono) (simp, blast)

lemma dfs_growsD:
  "dfs_grows s s' \<Longrightarrow> color_of s x = Black \<Longrightarrow> color_of s' x = Black"
  by (simp add: dfs_grows_def)

text \<open>The walk along the parents from the top of the stack down to \<open>nxt\<close>.\<close>

lemma walk_parents_stack:
  assumes "successively (\<lambda>x y. par x = y) (pre @ [nxt])" "distinct (pre @ [nxt])"
    and "'''' \<notin> set (pre @ [nxt])" "length pre \<le> fuel" "cur = hd (pre @ [nxt])"
  shows "walk_parents fuel par nxt cur path = Some (path @ tl (pre @ [nxt]))"
  using assms
proof (induction pre arbitrary: cur path fuel)
  case Nil
  then show ?case by (subst walk_parents.simps) simp
next
  case (Cons x pre)
  then obtain n where fuel: "fuel = Suc n" by (cases fuel) auto
  have par: "par x = hd (pre @ [nxt])"
    using Cons.prems(1) by (cases pre) auto
  have "hd (pre @ [nxt]) \<in> set (pre @ [nxt])" by (rule hd_in_set) simp
  then have "par x \<noteq> ''''" using Cons.prems(3) par by auto
  moreover have "walk_parents n par nxt (par x) (path @ [par x]) = Some ((path @ [par x]) @ tl (pre @ [nxt]))"
    using Cons.prems par fuel by (intro Cons.IH) (auto simp: successively_Cons)
  moreover have "par x # tl (pre @ [nxt]) = pre @ [nxt]" using par by (cases pre) auto
  ultimately show ?case
    using Cons.prems fuel by (subst walk_parents.simps) (auto simp: Let_def)
qed

lemma back_edge_cycle:
  assumes inv: "dfs_inv es U (node # g) s" and nxt: "nxt \<in> set (getl es node)" "color_of s nxt = Gray"
  shows "\<exists>p. walk_parents (Suc (fcard (fmdom es))) (parent_of s) nxt node [nxt, node] = Some p \<and>
           cycle_path es p"
proof -
  from inv nxt(2) have "nxt \<in> set (node # g)" by (simp add: dfs_inv_def)
  then obtain pre post where split: "node # g = pre @ nxt # post" by (metis split_list)
  have dist: "distinct (pre @ [nxt])" and ne: "'''' \<notin> set (pre @ [nxt])"
    and succ: "successively (\<lambda>x y. parent_of s x = y \<and> x \<in> set (getl es y)) (pre @ [nxt])"
    using inv unfolding dfs_inv_def split by (auto simp: successively_append_iff)
  have hd: "node = hd (pre @ [nxt])" using split by (cases pre) auto
  have edges: "successively (\<lambda>x y. x \<in> set (getl es y)) (nxt # pre @ [nxt])"
  proof (cases pre)
    case Nil
    then show ?thesis using nxt(1) hd by simp
  next
    case (Cons x pre')
    then show ?thesis
      using nxt(1) hd succ by (auto intro: successively_mono)
  qed
  have "set pre \<subseteq> fmdom' es"
  proof
    fix y assume "y \<in> set pre"
    then obtain xs ys where "pre = xs @ y # ys" by (metis split_list)
    with edges have "last (nxt # xs) \<in> set (getl es y)"
      by (cases xs rule: rev_cases) (auto simp: successively_append_iff successively_Cons)
    then show "y \<in> fmdom' es" by (rule getl_nonempty_dom)
  qed
  then have "length pre \<le> fcard (fmdom es)"
    using dist card_mono [of "fmdom' es" "set pre"]
    by (simp add: distinct_card fcard.rep_eq fmdom'_alt_def)
  then have "walk_parents (Suc (fcard (fmdom es))) (parent_of s) nxt node [nxt, node] =
      Some ([nxt, node] @ tl (pre @ [nxt]))"
    using succ dist ne hd by (intro walk_parents_stack) (auto intro: successively_mono)
  moreover have "[nxt, node] @ tl (pre @ [nxt]) = nxt # pre @ [nxt]"
    using hd by (cases pre) auto
  ultimately show ?thesis
    using edges dist by (auto simp: cycle_path_def)
qed

section \<open>The search keeps the invariant\<close>

lemma dfs_inv_gray: "dfs_inv es U g s \<Longrightarrow> color_of s x = Gray \<longleftrightarrow> x \<in> set g"
  and dfs_inv_black: "dfs_inv es U g s \<Longrightarrow> color_of s u = Black \<Longrightarrow> v \<in> set (getl es u) \<Longrightarrow> color_of s v = Black"
  and dfs_inv_targets: "dfs_inv es U g s \<Longrightarrow> v \<in> set (getl es u) \<Longrightarrow> v \<in> U"
  and dfs_inv_finite: "dfs_inv es U g s \<Longrightarrow> finite U"
  unfolding dfs_inv_def by blast+

lemma acyclic_new_source:
  assumes "acyclic R" "x \<notin> Range R'" "R' \<subseteq> R \<union> {x} \<times> A"
  shows "acyclic R'"
  unfolding acyclic_def
proof (intro allI notI)
  fix y assume y: "(y, y) \<in> R'\<^sup>+"
  have "(a, b) \<in> R\<^sup>+" if "(a, b) \<in> R'\<^sup>+" "a \<noteq> x" for a b
    using that
  proof (induction rule: trancl_induct)
    case (base b)
    then show ?case using assms(3) by auto
  next
    case (step b c)
    moreover have "b \<noteq> x" using step.hyps(1) assms(2) by (metis Range.intros trancl_range)
    ultimately show ?case using assms(3) by (auto intro: trancl_into_trancl)
  qed
  moreover have "y \<noteq> x" using y assms(2) by (metis Range.intros trancl_range)
  ultimately show False using y assms(1) by (auto simp: acyclic_def)
qed

text \<open>Coloring a white node gray puts it on the stack.\<close>

lemma dfs_inv_push:
  assumes "dfs_inv es U g s" "node \<in> U" "color_of s node = White"
    and "g \<noteq> [] \<Longrightarrow> parent_of s node = hd g \<and> node \<in> set (getl es (hd g))"
  shows "dfs_inv es U (node # g) (s\<lparr>color_of := (color_of s)(node := Gray)\<rparr>)"
proof -
  let ?s = "s\<lparr>color_of := (color_of s)(node := Gray)\<rparr>"
  have "node \<notin> set g" using dfs_inv_gray [OF assms(1), of node] assms(3) by simp
  moreover have "black_edges es ?s = black_edges es s"
    using assms(3) by (auto simp: black_edges_def split: if_splits)
  moreover have "successively (\<lambda>x y. parent_of s x = y \<and> x \<in> set (getl es y)) (node # g)"
    using assms(1,4) by (cases g) (auto simp: dfs_inv_def)
  ultimately show ?thesis
    using assms(1-3) by (auto simp: dfs_inv_def)
qed

text \<open>A node whose successors are all black can be colored black and leaves the stack.\<close>

lemma dfs_inv_pop:
  assumes "dfs_inv es U (node # g) s" "\<And>v. v \<in> set (getl es node) \<Longrightarrow> color_of s v = Black"
  shows "dfs_inv es U g (s\<lparr>color_of := (color_of s)(node := Black)\<rparr>)"
proof -
  let ?s = "s\<lparr>color_of := (color_of s)(node := Black)\<rparr>"
  have gray: "color_of s node = Gray" using assms(1) by (simp add: dfs_inv_def)
  have "acyclic (black_edges es ?s)"
  proof (rule acyclic_new_source)
    show "acyclic (black_edges es s)" using assms(1) by (simp add: dfs_inv_def)
    have "color_of s v = Black" if "(u, v) \<in> black_edges es ?s" for u v
      using that assms by (auto simp: black_edges_def dfs_inv_def split: if_splits)
    then show "node \<notin> Range (black_edges es ?s)" using gray by fastforce
    show "black_edges es ?s \<subseteq> black_edges es s \<union> {node} \<times> UNIV"
      by (auto simp: black_edges_def)
  qed
  moreover have "successively (\<lambda>x y. parent_of s x = y \<and> x \<in> set (getl es y)) g"
    using assms(1) by (cases g) (auto simp: dfs_inv_def)
  ultimately show ?thesis
    using assms gray by (auto simp: dfs_inv_def)
qed

text \<open>Writing the parent of a node that is not on the stack leaves the invariant alone.\<close>

lemma dfs_inv_parent:
  assumes "dfs_inv es U g s" "x \<notin> set g"
  shows "dfs_inv es U g (s\<lparr>parent_of := (parent_of s)(x := p)\<rparr>)"
proof -
  have "successively (\<lambda>a b. ((parent_of s)(x := p)) a = b \<and> a \<in> set (getl es b)) g \<longleftrightarrow>
      successively (\<lambda>a b. parent_of s a = b \<and> a \<in> set (getl es b)) g"
    using assms(2) by (intro successively_cong) auto
  then show ?thesis
    using assms(1) unfolding dfs_inv_def black_edges_def by simp
qed

text \<open>Entering a white node leaves fewer white nodes.\<close>

lemma enter_node:
  assumes "dfs_inv es U g s" "node \<in> U" "color_of s node = White" "card (whites U s) \<le> Suc n"
    and "g \<noteq> [] \<Longrightarrow> parent_of s node = hd g \<and> node \<in> set (getl es (hd g))"
  shows "dfs_inv es U (node # g) (s\<lparr>color_of := (color_of s)(node := Gray)\<rparr>) \<and>
    card (whites U (s\<lparr>color_of := (color_of s)(node := Gray)\<rparr>)) \<le> n"
proof -
  let ?s = "s\<lparr>color_of := (color_of s)(node := Gray)\<rparr>"
  have inv: "dfs_inv es U (node # g) ?s" using assms by (intro dfs_inv_push)
  have "whites U s = insert node (whites U ?s)" "node \<notin> whites U ?s"
    using assms(2,3) by (auto simp: whites_def)
  then show ?thesis using assms(4) dfs_inv_finite [OF inv] inv by (simp add: whites_def)
qed

text \<open>A white successor is searched first, then the rest of the loop runs on what that search leaves.\<close>

lemma visit_white:
  assumes "color_of s nxt = White"
    and call: "dfs_post es U (node # g) nxt (s\<lparr>parent_of := (parent_of s)(nxt := node)\<rparr>)
      (dfs n es nxt (s\<lparr>parent_of := (parent_of s)(nxt := node)\<rparr>))"
    and rest: "\<And>s'. dfs n es nxt (s\<lparr>parent_of := (parent_of s)(nxt := node)\<rparr>) = Some (s', None) \<Longrightarrow>
      dfs_inv es U (node # g) s' \<Longrightarrow> color_of s' nxt = Black \<Longrightarrow> dfs_grows s s' \<Longrightarrow>
      dfs_post es U g node s' (dfs_loop n es node ns s')"
  shows "dfs_post es U g node s (dfs_loop n es node (nxt # ns) s)"
proof -
  let ?s = "s\<lparr>parent_of := (parent_of s)(nxt := node)\<rparr>"
  consider (cycle) s' p where "dfs n es nxt ?s = Some (s', Some p)" "cycle_path es p"
    | (none) s' where "dfs n es nxt ?s = Some (s', None)" "dfs_inv es U (node # g) s'"
        "color_of s' nxt = Black" "dfs_grows ?s s'"
    using call by (cases "(es, U, node # g, nxt, ?s, dfs n es nxt ?s)" rule: dfs_post.cases) auto
  then show ?thesis
  proof cases
    case none
    then have grows: "dfs_grows s s'" by (simp add: dfs_grows_def)
    show ?thesis using rest [OF none(1-3) grows] assms(1) none(1) grows by (auto intro: dfs_post_mono)
  qed (use assms(1) in simp)
qed

text \<open>
  One unit of fuel per white node is enough, and a call that finds no cycle gives the node
  back black with the stack as it was.
\<close>

lemma dfs_total:
  shows "dfs_inv es U g s \<Longrightarrow> node \<in> U \<Longrightarrow> color_of s node = White \<Longrightarrow> card (whites U s) \<le> n \<Longrightarrow>
      (g \<noteq> [] \<Longrightarrow> parent_of s node = hd g \<and> node \<in> set (getl es (hd g))) \<Longrightarrow>
      dfs_post es U g node s (dfs n es node s)"
    and "dfs_inv es U (node # g) s \<Longrightarrow> set ns \<subseteq> set (getl es node) \<Longrightarrow>
      (\<And>v. v \<in> set (getl es node) - set ns \<Longrightarrow> color_of s v = Black) \<Longrightarrow> card (whites U s) \<le> n \<Longrightarrow>
      dfs_post es U g node s (dfs_loop n es node ns s)"
proof (induction n es node s and n es node ns s arbitrary: g and g rule: dfs_dfs_loop.induct)
  case (1 es node s)
  have "node \<in> whites U s" "finite (whites U s)"
    using "1.prems" by (auto simp: whites_def dest: dfs_inv_finite)
  then show ?case using "1.prems"(4) by (auto dest: card_gt_0_iff [THEN iffD2])
next
  case (2 n es node s)
  have "dfs_post es U g node (s\<lparr>color_of := (color_of s)(node := Gray)\<rparr>)
      (dfs_loop n es node (getl es node) (s\<lparr>color_of := (color_of s)(node := Gray)\<rparr>))"
    using enter_node [OF "2.prems"] by (intro "2.IH") auto
  then show ?case
    using "2.prems"(3) by (auto simp: dfs_grows_def intro: dfs_post_mono)
next
  case (3 n es node s)
  have "dfs_inv es U g (s\<lparr>color_of := (color_of s)(node := Black)\<rparr>)"
    using "3.prems"(1,3) by (intro dfs_inv_pop) auto
  then show ?case by (simp add: dfs_grows_def)
next
  case (4 n es node nxt ns s)
  have nxt: "nxt \<in> set (getl es node)" using "4.prems"(2) by simp
  have left: "color_of s' v = Black"
    if "color_of s' nxt = Black" "dfs_grows s s'" "v \<in> set (getl es node) - set ns" for s' v
    using "4.prems"(3) [of v] that dfs_growsD [OF that(2)] by (cases "v = nxt") auto
  show ?case
  proof (cases "color_of s nxt")
    case Gray
    with back_edge_cycle [OF "4.prems"(1) nxt] show ?thesis by auto
  next
    case Black
    have "dfs_post es U g node s (dfs_loop n es node ns s)"
      by (rule "4.IH"(3)) (use Black "4.prems" left [OF Black dfs_grows_refl] in auto)
    with Black show ?thesis by simp
  next
    case White
    let ?s = "s\<lparr>parent_of := (parent_of s)(nxt := node)\<rparr>"
    have "nxt \<notin> set (node # g)" using dfs_inv_gray [OF "4.prems"(1), of nxt] White by simp
    then have inv: "dfs_inv es U (node # g) ?s" by (rule dfs_inv_parent [OF "4.prems"(1)])
    show ?thesis
    proof (rule visit_white [OF White])
      show "dfs_post es U (node # g) nxt ?s (dfs n es nxt ?s)"
        by (rule "4.IH"(1) [OF _ White inv dfs_inv_targets [OF inv nxt]])
           (use White nxt "4.prems"(4) in \<open>auto simp: whites_def\<close>)
      fix s' assume s': "dfs n es nxt ?s = Some (s', None)" "dfs_inv es U (node # g) s'"
        "color_of s' nxt = Black" "dfs_grows s s'"
      show "dfs_post es U g node s' (dfs_loop n es node ns s')"
        by (rule "4.IH"(2) [OF _ White s'(1) refl refl s'(2)])
           (use "4.prems"(2,4) White left [OF s'(3,4)] whites_grows [OF s'(4) dfs_inv_finite [OF inv]] in auto)
    qed
  qed
qed

section \<open>Properties of DetectCycle\<close>

lemma dfs_all_correct:
  assumes "dfs_inv es U [] s" "set is \<subseteq> U" "card U \<le> n"
  shows "(\<exists>s'. dfs_all n es is s = Some (s', None) \<and> dfs_inv es U [] s' \<and> dfs_grows s s' \<and>
            (\<forall>i \<in> set is. color_of s' i = Black)) \<or>
         (\<exists>s' p. dfs_all n es is s = Some (s', Some p) \<and> cycle_path es p)"
  using assms
proof (induction "is" arbitrary: s)
  case (Cons i "is")
  show ?case
  proof (cases "color_of s i = White")
    case False
    then have "color_of s i = Black"
      using dfs_inv_gray [OF Cons.prems(1), of i] by (cases "color_of s i") auto
    with False Cons.IH [OF Cons.prems(1)] Cons.prems(2,3) show ?thesis
      by (auto dest: dfs_growsD)
  next
    case True
    have "card (whites U s) \<le> n"
      using Cons.prems(3) card_mono [OF dfs_inv_finite [OF Cons.prems(1)], of "whites U s"]
      by (auto simp: whites_def)
    then have "dfs_post es U [] i s (dfs n es i s)"
      using Cons.prems True by (intro dfs_total(1)) auto
    then consider (cycle) s' p where "dfs n es i s = Some (s', Some p)" "cycle_path es p"
      | (none) s' where "dfs n es i s = Some (s', None)" "dfs_inv es U [] s'"
          "color_of s' i = Black" "dfs_grows s s'"
      by (cases "(es, U, [] :: string list, i, s, dfs n es i s)" rule: dfs_post.cases) auto
    then show ?thesis
    proof cases
      case cycle
      with True show ?thesis by simp
    next
      case none
      have "set is \<subseteq> U" using Cons.prems(2) by simp
      from Cons.IH [OF none(2) this Cons.prems(3)] show ?thesis
        using True none(1,3) dfs_grows_trans [OF none(4)] by (auto dest: dfs_growsD)
    qed
  qed
qed simp

lemma fset_all_targets:
  "fset (ffUnion (fset_of_list |`| fmran es)) = (\<Union>u \<in> fmdom' es. set (getl es u))"
proof (rule set_eqI)
  fix x
  have "x \<in> fset (ffUnion (fset_of_list |`| fmran es)) \<longleftrightarrow> (\<exists>vs \<in> fmran' es. x \<in> set vs)"
    by (simp add: ffUnion.rep_eq fimage.rep_eq fset_of_list.rep_eq fmran'_alt_def)
  also have "\<dots> \<longleftrightarrow> (\<exists>u. x \<in> set (getl es u))"
    unfolding mem_getl_iff by (blast intro: fmran'I elim: fmran'E)
  finally show "x \<in> fset (ffUnion (fset_of_list |`| fmran es)) \<longleftrightarrow>
      x \<in> (\<Union>u \<in> fmdom' es. set (getl es u))"
    using getl_nonempty_dom [of x es] by auto
qed

lemma fuel_nodes: "dfs_fuel d = Suc (card (nodes d))"
  by (simp add: dfs_fuel_def nodes_def fcard.rep_eq fmdom'_alt_def fset_all_targets)

lemma dfs_inv_start:
  assumes "'''' \<notin> nodes d"
  shows "dfs_inv (Edges d) (nodes d) [] dfs_start"
proof -
  have "set (getl (Edges d) u) \<subseteq> nodes d" for u
    by (auto simp: nodes_def intro: getl_nonempty_dom)
  then show ?thesis
    using assms by (simp add: dfs_inv_def dfs_start_def black_edges_def acyclic_def)
qed

text \<open>A reported path is a proof that the graph has a cycle.\<close>

lemma backward_trancl:
  "successively (\<lambda>x y. x \<in> set (getl es y)) (x # p) \<Longrightarrow> p \<noteq> [] \<Longrightarrow> (last p, x) \<in> (edge_rel es)\<^sup>+"
proof (induction p arbitrary: x)
  case (Cons y p)
  then have edge: "(y, x) \<in> edge_rel es" by simp
  show ?case
  proof (cases "p = []")
    case True
    with edge show ?thesis by auto
  next
    case False
    with Cons have "(last p, y) \<in> (edge_rel es)\<^sup>+" by (simp add: successively_Cons)
    then show ?thesis using edge False by (auto intro: trancl_into_trancl)
  qed
qed simp

lemma cycle_path_cyclic: "cycle_path es p \<Longrightarrow> \<not> acyclic (edge_rel es)"
proof (cases p)
  case (Cons x q)
  assume p: "cycle_path es p"
  with Cons have "q \<noteq> []" "last q = x" by (auto simp: cycle_path_def split: if_splits)
  then have "(x, x) \<in> (edge_rel es)\<^sup>+"
    using backward_trancl [of es x q] p Cons by (simp add: cycle_path_def)
  then show ?thesis by (auto simp: acyclic_def)
qed (simp add: cycle_path_def)

lemma all_black_acyclic:
  assumes "dfs_inv es U g s" "\<And>u. u \<in> fmdom' es \<Longrightarrow> color_of s u = Black"
  shows "acyclic (edge_rel es)"
proof -
  have "edge_rel es = black_edges es s"
    using assms(2) [OF getl_nonempty_dom] by (auto simp: black_edges_def)
  then show ?thesis using assms(1) by (simp add: dfs_inv_def)
qed

lemma DetectCycle_cases:
  assumes "wf_dag d" "ranges ord (Tasks d)"
  shows "DetectCycle ord d = Ret [] \<and> acyclic (edge_rel (Edges d)) \<or>
    (\<exists>p. DetectCycle ord d = Ret p \<and> cycle_path (Edges d) p)"
proof -
  note closed = wf_dag_closed [OF assms(1)]
  have "'''' \<notin> nodes d"
    using wf_dag_keyed [OF assms(1)] by (simp add: nodes_closed [OF closed] well_keyed_nonempty)
  note inv = dfs_inv_start [OF this]
  have ids: "set (sort ord) = nodes d"
    using assms(2) by (simp add: nodes_closed [OF closed] ranges_def)
  have "set (sort ord) \<subseteq> nodes d" "card (nodes d) \<le> Suc (card (nodes d))"
    using ids by simp_all
  from dfs_all_correct [OF inv this] show ?thesis
    unfolding ids
  proof (elim disjE exE conjE)
    fix s' assume run: "dfs_all (Suc (card (nodes d))) (Edges d) (sort ord) dfs_start = Some (s', None)"
      and inv': "dfs_inv (Edges d) (nodes d) [] s'" and black: "\<forall>i\<in>nodes d. color_of s' i = Black"
    have "acyclic (edge_rel (Edges d))"
      using closed black nodes_closed [OF closed]
      by (intro all_black_acyclic [OF inv']) (auto simp: edges_closed_iff)
    then show ?thesis using run by (simp add: DetectCycle_def fuel_nodes)
  next
    fix s' p assume "dfs_all (Suc (card (nodes d))) (Edges d) (sort ord) dfs_start = Some (s', Some p)"
      and "cycle_path (Edges d) p"
    then show ?thesis by (simp add: DetectCycle_def fuel_nodes)
  qed
qed

lemma DetectCycle_spec:
  assumes "wf_dag d" and "ranges ord (Tasks d)"
  shows "\<exists>p. DetectCycle ord d = Ret p \<and> (p = [] \<longleftrightarrow> acyclic (edge_rel (Edges d))) \<and>
           (p \<noteq> [] \<longrightarrow> cycle_path (Edges d) p)"
proof -
  have "cycle_path (Edges d) p \<Longrightarrow> p \<noteq> []" for p by (auto simp: cycle_path_def)
  then show ?thesis
    using DetectCycle_cases [OF assms] cycle_path_cyclic by blast
qed

text \<open>
  C6. \<open>DetectCycle\<close> on a well-formed DAG always returns; it returns the empty path if and only
  if the graph is acyclic, and otherwise a path that lists the nodes of a real cycle backwards,
  none of them twice but the one that closes it.
\<close>

theorem DetectCycle_correct:
  assumes "wf_dag d" and "ranges ord (Tasks d)"
  shows "\<exists>p. DetectCycle ord d = Ret p \<and> (p = [] \<longleftrightarrow> acyclic (edge_rel (Edges d))) \<and>
           (p \<noteq> [] \<longrightarrow> cycle_path (Edges d) p)"
  using assms by (rule DetectCycle_spec)

section \<open>Properties of Validate\<close>

lemma check_targets_None: "check_targets ts f tos = None \<longleftrightarrow> set tos \<subseteq> fmdom' ts"
  by (induction tos) (auto simp: fmlookup_dom'_iff)

lemma check_edges_None:
  "check_edges ts es fs = None \<longleftrightarrow> set fs \<subseteq> fmdom' ts \<and> (\<forall>f \<in> set fs. set (getl es f) \<subseteq> fmdom' ts)"
proof (induction fs)
  case (Cons f fs)
  then show ?case
    using check_targets_None [of ts f "getl es f"]
    by (cases "check_targets ts f (getl es f)") (auto simp: fmlookup_dom'_iff)
qed simp

lemma check_edges_closed:
  assumes "ranges oe es"
  shows "check_edges ts es oe = None \<longleftrightarrow> edges_closed ts es"
proof -
  have "(\<forall>f \<in> fmdom' es. set (getl es f) \<subseteq> fmdom' ts) \<longleftrightarrow> (\<forall>u v. v \<in> set (getl es u) \<longrightarrow> v \<in> fmdom' ts)"
    using getl_nonempty_dom [of _ es] by (auto simp: subset_iff)
  then show ?thesis
    using assms by (simp add: check_edges_None edges_closed_iff ranges_def)
qed

lemma check_executors_None:
  "check_executors ts ks = None \<longleftrightarrow>
     (\<forall>k \<in> set ks. \<forall>t. fmlookup ts k = Some t \<longrightarrow> Executor t \<noteq> '''')"
  by (induction ks) (auto split: option.splits)

definition has_executors :: "tasks \<Rightarrow> bool" where
  "has_executors ts \<longleftrightarrow> fmpred (\<lambda>k t. Executor t \<noteq> '''') ts"

lemma check_executors_all: "ranges ot ts \<Longrightarrow> check_executors ts ot = None \<longleftrightarrow> has_executors ts"
  unfolding check_executors_None has_executors_def fmpred_iff ranges_def
  by (metis fmdom'I)

lemma Validate_spec:
  assumes "well_keyed (Tasks d)" and "ranges oe (Edges d)" and "ranges ot (Tasks d)"
  shows "\<exists>r. Validate oe ot d = Ret r \<and>
    (r = None \<longleftrightarrow> dag_ID d \<noteq> '''' \<and> Tasks d \<noteq> fmempty \<and> edges_closed (Tasks d) (Edges d) \<and>
                acyclic (edge_rel (Edges d)) \<and> has_executors (Tasks d))"
proof (cases "edges_closed (Tasks d) (Edges d)")
  case False
  then obtain e where "check_edges (Tasks d) (Edges d) oe = Some e"
    using check_edges_closed [OF assms(2)] by blast
  with False show ?thesis
    by (simp add: Validate_def)
next
  case True
  then have "check_edges (Tasks d) (Edges d) oe = None"
    using check_edges_closed [OF assms(2)] by blast
  moreover have "wf_dag d" using True assms(1) by (simp add: wf_dag_def)
  then obtain p where "DetectCycle ot d = Ret p" "p = [] \<longleftrightarrow> acyclic (edge_rel (Edges d))"
    using DetectCycle_spec assms(3) by blast
  ultimately show ?thesis
    using True check_executors_all [OF assms(3)]
    by (simp add: Validate_def map_len_zero_iff)
qed

text \<open>
  C15. \<open>Validate\<close> always returns, and it accepts a DAG, in whatever order the maps are visited, if
  and only if its ID is not empty, it has a task, both ends of every edge are tasks, the graph
  is acyclic and every task names an executor. (The tasks are filed under their IDs, as
  \<open>AddTask\<close> leaves them.)
\<close>

theorem Validate_iff:
  assumes "well_keyed (Tasks d)" and "ranges oe (Edges d)" and "ranges ot (Tasks d)"
  shows "\<exists>r. Validate oe ot d = Ret r \<and>
    (r = None \<longleftrightarrow> dag_ID d \<noteq> '''' \<and> Tasks d \<noteq> fmempty \<and> edges_closed (Tasks d) (Edges d) \<and>
                acyclic (edge_rel (Edges d)) \<and> has_executors (Tasks d))"
  using assms by (rule Validate_spec)

text \<open>
  The two cycle checks of the code, the depth-first search of \<open>DetectCycle\<close> and the count in
  \<open>TopologicalSort\<close>, agree on every well-formed DAG: one reports no cycle exactly when the other
  returns an order.
\<close>

theorem cycle_checks_agree:
  assumes "wf_dag d" and "ranges ord (Tasks d)" and "visit_orders ot oe od d"
  shows "(DetectCycle ord d = Ret []) \<longleftrightarrow> (\<exists>d' xs. TopologicalSort ot oe od d = Ret (d', Inr xs))"
proof -
  obtain p where "DetectCycle ord d = Ret p" "p = [] \<longleftrightarrow> acyclic (edge_rel (Edges d))"
    using DetectCycle_spec [OF assms(1,2)] by blast
  then show ?thesis
    using TopologicalSort_acyclic [OF assms(3,1)] by simp
qed

section \<open>Examples\<close>

lemma DetectCycle_correct_witness:
  "\<exists>p. DetectCycle diamond_ids diamond = Ret p \<and> (p = [] \<longleftrightarrow> acyclic (edge_rel (Edges diamond))) \<and>
       (p \<noteq> [] \<longrightarrow> cycle_path (Edges diamond) p)"
  by (rule DetectCycle_correct) (rule diamond_facts)+

lemma Validate_iff_witness:
  "\<exists>r. Validate [''c'', ''b'', ''a''] diamond_ids diamond = Ret r \<and>
    (r = None \<longleftrightarrow> dag_ID diamond \<noteq> '''' \<and> Tasks diamond \<noteq> fmempty \<and>
       edges_closed (Tasks diamond) (Edges diamond) \<and>
       acyclic (edge_rel (Edges diamond)) \<and> has_executors (Tasks diamond))"
  using diamond_facts by (intro Validate_iff) (auto simp: wf_dag_def)

text \<open>Two tasks that depend on each other.\<close>

definition knot :: dag where
  "knot = fst (BuildEdgesFromDependencies [''a'', ''b'']
     ((NewDAG 0 ''knot'' ''Knot'')\<lparr>Tasks := fmap_of_list
        [(''a'', plain_task ''a'' [''b'']), (''b'', plain_task ''b'' [''a''])]\<rparr>))"

lemma cycle_checks_agree_witness:
  "DetectCycle [''b'', ''a''] knot = Ret [''a'', ''b'', ''a''] \<and>
   (DetectCycle [''b'', ''a''] knot = Ret []) =
     (\<exists>d' xs. TopologicalSort [''b'', ''a''] [''b'', ''a''] [''b'', ''a''] knot = Ret (d', Inr xs))"
proof (rule conjI)
  show "DetectCycle [''b'', ''a''] knot = Ret [''a'', ''b'', ''a'']" by code_simp
  have "wf_dag knot" "ranges [''b'', ''a''] (Tasks knot)"
    "visit_orders [''b'', ''a''] [''b'', ''a''] [''b'', ''a''] knot" by code_simp+
  then show "(DetectCycle [''b'', ''a''] knot = Ret []) =
     (\<exists>d' xs. TopologicalSort [''b'', ''a''] [''b'', ''a''] [''b'', ''a''] knot = Ret (d', Inr xs))"
    by (rule cycle_checks_agree)
qed

end
