(* ===== verification/Dag_Query.thy ===== *)
theory Dag_Query
  imports Dag_Cycle "HOL-Library.Product_Lexorder"
begin

text \<open>
  The queries of \<^verbatim>\<open>pkg/dag/dag.go\<close>: \<open>GetLeaves\<close>, \<open>GetDownstream\<close>, \<open>GetUpstream\<close> and
  \<open>ReadyTasks\<close>, and what they and \<open>GetRoots\<close> return.
\<close>

section \<open>GetLeaves\<close>

definition GetLeaves :: "string list \<Rightarrow> string list \<Rightarrow> dag \<Rightarrow> task list" where
  "GetLeaves oe ot d =
     (let hasDownstream =
        fold (\<lambda>f m. if 0 < length (getl (Edges d) f) then fmupd f True m else m) oe fmempty
      in sort_key task_ID
        (List.map_filter (\<lambda>i. fmlookup (Tasks d) i)
          (filter (\<lambda>i. fmlookup hasDownstream i \<noteq> Some True) ot)))"

section \<open>GetDownstream and GetUpstream\<close>

text \<open>
  The recursive closure \<^verbatim>\<open>walk\<close> with its map \<^verbatim>\<open>visited\<close> and the slice \<^verbatim>\<open>result\<close>, over edge lists
  \<open>es\<close>. A node that is not a task appends nil (\<open>None\<close>). The fuel is again one unit per node.
\<close>

record walk_state =
  visited :: "string \<Rightarrow> bool"
  result :: "task option list"

function (sequential) walk ::
  "nat \<Rightarrow> tasks \<Rightarrow> edges \<Rightarrow> string \<Rightarrow> walk_state \<Rightarrow> walk_state option"
and walk_loop ::
  "nat \<Rightarrow> tasks \<Rightarrow> edges \<Rightarrow> string list \<Rightarrow> walk_state \<Rightarrow> walk_state option"
where
  "walk 0 ts es i s = None"
| "walk (Suc n) ts es i s = walk_loop n ts es (getl es i) s"
| "walk_loop n ts es [] s = Some s"
| "walk_loop n ts es (nxt # ns) s =
     (if visited s nxt then walk_loop n ts es ns s
      else case walk n ts es nxt
             (s\<lparr>visited := (visited s)(nxt := True), result := result s @ [fmlookup ts nxt]\<rparr>) of
             None \<Rightarrow> None
           | Some s' \<Rightarrow> walk_loop n ts es ns s')"
  by pat_completeness auto
termination
  by (relation "measures [\<lambda>x. case x of Inl (n, _) \<Rightarrow> 2 * n | Inr (n, _) \<Rightarrow> 2 * n + 1,
                          \<lambda>x. case x of Inl _ \<Rightarrow> 0 | Inr (_, _, _, ns, _) \<Rightarrow> length ns]") auto

definition walk_fuel :: "edges \<Rightarrow> nat" where
  "walk_fuel es = Suc (fcard (ffUnion (fset_of_list |`| fmran es)))"

definition walk_start :: walk_state where
  "walk_start = \<lparr>visited = (\<lambda>_. False), result = []\<rparr>"

text \<open>
  \<^verbatim>\<open>sort.Slice\<close> by \<^verbatim>\<open>ID\<close> over a slice of pointers: with two elements or more, every element
  is compared at least once, and comparing a nil pointer panics.
\<close>

definition sort_by_ID :: "task option list \<Rightarrow> task option list outcome" where
  "sort_by_ID xs =
     (if 2 \<le> length xs \<and> None \<in> set xs then Panic
      else Ret (sort_key (\<lambda>x. case x of None \<Rightarrow> '''' | Some t \<Rightarrow> task_ID t) xs))"

definition GetDownstream :: "dag \<Rightarrow> string \<Rightarrow> task option list outcome" where
  "GetDownstream d i =
     (case walk (walk_fuel (Edges d)) (Tasks d) (Edges d) i walk_start of
        None \<Rightarrow> Diverge
      | Some s \<Rightarrow> sort_by_ID (result s))"

definition reverse_edges :: "string list \<Rightarrow> edges \<Rightarrow> edges" where
  "reverse_edges oe es = fold (\<lambda>f m. fold (\<lambda>t m. appendl m t f) (getl es f) m) oe fmempty"

definition GetUpstream :: "string list \<Rightarrow> dag \<Rightarrow> string \<Rightarrow> task option list outcome" where
  "GetUpstream oe d i =
     (let rev = reverse_edges oe (Edges d) in
      case walk (walk_fuel rev) (Tasks d) rev i walk_start of
        None \<Rightarrow> Diverge
      | Some s \<Rightarrow> sort_by_ID (result s))"

section \<open>ReadyTasks\<close>

text \<open>A task without an entry in the status map reads as the zero value, pending.\<close>

definition get_status :: "(string, status) fmap \<Rightarrow> string \<Rightarrow> status" where
  "get_status st k = (case fmlookup st k of None \<Rightarrow> StatusPending | Some s \<Rightarrow> s)"

fun all_deps_complete :: "(string, status) fmap \<Rightarrow> string list \<Rightarrow> bool" where
  "all_deps_complete st [] = True"
| "all_deps_complete st (dep # deps) =
     (if get_status st dep \<noteq> StatusSuccess then False else all_deps_complete st deps)"

fun ready_loop :: "(string, status) fmap \<Rightarrow> tasks \<Rightarrow> string list \<Rightarrow> task list \<Rightarrow> task list" where
  "ready_loop st ts [] ready = ready"
| "ready_loop st ts (k # ks) ready =
     (case fmlookup ts k of
        None \<Rightarrow> ready_loop st ts ks ready
      | Some t \<Rightarrow>
          if get_status st (task_ID t) \<noteq> StatusPending then ready_loop st ts ks ready
          else if all_deps_complete st (Dependencies t)
          then ready_loop st ts ks (ready @ [t])
          else ready_loop st ts ks ready)"

text \<open>Higher priority first, then by ID.\<close>

definition ReadyTasks :: "string list \<Rightarrow> dag \<Rightarrow> (string, status) fmap \<Rightarrow> task list" where
  "ReadyTasks ord d st =
     sort_key (\<lambda>t. (- Priority t, task_ID t)) (ready_loop st (Tasks d) ord [])"

section \<open>Roots and leaves\<close>

text \<open>The task filed under a key; only used on the keys of the map.\<close>

abbreviation task_at :: "tasks \<Rightarrow> string \<Rightarrow> task" where
  "task_at ts k \<equiv> the (fmlookup ts k)"

lemma task_at_ID: "well_keyed ts \<Longrightarrow> k \<in> fmdom' ts \<Longrightarrow> task_ID (task_at ts k) = k"
  by (auto simp: fmlookup_dom'_iff dest: well_keyedD)

lemma map_filter_lookup:
  "set ks \<subseteq> fmdom' ts \<Longrightarrow> List.map_filter (fmlookup ts) ks = map (task_at ts) ks"
  by (induction ks) (auto simp: List.map_filter_def fmlookup_dom'_iff)

lemma sort_key_task_at:
  "well_keyed ts \<Longrightarrow> set ks \<subseteq> fmdom' ts \<Longrightarrow>
     sort_key task_ID (map (task_at ts) ks) = map (task_at ts) (sort ks)"
  by (rule sort_key_map_inverse) (auto intro: task_at_ID)

lemma GetRoots_spec:
  assumes "visit_orders ot oe od d" "wf_dag d"
  shows "GetRoots ot oe od d =
    map (task_at (Tasks d)) (filter (\<lambda>i. i \<notin> Range (edge_rel (Edges d))) (sorted_keys (Tasks d)))"
proof -
  let ?deg = "in_degrees ot oe d"
  have o: "ranges ot (Tasks d)" "ranges oe (Edges d)" "ranges od ?deg"
    using assms(1) by (auto simp: visit_orders_def)
  have od: "ranges od (Tasks d)"
    using o(3) fmdom'_in_degrees [OF o(1,2)] nodes_closed [OF wf_dag_closed [OF assms(2)]]
    by (simp add: ranges_def)
  have deg: "geti ?deg i = 0 \<longleftrightarrow> i \<notin> Range (edge_rel (Edges d))" for i
    using getl_nonempty_dom [of i "Edges d"]
    by (auto simp: geti_in_degrees [OF o(2)] edges_into_zero_iff)
  have "set (filter (\<lambda>i. geti ?deg i = 0) od) \<subseteq> fmdom' (Tasks d)"
    using od by (auto simp: ranges_def)
  then show ?thesis
    using wf_dag_keyed [OF assms(2)]
    by (simp add: GetRoots_def Let_def map_filter_lookup sort_key_task_at filter_sort_ranges [OF od] deg)
qed

text \<open>
  After the edges have been built from the dependencies, \<open>GetRoots\<close> returns, in the order
  of their IDs, exactly the tasks that have no dependencies.
\<close>

theorem GetRoots_no_dependencies:
  assumes "well_keyed (Tasks d)" and "deps_known (Tasks d)" and "ranges ord (Tasks d)"
    and "visit_orders ot oe od (fst (BuildEdgesFromDependencies ord d))"
  shows "GetRoots ot oe od (fst (BuildEdgesFromDependencies ord d)) =
    map (task_at (Tasks d))
      (filter (\<lambda>i. Dependencies (task_at (Tasks d) i) = []) (sorted_keys (Tasks d)))"
proof -
  have ok: "snd (BuildEdgesFromDependencies ord d) = None"
    using BuildEdges_ok_iff assms(2,3) by blast
  have "i \<notin> Range (dep_rel (Tasks d)) \<longleftrightarrow> Dependencies (task_at (Tasks d) i) = []"
    if "i \<in> fmdom' (Tasks d)" for i
    using that by (auto simp: dep_rel_iff Range_iff fmlookup_dom'_iff)
  then have "filter (\<lambda>i. i \<notin> Range (dep_rel (Tasks d))) (sorted_keys (Tasks d)) =
      filter (\<lambda>i. Dependencies (task_at (Tasks d) i) = []) (sorted_keys (Tasks d))"
    by (intro filter_cong) auto
  then show ?thesis
    by (simp add: GetRoots_spec [OF assms(4) BuildEdges_wf [OF assms(1)]]
        BuildEdges_edge_rel [OF assms(1,3) ok])
qed

lemma leaves_map:
  "fmlookup (fold (\<lambda>f m. if 0 < length (getl es f) then fmupd f True m else m) oe m) i =
     (if i \<in> set oe \<and> getl es i \<noteq> [] then Some True else fmlookup m i)"
  by (induction oe arbitrary: m) auto

text \<open>
  \<open>GetLeaves\<close> returns, in the order of their IDs, exactly the tasks with no outgoing edge,
  in whatever order the two maps are visited.
\<close>

theorem GetLeaves_correct:
  assumes "well_keyed (Tasks d)" and "ranges oe (Edges d)" and "ranges ot (Tasks d)"
  shows "GetLeaves oe ot d =
    map (task_at (Tasks d)) (filter (\<lambda>i. i \<notin> Domain (edge_rel (Edges d))) (sorted_keys (Tasks d)))"
proof -
  let ?down = "fold (\<lambda>f m. if 0 < length (getl (Edges d) f) then fmupd f True m else m) oe fmempty"
  have down: "fmlookup ?down i \<noteq> Some True \<longleftrightarrow> i \<notin> Domain (edge_rel (Edges d))" for i
  proof -
    have "fmlookup ?down i \<noteq> Some True \<longleftrightarrow> getl (Edges d) i = []"
      unfolding leaves_map using assms(2) getl_notin [of i "Edges d"] by (auto simp: ranges_def)
    also have "\<dots> \<longleftrightarrow> i \<notin> Domain (edge_rel (Edges d))"
      by (auto simp: Domain_iff)
    finally show ?thesis .
  qed
  have "set (filter (\<lambda>i. i \<notin> Domain (edge_rel (Edges d))) ot) \<subseteq> fmdom' (Tasks d)"
    using assms(3) by (auto simp: ranges_def)
  then show ?thesis
    unfolding GetLeaves_def Let_def down
    by (simp add: map_filter_lookup sort_key_task_at [OF assms(1)] filter_sort_ranges [OF assms(3)])
qed

section \<open>The walk visits what can be reached\<close>

definition vis :: "walk_state \<Rightarrow> string set" where
  "vis s = {x. visited s x}"

text \<open>
  From \<open>s\<close> to \<open>s'\<close>: nodes are only added, each new node is in \<open>A\<close> and has all its successors
  visited, and \<open>result\<close> grew by the tasks of the new nodes, once each.
\<close>

definition walk_post :: "tasks \<Rightarrow> edges \<Rightarrow> string set \<Rightarrow> walk_state \<Rightarrow> walk_state \<Rightarrow> bool" where
  "walk_post ts es A s s' \<longleftrightarrow>
     vis s \<subseteq> vis s' \<and> (\<forall>x \<in> vis s' - vis s. x \<in> A \<and> set (getl es x) \<subseteq> vis s') \<and>
     (\<exists>new. result s' = result s @ map (fmlookup ts) new \<and> distinct new \<and> set new = vis s' - vis s)"

lemma walk_post_refl: "walk_post ts es A s s"
  by (simp add: walk_post_def)

lemma walk_post_mono: "walk_post ts es A s s' \<Longrightarrow> A \<subseteq> B \<Longrightarrow> walk_post ts es B s s'"
  unfolding walk_post_def by blast

lemma walk_post_trans:
  assumes "walk_post ts es A s t" "walk_post ts es A t u"
  shows "walk_post ts es A s u"
proof -
  obtain n1 n2 where "result t = result s @ map (fmlookup ts) n1" "distinct n1" "set n1 = vis t - vis s"
    "result u = result t @ map (fmlookup ts) n2" "distinct n2" "set n2 = vis u - vis t"
    using assms by (auto simp: walk_post_def)
  moreover have "vis s \<subseteq> vis t" "vis t \<subseteq> vis u" using assms by (auto simp: walk_post_def)
  ultimately have "result u = result s @ map (fmlookup ts) (n1 @ n2)" "distinct (n1 @ n2)"
    "set (n1 @ n2) = vis u - vis s" by auto
  then show ?thesis
    using assms unfolding walk_post_def by blast
qed

text \<open>Marking one node whose successors are visited by the end.\<close>

lemma walk_post_mark:
  assumes "\<not> visited s x" "x \<in> A" "set (getl es x) \<subseteq> vis s'"
    and "walk_post ts es A (s\<lparr>visited := (visited s)(x := True), result := result s @ [fmlookup ts x]\<rparr>) s'"
      (is "walk_post ts es A ?m s'")
  shows "walk_post ts es A s s'"
proof -
  have m: "vis ?m = insert x (vis s)" "x \<notin> vis s" using assms(1) by (auto simp: vis_def)
  obtain new where "result s' = result ?m @ map (fmlookup ts) new" "distinct new"
    "set new = vis s' - vis ?m"
    using assms(4) by (auto simp: walk_post_def)
  moreover have sub: "insert x (vis s) \<subseteq> vis s'" using assms(4) m(1) by (simp add: walk_post_def)
  ultimately have "result s' = result s @ map (fmlookup ts) (x # new)" "distinct (x # new)"
    "set (x # new) = vis s' - vis s" using m by auto
  moreover have "y \<in> A \<and> set (getl es y) \<subseteq> vis s'" if "y \<in> vis s' - vis s" for y
    using that assms(2-4) m(1) by (cases "y = x") (simp_all add: walk_post_def)
  ultimately show ?thesis
    using sub unfolding walk_post_def by (intro conjI exI [of _ "x # new"]) auto
qed

text \<open>An unseen node is marked and searched, then the rest of the loop runs.\<close>

lemma visit_unseen:
  assumes "\<not> visited s nxt"
    and t: "walk n ts es nxt (s\<lparr>visited := (visited s)(nxt := True), result := result s @ [fmlookup ts nxt]\<rparr>) = Some t"
      "walk_post ts es ((edge_rel es)\<^sup>+ `` {nxt})
        (s\<lparr>visited := (visited s)(nxt := True), result := result s @ [fmlookup ts nxt]\<rparr>) t" "set (getl es nxt) \<subseteq> vis t"
    and u: "walk_loop n ts es ns t = Some u" "walk_post ts es ((edge_rel es)\<^sup>* `` set ns) t u" "set ns \<subseteq> vis u"
  shows "\<exists>s'. walk_loop n ts es (nxt # ns) s = Some s' \<and>
    walk_post ts es ((edge_rel es)\<^sup>* `` set (nxt # ns)) s s' \<and> set (nxt # ns) \<subseteq> vis s'"
proof -
  let ?A = "(edge_rel es)\<^sup>* `` set (nxt # ns)"
  let ?m = "s\<lparr>visited := (visited s)(nxt := True), result := result s @ [fmlookup ts nxt]\<rparr>"
  have "walk_post ts es ?A ?m t"
    by (rule walk_post_mono [OF t(2)]) (auto simp: trancl_into_rtrancl)
  then have "walk_post ts es ?A s t"
    by (rule walk_post_mark [where x = nxt, OF assms(1) _ t(3), rotated]) auto
  moreover have "walk_post ts es ?A t u" by (rule walk_post_mono [OF u(2)]) auto
  ultimately have "walk_post ts es ?A s u" by (rule walk_post_trans)
  moreover have "nxt \<in> vis u" using t(2) u(2) by (auto simp: walk_post_def vis_def)
  ultimately show ?thesis using assms(1) t(1) u by auto
qed

lemma walk_total:
  shows "finite U \<Longrightarrow> (\<And>u. set (getl es u) \<subseteq> U) \<Longrightarrow> card (U - vis s) < n \<Longrightarrow>
      \<exists>s'. walk n ts es i s = Some s' \<and> walk_post ts es ((edge_rel es)\<^sup>+ `` {i}) s s' \<and>
           set (getl es i) \<subseteq> vis s'"
    and "finite U \<Longrightarrow> (\<And>u. set (getl es u) \<subseteq> U) \<Longrightarrow> card (U - vis s) \<le> n \<Longrightarrow> set ns \<subseteq> U \<Longrightarrow>
      \<exists>s'. walk_loop n ts es ns s = Some s' \<and> walk_post ts es ((edge_rel es)\<^sup>* `` set ns) s s' \<and>
           set ns \<subseteq> vis s'"
proof (induction n ts es i s and n ts es ns s rule: walk_walk_loop.induct)
  case (1 ts es i s)
  then show ?case by simp
next
  case (2 n ts es i s)
  then have "card (U - vis s) \<le> n" by simp
  from "2.IH" [OF "2.prems"(1,2) this "2.prems"(2)] obtain s' where s': "walk_loop n ts es (getl es i) s = Some s'"
      "walk_post ts es ((edge_rel es)\<^sup>* `` set (getl es i)) s s'" "set (getl es i) \<subseteq> vis s'"
    by blast
  have "(edge_rel es)\<^sup>* `` set (getl es i) \<subseteq> (edge_rel es)\<^sup>+ `` {i}"
    by (auto intro: rtrancl_into_trancl2)
  then show ?case using s' by (auto intro: walk_post_mono)
next
  case (3 n ts es s)
  then show ?case by (auto intro: walk_post_refl)
next
  case (4 n ts es nxt ns s)
  show ?case
  proof (cases "visited s nxt")
    case True
    have "set ns \<subseteq> U" using "4.prems"(4) by simp
    from "4.IH"(1) [OF True "4.prems"(1,2,3) this]
    obtain s' where s': "walk_loop n ts es ns s = Some s'"
        "walk_post ts es ((edge_rel es)\<^sup>* `` set ns) s s'" "set ns \<subseteq> vis s'" by blast
    moreover have "nxt \<in> vis s'" using True s'(2) by (auto simp: walk_post_def vis_def)
    moreover have "walk_post ts es ((edge_rel es)\<^sup>* `` set (nxt # ns)) s s'"
      by (rule walk_post_mono [OF s'(2)]) auto
    ultimately show ?thesis using True by simp
  next
    case False
    let ?m = "s\<lparr>visited := (visited s)(nxt := True), result := result s @ [fmlookup ts nxt]\<rparr>"
    have m: "vis ?m = insert nxt (vis s)" "nxt \<notin> vis s" using False by (auto simp: vis_def)
    have "card (U - vis ?m) < card (U - vis s)"
      using m "4.prems"(1,4) by (intro psubset_card_mono) auto
    then obtain t where t: "walk n ts es nxt ?m = Some t"
        "walk_post ts es ((edge_rel es)\<^sup>+ `` {nxt}) ?m t" "set (getl es nxt) \<subseteq> vis t"
      using "4.IH"(2) [OF False "4.prems"(1,2)] "4.prems"(3) by auto
    have sub: "vis ?m \<subseteq> vis t" using t(2) by (simp add: walk_post_def)
    then have "card (U - vis t) \<le> n"
      using m "4.prems"(1,3) by (intro order_trans [OF card_mono "4.prems"(3)]) auto
    then obtain u where u: "walk_loop n ts es ns t = Some u"
        "walk_post ts es ((edge_rel es)\<^sup>* `` set ns) t u" "set ns \<subseteq> vis u"
      using "4.IH"(3) [OF False t(1) "4.prems"(1,2)] "4.prems"(4) by auto
    from False t u show ?thesis by (rule visit_unseen)
  qed
qed

text \<open>From a fresh state, exactly the nodes at the end of a nonempty path are visited.\<close>

lemma closed_trancl:
  assumes "R `` {i} \<subseteq> V" "\<And>x. x \<in> V \<Longrightarrow> R `` {x} \<subseteq> V"
  shows "R\<^sup>+ `` {i} \<subseteq> V"
proof -
  have "y \<in> V" if "(i, y) \<in> R\<^sup>+" for y
    using that by induction (use assms in blast)+
  then show ?thesis by auto
qed

lemma finite_targets:
  "finite (\<Union>u \<in> fmdom' es. set (getl es u))"
  "set (getl es u) \<subseteq> (\<Union>u \<in> fmdom' es. set (getl es u))"
  by (auto intro: getl_nonempty_dom)

lemma walk_reaches:
  "\<exists>s ids. walk (walk_fuel es) ts es i walk_start = Some s \<and>
     result s = map (fmlookup ts) ids \<and> distinct ids \<and> set ids = (edge_rel es)\<^sup>+ `` {i}"
proof -
  let ?U = "\<Union>u \<in> fmdom' es. set (getl es u)"
  have v: "vis walk_start = {}" "result walk_start = []" by (simp_all add: vis_def walk_start_def)
  have "card (?U - vis walk_start) < walk_fuel es"
    by (simp add: v walk_fuel_def fcard.rep_eq fset_all_targets)
  from walk_total(1) [OF finite_targets this, of ts i]
  obtain s where s: "walk (walk_fuel es) ts es i walk_start = Some s"
      "walk_post ts es ((edge_rel es)\<^sup>+ `` {i}) walk_start s" "set (getl es i) \<subseteq> vis s" by blast
  then obtain ids where ids: "result s = map (fmlookup ts) ids" "distinct ids" "set ids = vis s"
    by (auto simp: walk_post_def v)
  have "(edge_rel es)\<^sup>+ `` {i} \<subseteq> vis s"
  proof (rule closed_trancl)
    show "edge_rel es `` {i} \<subseteq> vis s" using s(3) by auto
    show "edge_rel es `` {x} \<subseteq> vis s" if "x \<in> vis s" for x
      using that s(2) unfolding walk_post_def v by auto blast
  qed
  moreover have "vis s \<subseteq> (edge_rel es)\<^sup>+ `` {i}"
    using s(2) by (auto simp: walk_post_def v)
  ultimately show ?thesis using s(1) ids by blast
qed

text \<open>Sorting the tasks found, none of them nil, is sorting their IDs.\<close>

lemma sort_by_ID_lookup:
  assumes "well_keyed ts" "set ids \<subseteq> fmdom' ts"
  shows "sort_by_ID (map (fmlookup ts) ids) = Ret (map (fmlookup ts) (sort ids))"
proof -
  have "None \<notin> set (map (fmlookup ts) ids)"
    using assms(2) by (auto simp: fmlookup_dom'_iff dest: subsetD)
  moreover have "sort_key (\<lambda>x. case x of None \<Rightarrow> '''' | Some t \<Rightarrow> task_ID t) (map (fmlookup ts) ids) =
      map (fmlookup ts) (sort ids)"
  proof (rule sort_key_map_inverse)
    fix k assume "k \<in> set ids"
    then have "k \<in> fmdom' ts" using assms(2) by blast
    then obtain t where "fmlookup ts k = Some t" by (auto simp: fmlookup_dom'_iff)
    then show "(case fmlookup ts k of None \<Rightarrow> '''' | Some t \<Rightarrow> task_ID t) = k"
      using well_keyedD [OF assms(1)] by simp
  qed
  ultimately show ?thesis by (simp add: sort_by_ID_def)
qed

text \<open>
  \<open>GetDownstream\<close> always returns on a well-formed DAG, and returns every task that can be
  reached from the given one along one edge or more, once each and in the order of the IDs.
\<close>

theorem GetDownstream_correct:
  assumes "wf_dag d"
  shows "\<exists>ids. GetDownstream d i = Ret (map (fmlookup (Tasks d)) ids) \<and>
           set ids = {y. (i, y) \<in> (edge_rel (Edges d))\<^sup>+} \<and> sorted ids \<and> distinct ids \<and>
           set ids \<subseteq> fmdom' (Tasks d)"
proof -
  obtain s ids where s: "walk (walk_fuel (Edges d)) (Tasks d) (Edges d) i walk_start = Some s"
      "result s = map (fmlookup (Tasks d)) ids" "distinct ids" "set ids = (edge_rel (Edges d))\<^sup>+ `` {i}"
    using walk_reaches by blast
  have "set ids \<subseteq> fmdom' (Tasks d)"
    using wf_dag_closed [OF assms] trancl_range [of "edge_rel (Edges d)"]
    unfolding s(4) by (auto simp: edges_closed_iff elim: tranclE)
  then show ?thesis
    using s sort_by_ID_lookup [OF wf_dag_keyed [OF assms], of ids]
    by (intro exI [of _ "sort ids"]) (auto simp: GetDownstream_def)
qed

section \<open>Reversed edges\<close>

lemma set_getl_reverse_inner:
  "set (getl (fold (\<lambda>t m. appendl m t f) tos m) x) = set (getl m x) \<union> {y. y = f \<and> x \<in> set tos}"
  by (induction tos arbitrary: m) (auto simp: go_simps)

lemma set_getl_reverse:
  "set (getl (fold (\<lambda>f m. fold (\<lambda>t m. appendl m t f) (getl es f) m) oe m) x) =
     set (getl m x) \<union> {f \<in> set oe. x \<in> set (getl es f)}"
  by (induction oe arbitrary: m) (auto simp: set_getl_reverse_inner)

lemma edge_rel_reverse: "ranges oe es \<Longrightarrow> edge_rel (reverse_edges oe es) = (edge_rel es)\<inverse>"
  using getl_nonempty_dom [of _ es]
  by (auto simp: reverse_edges_def set_getl_reverse ranges_def getl_empty)

text \<open>
  \<open>GetUpstream\<close> is the converse of \<open>GetDownstream\<close>: it returns exactly the tasks from
  which the given one can be reached, once each, in the order of the IDs, whatever order the
  edge map is visited in when it is reversed.
\<close>

theorem GetUpstream_correct:
  assumes "wf_dag d" and "ranges oe (Edges d)"
  shows "\<exists>ids. GetUpstream oe d i = Ret (map (fmlookup (Tasks d)) ids) \<and>
           set ids = {y. (y, i) \<in> (edge_rel (Edges d))\<^sup>+} \<and> sorted ids \<and> distinct ids \<and>
           set ids \<subseteq> fmdom' (Tasks d)"
proof -
  let ?rev = "reverse_edges oe (Edges d)"
  obtain s ids where s: "walk (walk_fuel ?rev) (Tasks d) ?rev i walk_start = Some s"
      "result s = map (fmlookup (Tasks d)) ids" "distinct ids" "set ids = (edge_rel ?rev)\<^sup>+ `` {i}"
    using walk_reaches by blast
  have ids: "set ids = {y. (y, i) \<in> (edge_rel (Edges d))\<^sup>+}"
    unfolding s(4) edge_rel_reverse [OF assms(2)] trancl_converse by auto
  have "set ids \<subseteq> fmdom' (Tasks d)"
    using wf_dag_closed [OF assms(1)] getl_nonempty_dom [of _ "Edges d"]
    unfolding ids by (auto simp: edges_closed_iff dest!: tranclD)
  then show ?thesis
    using s ids sort_by_ID_lookup [OF wf_dag_keyed [OF assms(1)], of ids]
    by (intro exI [of _ "sort ids"]) (auto simp: GetUpstream_def Let_def)
qed

section \<open>Ready tasks\<close>

definition is_ready :: "(string, status) fmap \<Rightarrow> task \<Rightarrow> bool" where
  "is_ready st t \<longleftrightarrow> get_status st (task_ID t) = StatusPending \<and>
     (\<forall>dep \<in> set (Dependencies t). get_status st dep = StatusSuccess)"

lemma all_deps_complete_iff:
  "all_deps_complete st deps \<longleftrightarrow> (\<forall>dep \<in> set deps. get_status st dep = StatusSuccess)"
  by (induction deps) auto

lemma ready_loop_filter:
  "ready_loop st ts ks ready = ready @ filter (is_ready st) (List.map_filter (fmlookup ts) ks)"
  by (induction ks arbitrary: ready)
     (auto simp: List.map_filter_def is_ready_def all_deps_complete_iff split: option.splits)

lemma ready_loop_tasks:
  "ranges ord ts \<Longrightarrow>
     ready_loop st ts ord [] = map (task_at ts) (filter (\<lambda>k. is_ready st (task_at ts k)) ord)"
  by (simp add: ready_loop_filter map_filter_lookup ranges_def filter_map comp_def)

lemma inj_ready_key:
  "well_keyed ts \<Longrightarrow> A \<subseteq> fmdom' ts \<Longrightarrow>
     inj_on (\<lambda>t. (- Priority t, task_ID t)) (task_at ts ` A)"
  by (rule inj_onI) (metis (no_types, lifting) imageE prod.inject subsetD task_at_ID)

lemma set_ReadyTasks:
  "ranges ord (Tasks d) \<Longrightarrow>
     set (ReadyTasks ord d st) = {t. is_ready st t \<and> (\<exists>k. fmlookup (Tasks d) k = Some t)}"
  by (auto simp: ReadyTasks_def ready_loop_tasks ranges_def fmlookup_dom'_iff image_iff)
     (metis option.sel)

lemma ReadyTasks_order:
  assumes "well_keyed (Tasks d)" "ranges o1 (Tasks d)" "ranges o2 (Tasks d)"
  shows "ReadyTasks o1 d st = ReadyTasks o2 d st"
  unfolding ReadyTasks_def
proof (rule sort_key_mset_eq)
  have m: "mset o1 = mset o2" using assms(2,3) by (rule ranges_mset)
  then show "mset (ready_loop st (Tasks d) o1 []) = mset (ready_loop st (Tasks d) o2 [])"
    by (simp add: ready_loop_tasks assms)
  have "inj_on (\<lambda>t. (- Priority t, task_ID t))
      (task_at (Tasks d) ` {k \<in> fmdom' (Tasks d). is_ready st (task_at (Tasks d) k)})"
    by (rule inj_ready_key [OF assms(1)]) auto
  then show "inj_on (\<lambda>t. (- Priority t, task_ID t)) (set (ready_loop st (Tasks d) o1 []))"
    using assms(2) by (simp add: ready_loop_tasks ranges_set)
qed

lemma distinct_ReadyTasks:
  assumes "well_keyed (Tasks d)" "ranges ord (Tasks d)"
  shows "distinct (map task_ID (ReadyTasks ord d st))"
proof -
  let ?ks = "filter (\<lambda>k. is_ready st (task_at (Tasks d) k)) ord"
  have "map task_ID (map (task_at (Tasks d)) ?ks) = ?ks"
    using assms task_at_ID by (auto simp: ranges_def intro!: map_idI)
  then have "distinct (map task_ID (ready_loop st (Tasks d) ord []))"
    unfolding ready_loop_tasks [OF assms(2)] using assms(2) by (auto simp: ranges_def)
  moreover have "mset (map task_ID (ReadyTasks ord d st)) =
      mset (map task_ID (ready_loop st (Tasks d) ord []))"
    by (simp add: ReadyTasks_def)
  ultimately show ?thesis by (metis mset_eq_imp_distinct_iff)
qed

lemma sorted_ReadyTasks:
  "sorted_wrt (\<lambda>s t. Priority t < Priority s \<or> Priority s = Priority t \<and> task_ID s \<le> task_ID t)
     (ReadyTasks ord d st)"
proof -
  have "sorted (map (\<lambda>t. (- Priority t, task_ID t)) (ReadyTasks ord d st))"
    by (simp add: ReadyTasks_def)
  then show ?thesis
    by (simp add: sorted_map) (erule sorted_wrt_mono_rel [rotated], auto simp: less_eq_prod_def)
qed

text \<open>
  C10. \<open>ReadyTasks\<close> returns exactly the pending tasks whose dependencies have all succeeded (a
  task without an entry in the status map counts as pending), each once, those of higher
  priority first and equal priorities in the order of the IDs; the order in which the map of
  tasks is visited makes no difference.
\<close>

theorem ReadyTasks_correct:
  assumes "well_keyed (Tasks d)" and "ranges ord (Tasks d)"
  shows "set (ReadyTasks ord d st) =
      {t. (\<exists>k. fmlookup (Tasks d) k = Some t) \<and> get_status st (task_ID t) = StatusPending \<and>
          (\<forall>dep \<in> set (Dependencies t). get_status st dep = StatusSuccess)} \<and>
    distinct (map task_ID (ReadyTasks ord d st)) \<and>
    sorted_wrt (\<lambda>s t. Priority t < Priority s \<or> Priority s = Priority t \<and> task_ID s \<le> task_ID t)
      (ReadyTasks ord d st) \<and>
    ReadyTasks ord d st = ReadyTasks (sorted_keys (Tasks d)) d st"
proof (intro conjI)
  show "set (ReadyTasks ord d st) =
      {t. (\<exists>k. fmlookup (Tasks d) k = Some t) \<and> get_status st (task_ID t) = StatusPending \<and>
          (\<forall>dep \<in> set (Dependencies t). get_status st dep = StatusSuccess)}"
    unfolding set_ReadyTasks [OF assms(2)] is_ready_def by blast
  show "ReadyTasks ord d st = ReadyTasks (sorted_keys (Tasks d)) d st"
    using assms ranges_sorted_keys by (rule ReadyTasks_order)
qed (rule distinct_ReadyTasks [OF assms] sorted_ReadyTasks)+

lemma deps_knownD:
  "deps_known ts \<Longrightarrow> fmlookup ts v = Some t \<Longrightarrow> u \<in> set (Dependencies t) \<Longrightarrow> u \<in> fmdom' ts"
  unfolding deps_known_def by (drule fmpredD) auto

lemma dep_relD: "deps_known ts \<Longrightarrow> (u, v) \<in> dep_rel ts \<Longrightarrow> u \<in> fmdom' ts \<and> v \<in> fmdom' ts"
  unfolding dep_rel_iff by (blast intro: fmdom'I deps_knownD)

text \<open>
  A task with \<open>P\<close> among the tasks that \<open>k\<close> depends on, directly or not, and \<open>k\<close> itself, whose own
  dependencies all lack \<open>P\<close>.
\<close>

lemma dep_minimal:
  assumes "acyclic (dep_rel ts)" "deps_known ts" "k \<in> fmdom' ts" "P k"
  shows "\<exists>m t. fmlookup ts m = Some t \<and> (m, k) \<in> (dep_rel ts)\<^sup>* \<and> P m \<and> (\<forall>dep \<in> set (Dependencies t). \<not> P dep)"
proof -
  have "dep_rel ts \<subseteq> fmdom' ts \<times> fmdom' ts"
    using dep_relD [OF assms(2)] by (intro subrelI SigmaI) simp_all
  then have "finite (dep_rel ts)" by (rule finite_subset) simp
  then have "wf (dep_rel ts)" using assms(1) by (rule finite_acyclic_wf)
  moreover have "k \<in> {y. (y, k) \<in> (dep_rel ts)\<^sup>* \<and> P y}" using assms(4) by simp
  ultimately obtain m where "m \<in> {y. (y, k) \<in> (dep_rel ts)\<^sup>* \<and> P y}"
      "\<And>y. (y, m) \<in> dep_rel ts \<Longrightarrow> y \<notin> {y. (y, k) \<in> (dep_rel ts)\<^sup>* \<and> P y}"
    by (rule wfE_min) (rule that)
  then have m: "(m, k) \<in> (dep_rel ts)\<^sup>*" "P m" "\<And>y. (y, m) \<in> dep_rel ts \<Longrightarrow> \<not> P y"
    by (auto intro: converse_rtrancl_into_rtrancl)
  have "m \<in> fmdom' ts"
    using m(1) assms(3) by (cases rule: converse_rtranclE) (auto dest: dep_relD [OF assms(2)])
  then obtain t where t: "fmlookup ts m = Some t" by (auto simp: fmlookup_dom'_iff)
  moreover have "\<forall>dep \<in> set (Dependencies t). \<not> P dep"
    using m(3) t unfolding dep_rel_iff by blast
  ultimately show ?thesis using m(1,2) by blast
qed

lemma ReadyTasks_upstream:
  assumes "well_keyed (Tasks d)" "deps_known (Tasks d)" "acyclic (dep_rel (Tasks d))"
    and "ranges ord (Tasks d)"
    and "k \<in> fmdom' (Tasks d)" "get_status st k = StatusPending"
    and "\<And>m. (m, k) \<in> (dep_rel (Tasks d))\<^sup>+ \<Longrightarrow> get_status st m \<in> {StatusPending, StatusSuccess}"
  shows "\<exists>t \<in> set (ReadyTasks ord d st). (task_ID t, k) \<in> (dep_rel (Tasks d))\<^sup>*"
proof -
  obtain m t where t: "fmlookup (Tasks d) m = Some t" "(m, k) \<in> (dep_rel (Tasks d))\<^sup>*" "get_status st m \<noteq> StatusSuccess"
      "\<forall>dep \<in> set (Dependencies t). get_status st dep = StatusSuccess"
    using dep_minimal [of "Tasks d" k "\<lambda>k. get_status st k \<noteq> StatusSuccess"] assms by auto
  moreover have "task_ID t = m" using well_keyedD [OF assms(1) t(1)] by simp
  moreover have "get_status st m = StatusPending"
    using assms(6,7) t(2,3) by (auto simp: rtrancl_eq_or_trancl)
  ultimately have "t \<in> set (ReadyTasks ord d st)"
    by (auto simp: set_ReadyTasks [OF assms(4)] is_ready_def)
  then show ?thesis using t(2) \<open>task_ID t = m\<close> by blast
qed

text \<open>
  C33. Progress: in a DAG whose dependencies are tasks and have no cycle, a pending task is never blocked for good by
  tasks that are pending or successful: if everything it depends on, directly or not, is one or the other, then
  the task itself or one of those it depends on is ready. In particular some task is ready as long as every task is
  pending or successful and one is pending. (A running or failed task further up may block it, and
  then nothing needs to be ready.)
\<close>

theorem ReadyTasks_progress:
  assumes "well_keyed (Tasks d)" and "deps_known (Tasks d)" and "acyclic (dep_rel (Tasks d))"
    and "ranges ord (Tasks d)"
    and "k \<in> fmdom' (Tasks d)" and "get_status st k = StatusPending"
    and "\<And>m. (m, k) \<in> (dep_rel (Tasks d))\<^sup>+ \<Longrightarrow> get_status st m \<in> {StatusPending, StatusSuccess}"
  shows "\<exists>t \<in> set (ReadyTasks ord d st). (task_ID t, k) \<in> (dep_rel (Tasks d))\<^sup>*"
  using assms by (rule ReadyTasks_upstream)

section \<open>Examples\<close>

lemma diamond_start_facts:
  "well_keyed (Tasks diamond_start)" "deps_known (Tasks diamond_start)"
  "ranges diamond_ids (Tasks diamond_start)" "Tasks diamond_start = diamond_tasks"
  by code_simp+

lemma acyclic_diamond: "acyclic (dep_rel (Tasks diamond_start))"
proof -
  have "DetectCycle diamond_ids diamond = Ret []" by code_simp
  then have "acyclic (edge_rel (Edges diamond))"
    using DetectCycle_spec [OF diamond_facts(1,2)] by simp
  moreover have "edge_rel (Edges diamond) = dep_rel (Tasks diamond_start)"
    unfolding diamond_def by (rule BuildEdges_edge_rel) code_simp+
  ultimately show ?thesis by simp
qed

lemma GetRoots_no_dependencies_witness:
  "GetRoots diamond_ids [''c'', ''b'', ''a''] diamond_ids diamond =
     map (task_at (Tasks diamond_start))
       (filter (\<lambda>i. Dependencies (task_at (Tasks diamond_start) i) = []) (sorted_keys (Tasks diamond_start)))"
  unfolding diamond_def by (rule GetRoots_no_dependencies) code_simp+

lemma GetLeaves_correct_witness:
  "GetLeaves [''c'', ''b'', ''a''] diamond_ids diamond =
     map (task_at (Tasks diamond))
       (filter (\<lambda>i. i \<notin> Domain (edge_rel (Edges diamond))) (sorted_keys (Tasks diamond)))"
  by (rule GetLeaves_correct) (code_simp+)

lemma GetDownstream_correct_witness:
  "\<exists>ids. GetDownstream diamond ''b'' = Ret (map (fmlookup (Tasks diamond)) ids) \<and>
     set ids = {y. (''b'', y) \<in> (edge_rel (Edges diamond))\<^sup>+} \<and> sorted ids \<and> distinct ids \<and>
     set ids \<subseteq> fmdom' (Tasks diamond)"
  by (rule GetDownstream_correct) (rule diamond_facts)

lemma GetUpstream_correct_witness:
  "\<exists>ids. GetUpstream [''b'', ''c'', ''a''] diamond ''d'' = Ret (map (fmlookup (Tasks diamond)) ids) \<and>
     set ids = {y. (y, ''d'') \<in> (edge_rel (Edges diamond))\<^sup>+} \<and> sorted ids \<and> distinct ids \<and>
     set ids \<subseteq> fmdom' (Tasks diamond)"
  by (rule GetUpstream_correct) code_simp+

lemma ReadyTasks_correct_witness:
  "map task_ID (ReadyTasks diamond_ids diamond_start (fmap_of_list [(''a'', StatusSuccess)])) =
     [''b'', ''c''] \<and>
   distinct (map task_ID
     (ReadyTasks diamond_ids diamond_start (fmap_of_list [(''a'', StatusSuccess)])))"
proof (rule conjI)
  show "map task_ID (ReadyTasks diamond_ids diamond_start (fmap_of_list [(''a'', StatusSuccess)])) =
     [''b'', ''c'']" by code_simp
qed (use ReadyTasks_correct [OF diamond_start_facts(1,3)] in blast)

text \<open>Task \<open>b\<close> is running, which \<open>c\<close> does not depend on: \<open>c\<close>, the only way on from \<open>a\<close>, is ready.\<close>

lemma ReadyTasks_progress_witness:
  "\<exists>t \<in> set (ReadyTasks diamond_ids diamond_start (fmap_of_list [(''a'', StatusSuccess), (''b'', StatusRunning)])).
     (task_ID t, ''c'') \<in> (dep_rel (Tasks diamond_start))\<^sup>*"
proof (rule ReadyTasks_progress)
  show "well_keyed (Tasks diamond_start)" "deps_known (Tasks diamond_start)"
    "ranges diamond_ids (Tasks diamond_start)" by (rule diamond_start_facts)+
  show "acyclic (dep_rel (Tasks diamond_start))" by (rule acyclic_diamond)
  let ?st = "fmap_of_list [(''a'', StatusSuccess), (''b'', StatusRunning)]"
  show "''c'' \<in> fmdom' (Tasks diamond_start)" "get_status ?st ''c'' = StatusPending" by code_simp+
  have deps: "(m, ''c'') \<in> dep_rel (Tasks diamond_start) \<longleftrightarrow> m = ''a''" "(m, ''a'') \<notin> dep_rel (Tasks diamond_start)" for m
  proof -
    have "fmlookup (Tasks diamond_start) ''c'' \<noteq> None \<and> Dependencies (task_at (Tasks diamond_start) ''c'') = [''a'']"
      "fmlookup (Tasks diamond_start) ''a'' \<noteq> None \<and> Dependencies (task_at (Tasks diamond_start) ''a'') = []"
      by code_simp+
    then show "(m, ''c'') \<in> dep_rel (Tasks diamond_start) \<longleftrightarrow> m = ''a''" "(m, ''a'') \<notin> dep_rel (Tasks diamond_start)"
      by (auto simp: dep_rel_iff)
  qed
  have "get_status ?st ''a'' = StatusSuccess" by code_simp
  then show "get_status ?st m \<in> {StatusPending, StatusSuccess}" if "(m, ''c'') \<in> (dep_rel (Tasks diamond_start))\<^sup>+" for m
    using that deps by (metis insertI1 insertI2 tranclE)
qed

end
