(* ===== verification/Store.thy ===== *)
theory Store
  imports Dag_Model
begin

text \<open>
  \<^verbatim>\<open>pkg/store/store.go\<close> and \<^verbatim>\<open>pkg/store/memory.go\<close>: the records for runs and task instances, the
  interface \<^verbatim>\<open>Store\<close> as a record of operations over an arbitrary state, and its implementation
  \<^verbatim>\<open>MemoryStore\<close> over four maps. Values are copied in and out of the maps, as the code copies
  the structs (its copies of a DAG share the inner maps of the tasks, which nothing here mutates). The
  mutex makes each operation one step. Contexts are ignored by \<^verbatim>\<open>MemoryStore\<close>.
\<close>

section \<open>Records\<close>

record dag_run =
  run_ID :: string
  run_DAGID :: string
  run_Status :: status
  run_Params :: "(string, string) fmap"
  run_StartTime :: time
  run_EndTime :: time
  run_CreatedAt :: time
  run_UpdatedAt :: time

record task_instance =
  ti_ID :: string
  ti_RunID :: string
  ti_TaskID :: string
  ti_DAGID :: string
  ti_Status :: status
  Attempt :: int
  WorkerID :: string
  ti_Output :: string
  ti_Error :: string
  ti_StartTime :: time
  ti_EndTime :: time
  QueuedAt :: time
  IdempotencyKey :: string

record dag_filter =
  df_Tags :: "string list"
  df_Owner :: string
  df_Limit :: int

record run_filter =
  rf_DAGID :: string
  rf_Status :: "status option"
  rf_Limit :: int
  rf_Offset :: int

text \<open>
  The interface. An operation that writes returns the new state, and with it the argument where
  the code writes through the caller's pointer.
\<close>

record 's store_ops =
  op_SaveDAG :: "dag \<Rightarrow> 's \<Rightarrow> err + dag \<times> 's"
  op_GetDAG :: "string \<Rightarrow> 's \<Rightarrow> err + dag"
  op_ListDAGs :: "dag_filter \<Rightarrow> 's \<Rightarrow> err + dag list"
  op_DeleteDAG :: "string \<Rightarrow> 's \<Rightarrow> err + 's"
  op_CreateRun :: "dag_run \<Rightarrow> 's \<Rightarrow> err + dag_run \<times> 's"
  op_GetRun :: "string \<Rightarrow> 's \<Rightarrow> err + dag_run"
  op_UpdateRun :: "dag_run \<Rightarrow> 's \<Rightarrow> err + dag_run \<times> 's"
  op_ListRuns :: "run_filter \<Rightarrow> 's \<Rightarrow> err + dag_run list"
  op_CreateTaskInstance :: "task_instance \<Rightarrow> 's \<Rightarrow> err + 's"
  op_GetTaskInstance :: "string \<Rightarrow> 's \<Rightarrow> err + task_instance"
  op_UpdateTaskInstance :: "task_instance \<Rightarrow> 's \<Rightarrow> err + 's"
  op_ListTaskInstances :: "string \<Rightarrow> 's \<Rightarrow> err + task_instance list"
  op_GetTaskInstanceByIdempotencyKey :: "string \<Rightarrow> 's \<Rightarrow> err + task_instance"
  op_Ping :: "'s \<Rightarrow> err option"
  op_Close :: "'s \<Rightarrow> err option"

section \<open>MemoryStore\<close>

record memory_store =
  dags :: "(string, dag) fmap"
  runs :: "(string, dag_run) fmap"
  taskInstances :: "(string, task_instance) fmap"
  idempotencyIdx :: "(string, string) fmap"

definition NewMemoryStore :: memory_store where
  "NewMemoryStore =
     \<lparr>dags = fmempty, runs = fmempty, taskInstances = fmempty, idempotencyIdx = fmempty\<rparr>"

definition SaveDAG :: "time \<Rightarrow> dag \<Rightarrow> memory_store \<Rightarrow> err + dag \<times> memory_store" where
  "SaveDAG now d s =
     (let d = d\<lparr>dag_UpdatedAt := now\<rparr>;
          d = (if dag_CreatedAt d = 0 then d\<lparr>dag_CreatedAt := dag_UpdatedAt d\<rparr> else d)
      in Inr (d, s\<lparr>dags := fmupd (dag_ID d) d (dags s)\<rparr>))"

definition GetDAG :: "string \<Rightarrow> memory_store \<Rightarrow> err + dag" where
  "GetDAG i s =
     (case fmlookup (dags s) i of
        None \<Rightarrow> Inl (Err ''DAG %q not found'' [FStr i])
      | Some d \<Rightarrow> Inr d)"

text \<open>The two nested loops over the tags, left by \<^verbatim>\<open>break\<close> at the first match.\<close>

fun tag_in :: "string \<Rightarrow> string list \<Rightarrow> bool" where
  "tag_in ft [] = False"
| "tag_in ft (dt # dts) = (if ft = dt then True else tag_in ft dts)"

fun tags_matched :: "string list \<Rightarrow> string list \<Rightarrow> bool" where
  "tags_matched [] dts = False"
| "tags_matched (ft # fts) dts = (if tag_in ft dts then True else tags_matched fts dts)"

definition dag_passes :: "dag_filter \<Rightarrow> dag \<Rightarrow> bool" where
  "dag_passes f d =
     (if 0 < length (df_Tags f) \<and> \<not> tags_matched (df_Tags f) (Tags (DConfig d)) then False
      else if df_Owner f \<noteq> '''' \<and> Owner (DConfig d) \<noteq> df_Owner f then False
      else True)"

text \<open>\<^verbatim>\<open>if limit > 0 && len(xs) > limit { xs = xs[:limit] }\<close>\<close>

definition limit_to :: "int \<Rightarrow> 'a list \<Rightarrow> 'a list" where
  "limit_to n xs = (if 0 < n \<and> n < int (length xs) then take (nat n) xs else xs)"

text \<open>\<open>ord\<close> is the order in which the map is visited.\<close>

definition ListDAGs :: "string list \<Rightarrow> dag_filter \<Rightarrow> memory_store \<Rightarrow> err + dag list" where
  "ListDAGs ord f s =
     (let result = filter (dag_passes f) (List.map_filter (fmlookup (dags s)) ord);
          result = sort_key dag_ID result
      in Inr (limit_to (df_Limit f) result))"

definition DeleteDAG :: "string \<Rightarrow> memory_store \<Rightarrow> err + memory_store" where
  "DeleteDAG i s =
     (if fmlookup (dags s) i = None then Inl (Err ''DAG %q not found'' [FStr i])
      else Inr (s\<lparr>dags := fmdrop i (dags s)\<rparr>))"

definition CreateRun :: "time \<Rightarrow> dag_run \<Rightarrow> memory_store \<Rightarrow> err + dag_run \<times> memory_store" where
  "CreateRun now r s =
     (if fmlookup (runs s) (run_ID r) \<noteq> None
      then Inl (Err ''run %q already exists'' [FStr (run_ID r)])
      else
        let r = r\<lparr>run_CreatedAt := now, run_UpdatedAt := now\<rparr>
        in Inr (r, s\<lparr>runs := fmupd (run_ID r) r (runs s)\<rparr>))"

definition GetRun :: "string \<Rightarrow> memory_store \<Rightarrow> err + dag_run" where
  "GetRun i s =
     (case fmlookup (runs s) i of
        None \<Rightarrow> Inl (Err ''run %q not found'' [FStr i])
      | Some r \<Rightarrow> Inr r)"

definition UpdateRun :: "time \<Rightarrow> dag_run \<Rightarrow> memory_store \<Rightarrow> err + dag_run \<times> memory_store" where
  "UpdateRun now r s =
     (if fmlookup (runs s) (run_ID r) = None
      then Inl (Err ''run %q not found'' [FStr (run_ID r)])
      else
        let r = r\<lparr>run_UpdatedAt := now\<rparr>
        in Inr (r, s\<lparr>runs := fmupd (run_ID r) r (runs s)\<rparr>))"

definition run_passes :: "run_filter \<Rightarrow> dag_run \<Rightarrow> bool" where
  "run_passes f r =
     (if rf_DAGID f \<noteq> '''' \<and> run_DAGID r \<noteq> rf_DAGID f then False
      else case rf_Status f of
             Some st \<Rightarrow> if run_Status r \<noteq> st then False else True
           | None \<Rightarrow> True)"

definition offset_by :: "int \<Rightarrow> 'a list \<Rightarrow> 'a list" where
  "offset_by n xs = (if 0 < n \<and> n < int (length xs) then drop (nat n) xs else xs)"

definition ListRuns :: "string list \<Rightarrow> run_filter \<Rightarrow> memory_store \<Rightarrow> err + dag_run list" where
  "ListRuns ord f s =
     (let result = filter (run_passes f) (List.map_filter (fmlookup (runs s)) ord);
          result = sort_key (\<lambda>r. - run_CreatedAt r) result;
          result = offset_by (rf_Offset f) result
      in Inr (limit_to (rf_Limit f) result))"

definition CreateTaskInstance :: "task_instance \<Rightarrow> memory_store \<Rightarrow> err + memory_store" where
  "CreateTaskInstance ti s =
     (if fmlookup (taskInstances s) (ti_ID ti) \<noteq> None
      then Inl (Err ''task instance %q already exists'' [FStr (ti_ID ti)])
      else
        let s = s\<lparr>taskInstances := fmupd (ti_ID ti) ti (taskInstances s)\<rparr>
        in Inr (if IdempotencyKey ti \<noteq> ''''
                then s\<lparr>idempotencyIdx := fmupd (IdempotencyKey ti) (ti_ID ti) (idempotencyIdx s)\<rparr>
                else s))"

definition GetTaskInstance :: "string \<Rightarrow> memory_store \<Rightarrow> err + task_instance" where
  "GetTaskInstance i s =
     (case fmlookup (taskInstances s) i of
        None \<Rightarrow> Inl (Err ''task instance %q not found'' [FStr i])
      | Some ti \<Rightarrow> Inr ti)"

definition UpdateTaskInstance :: "task_instance \<Rightarrow> memory_store \<Rightarrow> err + memory_store" where
  "UpdateTaskInstance ti s =
     (if fmlookup (taskInstances s) (ti_ID ti) = None
      then Inl (Err ''task instance %q not found'' [FStr (ti_ID ti)])
      else Inr (s\<lparr>taskInstances := fmupd (ti_ID ti) ti (taskInstances s)\<rparr>))"

definition ListTaskInstances :: "string list \<Rightarrow> string \<Rightarrow> memory_store \<Rightarrow> err + task_instance list" where
  "ListTaskInstances ord r s =
     Inr (sort_key ti_TaskID
       (filter (\<lambda>ti. ti_RunID ti = r) (List.map_filter (fmlookup (taskInstances s)) ord)))"

definition GetTaskInstanceByIdempotencyKey :: "string \<Rightarrow> memory_store \<Rightarrow> err + task_instance" where
  "GetTaskInstanceByIdempotencyKey k s =
     (case fmlookup (idempotencyIdx s) k of
        None \<Rightarrow> Inl (Err ''no task instance with idempotency key %q'' [FStr k])
      | Some i \<Rightarrow>
          (case fmlookup (taskInstances s) i of
             None \<Rightarrow> Inl (Err ''task instance %q not found (index inconsistency)'' [FStr i])
           | Some ti \<Rightarrow> Inr ti))"

definition Ping :: "memory_store \<Rightarrow> err option" where "Ping s = None"
definition Close :: "memory_store \<Rightarrow> err option" where "Close s = None"

text \<open>
  What a call of another component leaves open: the orders in which the maps are visited (one
  per operation, state and argument) and the times that the store reads.
\<close>

record mem_world =
  mw_dags :: "memory_store \<Rightarrow> string list"
  mw_runs :: "memory_store \<Rightarrow> string list"
  mw_tis :: "string \<Rightarrow> memory_store \<Rightarrow> string list"
  mw_now :: "string \<Rightarrow> time"

definition memory_ops :: "mem_world \<Rightarrow> memory_store store_ops" where
  "memory_ops w =
     \<lparr>op_SaveDAG = (\<lambda>d. SaveDAG (mw_now w (dag_ID d)) d),
      op_GetDAG = GetDAG,
      op_ListDAGs = (\<lambda>f s. ListDAGs (mw_dags w s) f s),
      op_DeleteDAG = DeleteDAG,
      op_CreateRun = (\<lambda>r. CreateRun (mw_now w (run_ID r)) r),
      op_GetRun = GetRun,
      op_UpdateRun = (\<lambda>r. UpdateRun (mw_now w (run_ID r)) r),
      op_ListRuns = (\<lambda>f s. ListRuns (mw_runs w s) f s),
      op_CreateTaskInstance = CreateTaskInstance,
      op_GetTaskInstance = GetTaskInstance,
      op_UpdateTaskInstance = UpdateTaskInstance,
      op_ListTaskInstances = (\<lambda>r s. ListTaskInstances (mw_tis w r s) r s),
      op_GetTaskInstanceByIdempotencyKey = GetTaskInstanceByIdempotencyKey,
      op_Ping = Ping,
      op_Close = Close\<rparr>"

definition mem_world_ok :: "mem_world \<Rightarrow> bool" where
  "mem_world_ok w \<longleftrightarrow> (\<forall>s. ranges (mw_dags w s) (dags s) \<and> ranges (mw_runs w s) (runs s)) \<and>
     (\<forall>r s. ranges (mw_tis w r s) (taskInstances s))"

section \<open>The contract of a store\<close>

text \<open>
  What the scheduler relies on: three finite maps from IDs to values stored under their own ID,
  and the effect of every operation on them. \<open>clock\<close> gives the times the store sets.
\<close>

locale store_contract =
  fixes ops :: "'s store_ops" and inv :: "'s \<Rightarrow> bool" and clock :: "string \<Rightarrow> time"
    and dag_map :: "'s \<Rightarrow> (string, dag) fmap"
    and run_map :: "'s \<Rightarrow> (string, dag_run) fmap"
    and ti_map :: "'s \<Rightarrow> (string, task_instance) fmap"
  assumes run_keyed: "inv s \<Longrightarrow> fmlookup (run_map s) i = Some r \<Longrightarrow> run_ID r = i"
    and ti_keyed: "inv s \<Longrightarrow> fmlookup (ti_map s) i = Some ti \<Longrightarrow> ti_ID ti = i"
    and save_dag: "inv s \<Longrightarrow> \<exists>d' s'. op_SaveDAG ops d s = Inr (d', s') \<and> inv s' \<and>
      d' = d\<lparr>dag_CreatedAt := dag_CreatedAt d', dag_UpdatedAt := dag_UpdatedAt d'\<rparr> \<and>
      dag_map s' = fmupd (dag_ID d) d' (dag_map s) \<and> run_map s' = run_map s \<and> ti_map s' = ti_map s"
    and get_dag: "inv s \<Longrightarrow> op_GetDAG ops i s = Inr d \<longleftrightarrow> fmlookup (dag_map s) i = Some d"
    and create_run: "inv s \<Longrightarrow> fmlookup (run_map s) (run_ID r) = None \<Longrightarrow>
      \<exists>s'. op_CreateRun ops r s =
          Inr (r\<lparr>run_CreatedAt := clock (run_ID r), run_UpdatedAt := clock (run_ID r)\<rparr>, s') \<and> inv s' \<and>
        run_map s' = fmupd (run_ID r)
          (r\<lparr>run_CreatedAt := clock (run_ID r), run_UpdatedAt := clock (run_ID r)\<rparr>) (run_map s) \<and>
        dag_map s' = dag_map s \<and> ti_map s' = ti_map s"
    and get_run: "inv s \<Longrightarrow> op_GetRun ops i s = Inr r \<longleftrightarrow> fmlookup (run_map s) i = Some r"
    and update_run: "inv s \<Longrightarrow> fmlookup (run_map s) (run_ID r) \<noteq> None \<Longrightarrow>
      \<exists>s'. op_UpdateRun ops r s = Inr (r\<lparr>run_UpdatedAt := clock (run_ID r)\<rparr>, s') \<and> inv s' \<and>
        run_map s' = fmupd (run_ID r) (r\<lparr>run_UpdatedAt := clock (run_ID r)\<rparr>) (run_map s) \<and>
        dag_map s' = dag_map s \<and> ti_map s' = ti_map s"
    and list_runs: "inv s \<Longrightarrow> \<exists>rs. op_ListRuns ops
        \<lparr>rf_DAGID = '''', rf_Status = Some st, rf_Limit = 0, rf_Offset = 0\<rparr> s = Inr rs \<and>
      distinct (map run_ID rs) \<and>
      set rs = {r. fmlookup (run_map s) (run_ID r) = Some r \<and> run_Status r = st}"
    and create_ti: "inv s \<Longrightarrow> fmlookup (ti_map s) (ti_ID ti) = None \<Longrightarrow>
      \<exists>s'. op_CreateTaskInstance ops ti s = Inr s' \<and> inv s' \<and>
        ti_map s' = fmupd (ti_ID ti) ti (ti_map s) \<and> dag_map s' = dag_map s \<and> run_map s' = run_map s"
    and get_ti: "inv s \<Longrightarrow> op_GetTaskInstance ops i s = Inr ti \<longleftrightarrow> fmlookup (ti_map s) i = Some ti"
    and update_ti: "inv s \<Longrightarrow> fmlookup (ti_map s) (ti_ID ti) \<noteq> None \<Longrightarrow>
      \<exists>s'. op_UpdateTaskInstance ops ti s = Inr s' \<and> inv s' \<and>
        ti_map s' = fmupd (ti_ID ti) ti (ti_map s) \<and> dag_map s' = dag_map s \<and> run_map s' = run_map s"
    and list_tis: "inv s \<Longrightarrow> \<exists>tis. op_ListTaskInstances ops rid s = Inr tis \<and>
      distinct (map ti_ID tis) \<and>
      set tis = {ti. fmlookup (ti_map s) (ti_ID ti) = Some ti \<and> ti_RunID ti = rid}"

section \<open>MemoryStore fulfils the contract\<close>

text \<open>Everything is filed under its own ID, and the index of idempotency keys has no dead entry.\<close>

definition store_wf :: "memory_store \<Rightarrow> bool" where
  "store_wf s \<longleftrightarrow> fmpred (\<lambda>i r. run_ID r = i) (runs s) \<and> fmpred (\<lambda>i d. dag_ID d = i) (dags s) \<and>
     fmpred (\<lambda>i ti. ti_ID ti = i) (taskInstances s) \<and>
     fmpred (\<lambda>k i. i \<in> fmdom' (taskInstances s)) (idempotencyIdx s)"

lemma store_wfD:
  assumes "store_wf s"
  shows "fmlookup (runs s) i = Some r \<Longrightarrow> run_ID r = i"
    and "fmlookup (dags s) i = Some d \<Longrightarrow> dag_ID d = i"
    and "fmlookup (taskInstances s) i = Some ti \<Longrightarrow> ti_ID ti = i"
    and "fmlookup (idempotencyIdx s) k = Some i \<Longrightarrow> i \<in> fmdom' (taskInstances s)"
  using assms by (auto simp: store_wf_def dest: fmpredD)

lemma store_wf_new [simp]: "store_wf NewMemoryStore"
  by (simp add: store_wf_def NewMemoryStore_def)

lemma store_wf_dags:
  "store_wf s \<Longrightarrow> fmpred (\<lambda>i d. dag_ID d = i) m \<Longrightarrow> store_wf (s\<lparr>dags := m\<rparr>)"
  by (simp add: store_wf_def)

lemma store_wf_run: "store_wf s \<Longrightarrow> store_wf (s\<lparr>runs := fmupd (run_ID r) r (runs s)\<rparr>)"
  by (auto simp: store_wf_def)

lemma store_wf_ti:
  "store_wf s \<Longrightarrow> store_wf (s\<lparr>taskInstances := fmupd (ti_ID ti) ti (taskInstances s)\<rparr>)"
  by (auto simp: store_wf_def elim: fmpred_mono)

text \<open>Collecting the values of a map that is keyed by \<open>key\<close>, in a visiting order.\<close>

lemma keyed_values:
  assumes "ranges ord m" "\<And>i v. fmlookup m i = Some v \<Longrightarrow> key v = i"
  shows "distinct (map key (List.map_filter (fmlookup m) ord))"
    and "set (List.map_filter (fmlookup m) ord) = {v. fmlookup m (key v) = Some v}"
proof -
  have "map key (List.map_filter (fmlookup m) ks) = filter (\<lambda>i. fmlookup m i \<noteq> None) ks" for ks
    by (induction ks) (auto simp: List.map_filter_def assms(2))
  then show "distinct (map key (List.map_filter (fmlookup m) ord))" using assms(1) by auto
  show "set (List.map_filter (fmlookup m) ord) = {v. fmlookup m (key v) = Some v}"
  proof (rule set_eqI)
    fix v
    have "v \<in> set (List.map_filter (fmlookup m) ord) \<longleftrightarrow> (\<exists>i \<in> set ord. fmlookup m i = Some v)"
      by (force simp: List.map_filter_def)
    also have "\<dots> \<longleftrightarrow> (\<exists>i. fmlookup m i = Some v)"
      using in_ranges_iff [OF assms(1)] by (metis option.distinct(1))
    also have "\<dots> \<longleftrightarrow> fmlookup m (key v) = Some v" using assms(2) by metis
    finally show "v \<in> set (List.map_filter (fmlookup m) ord) \<longleftrightarrow> v \<in> {v. fmlookup m (key v) = Some v}"
      by simp
  qed
qed

lemma ListRuns_running:
  assumes "store_wf s" "ranges ord (runs s)"
  shows "\<exists>rs. ListRuns ord \<lparr>rf_DAGID = '''', rf_Status = Some st, rf_Limit = 0, rf_Offset = 0\<rparr> s = Inr rs \<and>
    distinct (map run_ID rs) \<and>
    set rs = {r. fmlookup (runs s) (run_ID r) = Some r \<and> run_Status r = st}"
proof -
  let ?all = "List.map_filter (fmlookup (runs s)) ord"
  let ?rs = "sort_key (\<lambda>r. - run_CreatedAt r) (filter (\<lambda>r. run_Status r = st) ?all)"
  note kv = keyed_values [OF assms(2), of run_ID, OF store_wfD(1) [OF assms(1)]]
  have "mset (map run_ID ?rs) = mset (map run_ID (filter (\<lambda>r. run_Status r = st) ?all))" by simp
  moreover have "distinct (map run_ID (filter (\<lambda>r. run_Status r = st) ?all))"
    using kv(1) by (rule distinct_map_filter)
  ultimately have "distinct (map run_ID ?rs)" by (metis mset_eq_imp_distinct_iff)
  moreover have "run_passes \<lparr>rf_DAGID = '''', rf_Status = Some st, rf_Limit = 0, rf_Offset = 0\<rparr> =
      (\<lambda>r. run_Status r = st)" by (simp add: run_passes_def fun_eq_iff)
  ultimately show ?thesis
    using kv(2) by (auto simp: ListRuns_def offset_by_def limit_to_def Let_def)
qed

lemma ListTaskInstances_run:
  assumes "store_wf s" "ranges ord (taskInstances s)"
  shows "\<exists>tis. ListTaskInstances ord rid s = Inr tis \<and> distinct (map ti_ID tis) \<and>
    set tis = {ti. fmlookup (taskInstances s) (ti_ID ti) = Some ti \<and> ti_RunID ti = rid}"
proof -
  let ?all = "List.map_filter (fmlookup (taskInstances s)) ord"
  let ?tis = "sort_key ti_TaskID (filter (\<lambda>ti. ti_RunID ti = rid) ?all)"
  note kv = keyed_values [OF assms(2), of ti_ID, OF store_wfD(3) [OF assms(1)]]
  have "mset (map ti_ID ?tis) = mset (map ti_ID (filter (\<lambda>ti. ti_RunID ti = rid) ?all))" by simp
  moreover have "distinct (map ti_ID (filter (\<lambda>ti. ti_RunID ti = rid) ?all))"
    using kv(1) by (rule distinct_map_filter)
  ultimately have "distinct (map ti_ID ?tis)" by (metis mset_eq_imp_distinct_iff)
  then show ?thesis using kv(2) by (auto simp: ListTaskInstances_def)
qed

lemmas memory_defs = memory_ops_def SaveDAG_def GetDAG_def CreateRun_def GetRun_def UpdateRun_def
  CreateTaskInstance_def GetTaskInstance_def UpdateTaskInstance_def Let_def

text \<open>The memory store as it is seen in one call, with the visiting orders of \<open>w\<close>.\<close>

definition mem_inv :: "mem_world \<Rightarrow> memory_store \<Rightarrow> bool" where
  "mem_inv w s \<longleftrightarrow> mem_world_ok w \<and> store_wf s"

lemma mem_inv_wf: "mem_inv w s \<Longrightarrow> store_wf s"
  by (simp add: mem_inv_def)

interpretation mem: store_contract "memory_ops w" "mem_inv w" "mw_now w" dags runs taskInstances
  for w
proof unfold_locales
  fix s and d :: dag assume "mem_inv w s"
  then show "\<exists>d' s'. op_SaveDAG (memory_ops w) d s = Inr (d', s') \<and> mem_inv w s' \<and>
      d' = d\<lparr>dag_CreatedAt := dag_CreatedAt d', dag_UpdatedAt := dag_UpdatedAt d'\<rparr> \<and>
      dags s' = fmupd (dag_ID d) d' (dags s) \<and> runs s' = runs s \<and> taskInstances s' = taskInstances s"
    by (auto simp: memory_defs mem_inv_def store_wf_def)
next
  fix s st assume "mem_inv w s"
  then show "\<exists>rs. op_ListRuns (memory_ops w)
        \<lparr>rf_DAGID = '''', rf_Status = Some st, rf_Limit = 0, rf_Offset = 0\<rparr> s = Inr rs \<and>
      distinct (map run_ID rs) \<and>
      set rs = {r. fmlookup (runs s) (run_ID r) = Some r \<and> run_Status r = st}"
    using ListRuns_running [of s] by (simp add: memory_ops_def mem_inv_def mem_world_ok_def)
next
  fix s rid assume "mem_inv w s"
  then show "\<exists>tis. op_ListTaskInstances (memory_ops w) rid s = Inr tis \<and>
      distinct (map ti_ID tis) \<and>
      set tis = {ti. fmlookup (taskInstances s) (ti_ID ti) = Some ti \<and> ti_RunID ti = rid}"
    using ListTaskInstances_run [of s] by (simp add: memory_ops_def mem_inv_def mem_world_ok_def)
next
  fix s and ti :: task_instance assume "mem_inv w s" "fmlookup (taskInstances s) (ti_ID ti) = None"
  then show "\<exists>s'. op_CreateTaskInstance (memory_ops w) ti s = Inr s' \<and> mem_inv w s' \<and>
        taskInstances s' = fmupd (ti_ID ti) ti (taskInstances s) \<and> dags s' = dags s \<and> runs s' = runs s"
    using store_wf_ti [of s ti] by (auto simp: memory_defs mem_inv_def store_wf_def)
next
  fix s and ti :: task_instance assume "mem_inv w s" "fmlookup (taskInstances s) (ti_ID ti) \<noteq> None"
  then show "\<exists>s'. op_UpdateTaskInstance (memory_ops w) ti s = Inr s' \<and> mem_inv w s' \<and>
        taskInstances s' = fmupd (ti_ID ti) ti (taskInstances s) \<and> dags s' = dags s \<and> runs s' = runs s"
    using store_wf_ti [of s ti] by (auto simp: memory_defs mem_inv_def)
next
  fix s and r :: dag_run assume "mem_inv w s" "fmlookup (runs s) (run_ID r) = None"
  then show "\<exists>s'. op_CreateRun (memory_ops w) r s =
          Inr (r\<lparr>run_CreatedAt := mw_now w (run_ID r), run_UpdatedAt := mw_now w (run_ID r)\<rparr>, s') \<and>
        mem_inv w s' \<and>
        runs s' = fmupd (run_ID r)
          (r\<lparr>run_CreatedAt := mw_now w (run_ID r), run_UpdatedAt := mw_now w (run_ID r)\<rparr>) (runs s) \<and>
        dags s' = dags s \<and> taskInstances s' = taskInstances s"
    by (auto simp: memory_defs mem_inv_def store_wf_def)
next
  fix s and r :: dag_run assume "mem_inv w s" "fmlookup (runs s) (run_ID r) \<noteq> None"
  then show "\<exists>s'. op_UpdateRun (memory_ops w) r s =
          Inr (r\<lparr>run_UpdatedAt := mw_now w (run_ID r)\<rparr>, s') \<and> mem_inv w s' \<and>
        runs s' = fmupd (run_ID r) (r\<lparr>run_UpdatedAt := mw_now w (run_ID r)\<rparr>) (runs s) \<and>
        dags s' = dags s \<and> taskInstances s' = taskInstances s"
    by (auto simp: memory_defs mem_inv_def store_wf_def)
qed (auto simp: memory_defs mem_inv_def store_wfD split: option.splits)

section \<open>Every reachable memory store is well formed\<close>

inductive store_reach :: "memory_store \<Rightarrow> bool" where
  new: "store_reach NewMemoryStore"
| save_dag: "store_reach s \<Longrightarrow> SaveDAG now d s = Inr (d', s') \<Longrightarrow> store_reach s'"
| delete_dag: "store_reach s \<Longrightarrow> DeleteDAG i s = Inr s' \<Longrightarrow> store_reach s'"
| create_run: "store_reach s \<Longrightarrow> CreateRun now r s = Inr (r', s') \<Longrightarrow> store_reach s'"
| update_run: "store_reach s \<Longrightarrow> UpdateRun now r s = Inr (r', s') \<Longrightarrow> store_reach s'"
| create_ti: "store_reach s \<Longrightarrow> CreateTaskInstance ti s = Inr s' \<Longrightarrow> store_reach s'"
| update_ti: "store_reach s \<Longrightarrow> UpdateTaskInstance ti s = Inr s' \<Longrightarrow> store_reach s'"

lemma store_reach_wf: "store_reach s \<Longrightarrow> store_wf s"
proof (induction rule: store_reach.induct)
  case (create_ti s ti s')
  then show ?case
    using store_wf_ti [of s ti] by (auto simp: CreateTaskInstance_def store_wf_def Let_def split: if_splits)
next
  case (update_ti s ti s')
  then show ?case using store_wf_ti [of s ti] by (auto simp: UpdateTaskInstance_def split: if_splits)
qed (auto simp: NewMemoryStore_def SaveDAG_def DeleteDAG_def CreateRun_def UpdateRun_def Let_def store_wf_def split: if_splits)

text \<open>
  C27. In every store that the operations can reach, each run, DAG and task instance is filed
  under its own ID, and the index of idempotency keys points to task instances that exist: a
  lookup by key returns an instance or says that the key is unknown, never that the index is
  inconsistent. A new instance with a key is found under it, until the key is used again.
\<close>

theorem store_reach_consistent:
  assumes "store_reach s"
  shows "store_wf s \<and>
    (case GetTaskInstanceByIdempotencyKey k s of
       Inl e \<Rightarrow> e = Err ''no task instance with idempotency key %q'' [FStr k] \<and> k \<notin> fmdom' (idempotencyIdx s)
     | Inr ti \<Rightarrow> fmlookup (taskInstances s) (ti_ID ti) = Some ti \<and>
                 fmlookup (idempotencyIdx s) k = Some (ti_ID ti)) \<and>
    (\<forall>ti s'. CreateTaskInstance ti s = Inr s' \<longrightarrow> IdempotencyKey ti \<noteq> '''' \<longrightarrow>
       GetTaskInstanceByIdempotencyKey (IdempotencyKey ti) s' = Inr ti)"
proof (intro conjI allI impI)
  show wf: "store_wf s" using assms by (rule store_reach_wf)
  show "case GetTaskInstanceByIdempotencyKey k s of
       Inl e \<Rightarrow> e = Err ''no task instance with idempotency key %q'' [FStr k] \<and> k \<notin> fmdom' (idempotencyIdx s)
     | Inr ti \<Rightarrow> fmlookup (taskInstances s) (ti_ID ti) = Some ti \<and>
                 fmlookup (idempotencyIdx s) k = Some (ti_ID ti)"
    using store_wfD(3) [OF wf] store_wfD(4) [OF wf, of k]
    by (auto simp: GetTaskInstanceByIdempotencyKey_def fmlookup_dom'_iff fmdom'_notI split: option.splits)
  show "GetTaskInstanceByIdempotencyKey (IdempotencyKey ti) s' = Inr ti"
    if "CreateTaskInstance ti s = Inr s'" "IdempotencyKey ti \<noteq> ''''" for ti s'
    using that
    by (auto simp: CreateTaskInstance_def GetTaskInstanceByIdempotencyKey_def Let_def split: if_splits)
qed

section \<open>Listing\<close>

lemma tag_in_iff: "tag_in ft dts \<longleftrightarrow> ft \<in> set dts"
  by (induction dts) auto

lemma tags_matched_iff: "tags_matched fts dts \<longleftrightarrow> (\<exists>t \<in> set fts. t \<in> set dts)"
  by (induction fts) (auto simp: tag_in_iff)

definition dag_matches :: "dag_filter \<Rightarrow> dag \<Rightarrow> bool" where
  "dag_matches f d \<longleftrightarrow>
     (df_Tags f = [] \<or> set (df_Tags f) \<inter> set (Tags (DConfig d)) \<noteq> {}) \<and>
     (df_Owner f = '''' \<or> Owner (DConfig d) = df_Owner f)"

lemma dag_passes_iff: "dag_passes f d \<longleftrightarrow> dag_matches f d"
  by (auto simp: dag_passes_def dag_matches_def tags_matched_iff)

lemma limit_to_take: "limit_to n xs = (if 0 < n then take (nat n) xs else xs)"
  by (auto simp: limit_to_def)

lemma limit_to_map: "limit_to n (map f xs) = map f (limit_to n xs)"
  by (simp add: limit_to_take take_map)

text \<open>
  \<open>ListDAGs\<close> returns the DAGs that have one of the filter's tags (if it names any) and the
  filter's owner (if it names one), in the order of their IDs, cut off at a positive limit,
  whatever order the map is visited in.
\<close>

theorem ListDAGs_correct:
  assumes "store_wf s" and "ranges ord (dags s)"
  shows "ListDAGs ord f s = Inr (map (\<lambda>i. the (fmlookup (dags s) i))
    (limit_to (df_Limit f)
      (filter (\<lambda>i. dag_matches f (the (fmlookup (dags s) i))) (sorted_keys (dags s)))))"
proof -
  let ?at = "\<lambda>i. the (fmlookup (dags s) i)"
  let ?ids = "filter (\<lambda>i. dag_matches f (?at i)) ord"
  have "filter (dag_passes f) (List.map_filter (fmlookup (dags s)) ord) = map ?at ?ids"
    using in_ranges_iff [OF assms(2)]
    by (simp add: List.map_filter_def filter_map comp_def dag_passes_iff cong: filter_cong)
  moreover have "sort_key dag_ID (map ?at ?ids) = map ?at (sort ?ids)"
    using in_ranges_iff [OF assms(2)] store_wfD(2) [OF assms(1)]
    by (intro sort_key_map_inverse) auto
  ultimately show ?thesis
    by (simp add: ListDAGs_def limit_to_map filter_sort_ranges [OF assms(2)])
qed

text \<open>
  \<open>ListRuns\<close> without paging returns exactly the runs that match the filter, each once and
  the newest first. The offset skips that many of them, except that an offset as large as the
  number of matches is ignored: the page after the last one is the first page again.
\<close>

theorem ListRuns_correct:
  assumes "store_wf s" and "ranges ord (runs s)"
  shows "\<exists>all. ListRuns ord f s = Inr (limit_to (rf_Limit f)
        (if nat (rf_Offset f) < length all then drop (nat (rf_Offset f)) all else all)) \<and>
    distinct (map run_ID all) \<and> sorted_wrt (\<lambda>r r'. run_CreatedAt r' \<le> run_CreatedAt r) all \<and>
    set all = {r. fmlookup (runs s) (run_ID r) = Some r \<and>
                  (rf_DAGID f = '''' \<or> run_DAGID r = rf_DAGID f) \<and>
                  (\<forall>st. rf_Status f = Some st \<longrightarrow> run_Status r = st)}"
proof (intro exI conjI)
  let ?found = "filter (run_passes f) (List.map_filter (fmlookup (runs s)) ord)"
  let ?all = "sort_key (\<lambda>r. - run_CreatedAt r) ?found"
  note kv = keyed_values [OF assms(2), of run_ID, OF store_wfD(1) [OF assms(1)]]
  show "ListRuns ord f s = Inr (limit_to (rf_Limit f)
      (if nat (rf_Offset f) < length ?all then drop (nat (rf_Offset f)) ?all else ?all))"
    by (auto simp: ListRuns_def offset_by_def Let_def)
  have "distinct (map run_ID ?found)" using kv(1) by (rule distinct_map_filter)
  then show "distinct (map run_ID ?all)" by (metis mset_eq_imp_distinct_iff mset_map mset_sort)
  have "sorted (map (\<lambda>r. - run_CreatedAt r) ?all)" by simp
  then show "sorted_wrt (\<lambda>r r'. run_CreatedAt r' \<le> run_CreatedAt r) ?all"
    by (simp only: sorted_map) (erule sorted_wrt_mono_rel [rotated], simp)
  show "set ?all = {r. fmlookup (runs s) (run_ID r) = Some r \<and>
                  (rf_DAGID f = '''' \<or> run_DAGID r = rf_DAGID f) \<and>
                  (\<forall>st. rf_Status f = Some st \<longrightarrow> run_Status r = st)}"
    using kv(2) by (auto simp: run_passes_def split: option.splits if_splits)
qed

section \<open>Examples\<close>

definition plain_mem :: mem_world where
  "plain_mem = \<lparr>mw_dags = (\<lambda>s. sorted_keys (dags s)), mw_runs = (\<lambda>s. sorted_keys (runs s)),
     mw_tis = (\<lambda>r s. sorted_keys (taskInstances s)), mw_now = (\<lambda>_. 5)\<rparr>"

lemma plain_mem_ok [simp]: "mem_world_ok plain_mem"
  by (simp add: mem_world_ok_def plain_mem_def)

definition sample_run :: "string \<Rightarrow> time \<Rightarrow> dag_run" where
  "sample_run i t = \<lparr>run_ID = i, run_DAGID = ''demo'', run_Status = StatusRunning, run_Params = fmempty,
     run_StartTime = 1, run_EndTime = 0, run_CreatedAt = t, run_UpdatedAt = t\<rparr>"

definition sample_store :: memory_store where
  "sample_store = NewMemoryStore\<lparr>runs := fmap_of_list
     [(''r1'', sample_run ''r1'' 1), (''r2'', sample_run ''r2'' 2)],
     dags := fmap_of_list [(''demo'', diamond)]\<rparr>"

lemma sample_store_facts:
  "store_wf sample_store" "ranges [''r2'', ''r1''] (runs sample_store)" "ranges [''demo''] (dags sample_store)"
  by code_simp+

lemma store_reach_consistent_witness:
  "store_wf NewMemoryStore \<and>
   GetTaskInstanceByIdempotencyKey ''k'' NewMemoryStore =
     Inl (Err ''no task instance with idempotency key %q'' [FStr ''k''])"
  using store_reach_consistent [OF store_reach.new, of "''k''"]
  by (simp add: GetTaskInstanceByIdempotencyKey_def NewMemoryStore_def)

lemma ListDAGs_correct_witness:
  "ListDAGs [''demo''] \<lparr>df_Tags = [], df_Owner = '''', df_Limit = 1\<rparr> sample_store =
   Inr (map (\<lambda>i. the (fmlookup (dags sample_store) i)) (limit_to 1
     (filter (\<lambda>i. dag_matches \<lparr>df_Tags = [], df_Owner = '''', df_Limit = 1\<rparr>
        (the (fmlookup (dags sample_store) i))) (sorted_keys (dags sample_store)))))"
  using ListDAGs_correct [OF sample_store_facts(1,3)] by simp

text \<open>The second page of one run is the first page again.\<close>

lemma ListRuns_correct_witness:
  "\<exists>all. ListRuns [''r2'', ''r1''] \<lparr>rf_DAGID = ''demo'', rf_Status = None, rf_Limit = 0, rf_Offset = 2\<rparr> sample_store = Inr all \<and>
     distinct (map run_ID all) \<and> sorted_wrt (\<lambda>r r'. run_CreatedAt r' \<le> run_CreatedAt r) all \<and> length all = 2"
proof -
  let ?f = "\<lparr>rf_DAGID = ''demo'', rf_Status = None, rf_Limit = 0, rf_Offset = 2\<rparr>"
  obtain all where all: "ListRuns [''r2'', ''r1''] ?f sample_store = Inr (limit_to (rf_Limit ?f)
        (if nat (rf_Offset ?f) < length all then drop (nat (rf_Offset ?f)) all else all))"
      "distinct (map run_ID all)" "sorted_wrt (\<lambda>r r'. run_CreatedAt r' \<le> run_CreatedAt r) all"
    using ListRuns_correct [OF sample_store_facts(1,2)] by blast
  have "case ListRuns [''r2'', ''r1''] ?f sample_store of Inr xs \<Rightarrow> length xs = 2 | Inl e \<Rightarrow> False"
    by code_simp
  then show ?thesis
    using all by (auto simp: limit_to_def sorted_wrt_drop simp flip: drop_map split: if_splits)
qed

end
