(* ===== verification/Scheduler.thy ===== *)
theory Scheduler
  imports Dag_Query Store
begin

text \<open>
  \<^verbatim>\<open>pkg/scheduler/scheduler.go\<close>: \<open>FIFOScheduler\<close> over any implementation of the store
  interface. Every operation takes the store operations \<open>ops\<close> and passes the state of the store
  explicitly. Log output is left out, and with it the errors that are only logged: the branches
  they stand on are kept. A call runs without other writers in between, as in the command line
  runner.
\<close>

section \<open>State and world\<close>

text \<open>
  The index of DAGs, the cron entries (an expression and the DAG its closure submits), the state
  of \<^verbatim>\<open>stopCh\<close> and the poll interval.
\<close>

record sched =
  dagIndex :: "(string, dag) fmap"
  cronEntries :: "(string \<times> dag) list"
  stopClosed :: bool
  interval :: duration

definition NewFIFOScheduler :: "duration \<Rightarrow> sched" where
  "NewFIFOScheduler pollInterval =
     \<lparr>dagIndex = fmempty, cronEntries = [], stopClosed = False,
      interval = (if pollInterval = 0 then 5 * 1000000000 else pollInterval)\<rparr>"

text \<open>\<^verbatim>\<open>NewPriorityScheduler\<close> embeds a FIFO scheduler and overrides nothing.\<close>

definition NewPriorityScheduler :: "duration \<Rightarrow> sched" where
  "NewPriorityScheduler pollInterval = NewFIFOScheduler pollInterval"

record task_result =
  tr_TaskInstanceID :: string
  tr_RunID :: string
  tr_Status :: status
  tr_Output :: string
  tr_Error :: string
  tr_Metrics :: "(string, f64) fmap"

text \<open>
  What one call of \<open>Schedule\<close> reads from outside: the order in which the tasks of the DAG are
  visited (for each run), the time a task instance is queued at and the time a run ends at.
\<close>

record sched_world =
  sw_tasks :: "string \<Rightarrow> dag \<Rightarrow> string list"
  sw_queued :: "string \<Rightarrow> time"
  sw_end :: "string \<Rightarrow> time"

text \<open>One call of \<open>Submit\<close>: the new IDs (of the run and per task), the times and the order.\<close>

record submit_world =
  su_run :: string
  su_ti :: "string \<Rightarrow> string"
  su_start :: time
  su_queued :: "string \<Rightarrow> time"
  su_tasks :: "string list"

section \<open>Submit\<close>

definition new_instance :: "submit_world \<Rightarrow> dag \<Rightarrow> task \<Rightarrow> task_instance" where
  "new_instance w d t =
     \<lparr>ti_ID = su_ti w (task_ID t), ti_RunID = su_run w, ti_TaskID = task_ID t, ti_DAGID = dag_ID d,
      ti_Status = StatusPending, Attempt = 1, WorkerID = '''', ti_Output = '''', ti_Error = '''',
      ti_StartTime = 0, ti_EndTime = 0, QueuedAt = su_queued w (task_ID t),
      IdempotencyKey = dag_ID d @ ''-'' @ su_run w @ ''-'' @ task_ID t\<rparr>"

fun create_instances ::
  "'s store_ops \<Rightarrow> submit_world \<Rightarrow> dag \<Rightarrow> string list \<Rightarrow> 's \<Rightarrow> err option \<times> 's" where
  "create_instances ops w d [] s = (None, s)"
| "create_instances ops w d (k # ks) s =
     (case fmlookup (Tasks d) k of
        None \<Rightarrow> create_instances ops w d ks s
      | Some t \<Rightarrow>
          (case op_CreateTaskInstance ops (new_instance w d t) s of
             Inl e \<Rightarrow> (Some (Err ''create task instance for %s: %w'' [FStr (task_ID t), FErr e]), s)
           | Inr s' \<Rightarrow> create_instances ops w d ks s'))"

definition Submit ::
  "'s store_ops \<Rightarrow> submit_world \<Rightarrow> dag \<Rightarrow> (string, string) fmap \<Rightarrow> sched \<times> 's \<Rightarrow>
     (err + string) \<times> sched \<times> 's" where
  "Submit ops w d params st =
     (let (sch, s) = st;
          r = \<lparr>run_ID = su_run w, run_DAGID = dag_ID d, run_Status = StatusRunning,
               run_Params = params, run_StartTime = su_start w, run_EndTime = 0,
               run_CreatedAt = 0, run_UpdatedAt = 0\<rparr>
      in case op_CreateRun ops r s of
           Inl e \<Rightarrow> (Inl (Err ''create run: %w'' [FErr e]), sch, s)
         | Inr (r', s') \<Rightarrow>
             (case create_instances ops w d (su_tasks w) s' of
                (Some e, s'') \<Rightarrow> (Inl e, sch, s'')
              | (None, s'') \<Rightarrow>
                  (Inr (su_run w), sch\<lparr>dagIndex := fmupd (dag_ID d) d (dagIndex sch)\<rparr>, s'')))"

section \<open>Schedule\<close>

definition mark_queued :: "sched_world \<Rightarrow> task_instance \<Rightarrow> task_instance" where
  "mark_queued w ti = ti\<lparr>ti_Status := StatusQueued, QueuedAt := sw_queued w (ti_ID ti)\<rparr>"

definition status_map :: "task_instance list \<Rightarrow> (string, status) fmap" where
  "status_map tis = fold (\<lambda>ti m. fmupd (ti_TaskID ti) (ti_Status ti) m) tis fmempty"

text \<open>
  The loop over the instances for one ready task. The instance in the slice is marked before the
  store is asked, and stays marked when the store fails.
\<close>

fun queue_task ::
  "'s store_ops \<Rightarrow> sched_world \<Rightarrow> string \<Rightarrow> task_instance list \<Rightarrow> 's \<Rightarrow> task_instance list \<Rightarrow>
     task_instance list \<times> 's \<times> task_instance list" where
  "queue_task ops w k [] s ready = ([], s, ready)"
| "queue_task ops w k (ti # tis) s ready =
     (if ti_TaskID ti = k \<and> ti_Status ti = StatusPending
      then
        let ti = mark_queued w ti;
            (s, ready) = (case op_UpdateTaskInstance ops ti s of
               Inl e \<Rightarrow> (s, ready) | Inr s' \<Rightarrow> (s', ready @ [ti]));
            (tis, s, ready) = queue_task ops w k tis s ready
        in (ti # tis, s, ready)
      else
        let (tis, s, ready) = queue_task ops w k tis s ready
        in (ti # tis, s, ready))"

fun queue_tasks ::
  "'s store_ops \<Rightarrow> sched_world \<Rightarrow> task list \<Rightarrow> task_instance list \<Rightarrow> 's \<Rightarrow> task_instance list \<Rightarrow>
     task_instance list \<times> 's \<times> task_instance list" where
  "queue_tasks ops w [] tis s ready = (tis, s, ready)"
| "queue_tasks ops w (t # ts) tis s ready =
     (let (tis, s, ready) = queue_task ops w (task_ID t) tis s ready
      in queue_tasks ops w ts tis s ready)"

text \<open>The completion check: whether all instances are terminal and whether one has failed.\<close>

fun check_complete ::
  "'s store_ops \<Rightarrow> 's \<Rightarrow> task_instance list \<Rightarrow> bool \<Rightarrow> bool \<Rightarrow> bool \<times> bool" where
  "check_complete ops s [] allComplete anyFailed = (allComplete, anyFailed)"
| "check_complete ops s (ti # tis) allComplete anyFailed =
     (let ti = (if \<not> IsTerminal (ti_Status ti) \<and> ti_Status ti \<noteq> StatusQueued
                then (case op_GetTaskInstance ops (ti_ID ti) s of
                        Inr current \<Rightarrow> current | Inl e \<Rightarrow> ti)
                else ti);
          allComplete = (if \<not> IsTerminal (ti_Status ti) then False else allComplete);
          anyFailed = (if ti_Status ti = StatusFailed then True else anyFailed)
      in check_complete ops s tis allComplete anyFailed)"

text \<open>The DAG of a run: from the index, or else from the store, which fills the index.\<close>

definition find_dag :: "'s store_ops \<Rightarrow> string \<Rightarrow> sched \<times> 's \<Rightarrow> (dag \<times> sched) option" where
  "find_dag ops i st =
     (let (sch, s) = st in
      case fmlookup (dagIndex sch) i of
        Some d \<Rightarrow> Some (d, sch)
      | None \<Rightarrow>
          (case op_GetDAG ops i s of
             Inl e \<Rightarrow> None
           | Inr d \<Rightarrow> Some (d, sch\<lparr>dagIndex := fmupd i d (dagIndex sch)\<rparr>)))"

definition close_run :: "'s store_ops \<Rightarrow> sched_world \<Rightarrow> bool \<Rightarrow> dag_run \<Rightarrow> 's \<Rightarrow> 's" where
  "close_run ops w anyFailed run s =
     (let run = run\<lparr>run_Status := (if anyFailed then StatusFailed else StatusSuccess)\<rparr>;
          run = run\<lparr>run_EndTime := sw_end w (run_ID run)\<rparr>
      in case op_UpdateRun ops run s of Inl e \<Rightarrow> s | Inr (run', s') \<Rightarrow> s')"

definition schedule_run ::
  "'s store_ops \<Rightarrow> sched_world \<Rightarrow> dag_run \<Rightarrow> task_instance list \<times> sched \<times> 's \<Rightarrow>
     task_instance list \<times> sched \<times> 's" where
  "schedule_run ops w run st =
     (let (ready, sch, s) = st in
      case op_ListTaskInstances ops (run_ID run) s of
        Inl e \<Rightarrow> (ready, sch, s)
      | Inr instances \<Rightarrow>
          (case find_dag ops (run_DAGID run) (sch, s) of
             None \<Rightarrow> (ready, sch, s)
           | Some (d, sch) \<Rightarrow>
               let readyTasks = ReadyTasks (sw_tasks w (run_ID run) d) d (status_map instances);
                   (instances, s, ready) = queue_tasks ops w readyTasks instances s ready;
                   (allComplete, anyFailed) = check_complete ops s instances True False
               in (ready, sch, if allComplete then close_run ops w anyFailed run s else s)))"

definition running_filter :: run_filter where
  "running_filter = \<lparr>rf_DAGID = '''', rf_Status = Some StatusRunning, rf_Limit = 0, rf_Offset = 0\<rparr>"

definition Schedule ::
  "'s store_ops \<Rightarrow> sched_world \<Rightarrow> sched \<times> 's \<Rightarrow> (err + task_instance list) \<times> sched \<times> 's" where
  "Schedule ops w st =
     (let (sch, s) = st in
      case op_ListRuns ops running_filter s of
        Inl e \<Rightarrow> (Inl (Err ''list running runs: %w'' [FErr e]), sch, s)
      | Inr rs \<Rightarrow>
          (let (ready, sch, s) = fold (schedule_run ops w) rs ([], sch, s)
           in (Inr ready, sch, s)))"

section \<open>Completion, registration, start and stop\<close>

definition ReportCompletion ::
  "'s store_ops \<Rightarrow> time \<Rightarrow> string \<Rightarrow> task_result \<Rightarrow> 's \<Rightarrow> err option \<times> 's" where
  "ReportCompletion ops now taskID res s =
     (case op_GetTaskInstance ops (tr_TaskInstanceID res) s of
        Inl e \<Rightarrow> (Some (Err ''get task instance: %w'' [FErr e]), s)
      | Inr ti \<Rightarrow>
          (let ti = ti\<lparr>ti_Status := tr_Status res, ti_Output := tr_Output res,
                      ti_Error := tr_Error res, ti_EndTime := now\<rparr>
           in case op_UpdateTaskInstance ops ti s of
                Inl e \<Rightarrow> (Some (Err ''update task instance: %w'' [FErr e]), s)
              | Inr s' \<Rightarrow> (None, s')))"

text \<open>
  \<open>cron_add\<close> is \<^verbatim>\<open>cron.AddFunc\<close> of the cron package on an expression: an error, if it does not
  parse.
\<close>

definition RegisterDAG ::
  "'s store_ops \<Rightarrow> (string \<Rightarrow> err option) \<Rightarrow> dag \<Rightarrow> sched \<times> 's \<Rightarrow> err option \<times> sched \<times> 's" where
  "RegisterDAG ops cron_add d st =
     (let (sch, s) = st in
      case op_SaveDAG ops d s of
        Inl e \<Rightarrow> (Some (Err ''save DAG: %w'' [FErr e]), sch, s)
      | Inr (d, s) \<Rightarrow>
          let sch = sch\<lparr>dagIndex := fmupd (dag_ID d) d (dagIndex sch)\<rparr> in
          case Schedule_of d of
            None \<Rightarrow> (None, sch, s)
          | Some c \<Rightarrow>
              if Expression c = '''' then (None, sch, s)
              else case cron_add (Expression c) of
                     Some e \<Rightarrow>
                       (Some (Err ''add cron schedule for DAG %s: %w'' [FStr (dag_ID d), FErr e]), sch, s)
                   | None \<Rightarrow>
                       (None, sch\<lparr>cronEntries := cronEntries sch @ [(Expression c, d)]\<rparr>, s))"

text \<open>One tick of the loop that \<open>Start\<close> begins: \<open>Schedule\<close>, whose result is dropped.\<close>

definition start_tick :: "'s store_ops \<Rightarrow> sched_world \<Rightarrow> sched \<times> 's \<Rightarrow> sched \<times> 's" where
  "start_tick ops w st = snd (Schedule ops w st)"

text \<open>Closing a closed channel panics.\<close>

definition Stop :: "sched \<Rightarrow> sched outcome" where
  "Stop sch = (if stopClosed sch then Panic else Ret (sch\<lparr>stopClosed := True\<rparr>))"

section \<open>What scheduling is meant to do\<close>

text \<open>All dependencies of a task have a successful instance in the run.\<close>

definition deps_met :: "(string, task_instance) fmap \<Rightarrow> string \<Rightarrow> task \<Rightarrow> bool" where
  "deps_met tis rid t \<longleftrightarrow> (\<forall>dep \<in> set (Dependencies t). \<exists>ti.
     fmlookup tis (ti_ID ti) = Some ti \<and> ti_RunID ti = rid \<and> ti_TaskID ti = dep \<and>
     ti_Status ti = StatusSuccess)"

definition known_dag :: "(string, dag) fmap \<Rightarrow> (string, dag) fmap \<Rightarrow> string \<Rightarrow> dag option" where
  "known_dag index stored i =
     (case fmlookup index i of Some d \<Rightarrow> Some d | None \<Rightarrow> fmlookup stored i)"

text \<open>\<open>known\<close> is the DAG of an ID; \<open>rs\<close> and \<open>tis\<close> are the runs and the task instances.\<close>

definition due ::
  "(string \<Rightarrow> dag option) \<Rightarrow> (string, dag_run) fmap \<Rightarrow> (string, task_instance) fmap \<Rightarrow>
     task_instance \<Rightarrow> bool" where
  "due known rs tis ti \<longleftrightarrow> ti_Status ti = StatusPending \<and>
     (\<exists>r d t. fmlookup rs (ti_RunID ti) = Some r \<and> run_Status r = StatusRunning \<and>
        known (run_DAGID r) = Some d \<and> fmlookup (Tasks d) (ti_TaskID ti) = Some t \<and>
        deps_met tis (ti_RunID ti) t)"

definition one_instance :: "(string, task_instance) fmap \<Rightarrow> bool" where
  "one_instance tis \<longleftrightarrow> (\<forall>i j a b. fmlookup tis i = Some a \<longrightarrow> fmlookup tis j = Some b \<longrightarrow>
     ti_RunID a = ti_RunID b \<longrightarrow> ti_TaskID a = ti_TaskID b \<longrightarrow> i = j)"

lemma one_instanceD:
  "one_instance tis \<Longrightarrow> fmlookup tis i = Some a \<Longrightarrow> fmlookup tis j = Some b \<Longrightarrow>
     ti_RunID a = ti_RunID b \<Longrightarrow> ti_TaskID a = ti_TaskID b \<Longrightarrow> i = j"
  by (simp add: one_instance_def)

text \<open>The task instances after scheduling the runs in \<open>P\<close>.\<close>

definition queued_in ::
  "sched_world \<Rightarrow> (task_instance \<Rightarrow> bool) \<Rightarrow> string set \<Rightarrow> task_instance \<Rightarrow> task_instance" where
  "queued_in w D P ti = (if ti_RunID ti \<in> P \<and> D ti then mark_queued w ti else ti)"

definition all_terminal :: "(string, task_instance) fmap \<Rightarrow> string \<Rightarrow> bool" where
  "all_terminal tis rid \<longleftrightarrow>
     (\<forall>i ti. fmlookup tis i = Some ti \<longrightarrow> ti_RunID ti = rid \<longrightarrow> IsTerminal (ti_Status ti))"

definition any_failed :: "(string, task_instance) fmap \<Rightarrow> string \<Rightarrow> bool" where
  "any_failed tis rid \<longleftrightarrow>
     (\<exists>i ti. fmlookup tis i = Some ti \<and> ti_RunID ti = rid \<and> ti_Status ti = StatusFailed)"

text \<open>A run after the check for completion, given all task instances after queueing.\<close>

definition closed_run ::
  "sched_world \<Rightarrow> (string \<Rightarrow> time) \<Rightarrow> (string \<Rightarrow> dag option) \<Rightarrow> (string, task_instance) fmap \<Rightarrow>
     dag_run \<Rightarrow> dag_run" where
  "closed_run w clock known tis r =
     (if run_Status r = StatusRunning \<and> known (run_DAGID r) \<noteq> None \<and> all_terminal tis (run_ID r)
      then r\<lparr>run_Status := (if any_failed tis (run_ID r) then StatusFailed else StatusSuccess),
             run_EndTime := sw_end w (run_ID r), run_UpdatedAt := clock (run_ID r)\<rparr>
      else r)"

section \<open>The status map of a run\<close>

lemma fold_status_map:
  "fmlookup (fold (\<lambda>ti m. fmupd (ti_TaskID ti) (ti_Status ti) m) tis m) k =
     (case rev (filter (\<lambda>ti. ti_TaskID ti = k) tis) of [] \<Rightarrow> fmlookup m k | ti # _ \<Rightarrow> Some (ti_Status ti))"
  by (induction tis rule: rev_induct) auto

lemma get_status_map:
  assumes "ti \<in> set tis" "\<And>a b. a \<in> set tis \<Longrightarrow> b \<in> set tis \<Longrightarrow> ti_TaskID a = ti_TaskID b \<Longrightarrow> a = b"
  shows "get_status (status_map tis) (ti_TaskID ti) = ti_Status ti"
proof -
  have "\<forall>a \<in> set (filter (\<lambda>a. ti_TaskID a = ti_TaskID ti) tis). a = ti" using assms by auto
  moreover have "filter (\<lambda>a. ti_TaskID a = ti_TaskID ti) tis \<noteq> []" using assms(1) by (auto simp: filter_empty_conv)
  ultimately have "\<exists>xs. rev (filter (\<lambda>a. ti_TaskID a = ti_TaskID ti) tis) = ti # xs"
    by (metis list.set_intros(1) neq_Nil_conv rev_is_Nil_conv set_rev)
  then show ?thesis by (auto simp: get_status_def status_map_def fold_status_map)
qed

lemma get_status_map_none:
  "k \<notin> ti_TaskID ` set tis \<Longrightarrow> get_status (status_map tis) k = StatusPending"
proof -
  assume "k \<notin> ti_TaskID ` set tis"
  then have "filter (\<lambda>ti. ti_TaskID ti = k) tis = []" by (auto simp: filter_empty_conv)
  then show ?thesis by (simp add: get_status_def status_map_def fold_status_map)
qed

lemma get_status_success:
  assumes "\<And>a b. a \<in> set tis \<Longrightarrow> b \<in> set tis \<Longrightarrow> ti_TaskID a = ti_TaskID b \<Longrightarrow> a = b"
  shows "get_status (status_map tis) k = StatusSuccess \<longleftrightarrow>
    (\<exists>ti \<in> set tis. ti_TaskID ti = k \<and> ti_Status ti = StatusSuccess)"
proof (cases "k \<in> ti_TaskID ` set tis")
  case True
  then obtain ti where "ti \<in> set tis" "k = ti_TaskID ti" by auto
  then show ?thesis using get_status_map [of ti tis] assms by auto
next
  case False
  then show ?thesis by (auto simp: get_status_map_none)
qed

section \<open>The loops of Schedule over any store\<close>

text \<open>The instances of tasks in \<open>K\<close> that are pending get queued.\<close>

definition queued_tasks :: "sched_world \<Rightarrow> string set \<Rightarrow> task_instance \<Rightarrow> task_instance" where
  "queued_tasks w K ti =
     (if ti_TaskID ti \<in> K \<and> ti_Status ti = StatusPending then mark_queued w ti else ti)"

lemma mark_queued_simps [simp]:
  "ti_ID (mark_queued w ti) = ti_ID ti" "ti_RunID (mark_queued w ti) = ti_RunID ti"
  "ti_TaskID (mark_queued w ti) = ti_TaskID ti" "ti_Status (mark_queued w ti) = StatusQueued"
  by (simp_all add: mark_queued_def)

lemma queued_tasks_simps [simp]:
  "ti_ID (queued_tasks w K ti) = ti_ID ti" "ti_RunID (queued_tasks w K ti) = ti_RunID ti"
  "ti_TaskID (queued_tasks w K ti) = ti_TaskID ti"
  by (simp_all add: queued_tasks_def)

lemma queued_tasks_pick:
  "ti_TaskID ti \<in> K \<Longrightarrow> ti_Status ti = StatusPending \<Longrightarrow> queued_tasks w K ti = mark_queued w ti"
  by (simp add: queued_tasks_def)

lemma queued_tasks_skip:
  "\<not> (ti_TaskID ti \<in> K \<and> ti_Status ti = StatusPending) \<Longrightarrow> queued_tasks w K ti = ti"
  by (auto simp: queued_tasks_def)

lemma queued_tasks_insert:
  "queued_tasks w K (queued_tasks w {k} ti) = queued_tasks w (insert k K) ti"
  by (auto simp: queued_tasks_def)

text \<open>What one pass over the instances puts on the list of ready instances.\<close>

definition picked :: "sched_world \<Rightarrow> string list \<Rightarrow> task_instance list \<Rightarrow> task_instance list" where
  "picked w ks tis = concat (map (\<lambda>k. map (mark_queued w)
     (filter (\<lambda>ti. ti_TaskID ti = k \<and> ti_Status ti = StatusPending) tis)) ks)"

lemma picked_queued:
  "k \<notin> set ks \<Longrightarrow> picked w ks (map (queued_tasks w {k}) tis) = picked w ks tis"
proof -
  assume k: "k \<notin> set ks"
  have "filter (\<lambda>ti. ti_TaskID ti = k' \<and> ti_Status ti = StatusPending) (map (queued_tasks w {k}) tis) =
      filter (\<lambda>ti. ti_TaskID ti = k' \<and> ti_Status ti = StatusPending) tis" if "k' \<in> set ks" for k'
    using k that by (induction tis) (auto simp: queued_tasks_def)
  then show ?thesis by (auto simp: picked_def intro!: arg_cong [of _ _ concat])
qed

lemma set_picked:
  "set (picked w ks tis) =
     mark_queued w ` {ti \<in> set tis. ti_TaskID ti \<in> set ks \<and> ti_Status ti = StatusPending}"
  by (auto simp: picked_def)

lemma distinct_picked:
  "distinct ks \<Longrightarrow> distinct (map ti_ID tis) \<Longrightarrow> distinct (map ti_ID (picked w ks tis))"
proof (induction ks)
  case (Cons k ks)
  have eq: "map (ti_ID \<circ> mark_queued w) xs = map ti_ID xs" for xs by simp
  have "distinct (map ti_ID (filter (\<lambda>ti. ti_TaskID ti = k \<and> ti_Status ti = StatusPending) tis))"
    using Cons.prems(2) by (rule distinct_map_filter)
  moreover have "ti_ID a \<noteq> ti_ID b"
    if "a \<in> set tis" "b \<in> set tis" "ti_TaskID a = k" "ti_TaskID b \<in> set ks" for a b
    using that Cons.prems by (metis distinct.simps(2) distinct_map inj_onD)
  ultimately show ?case
    using Cons set_picked [of w ks tis] by (auto simp: picked_def eq)
qed (simp add: picked_def)

context store_contract
begin

text \<open>The instances in a list are those in the store.\<close>

definition synced :: "task_instance list \<Rightarrow> 's \<Rightarrow> bool" where
  "synced tis s \<longleftrightarrow> (\<forall>ti \<in> set tis. fmlookup (ti_map s) (ti_ID ti) = Some ti)"

lemma queue_task_spec:
  "inv s \<Longrightarrow> distinct (map ti_ID tis) \<Longrightarrow> synced tis s \<Longrightarrow>
   \<exists>s'. queue_task ops w k tis s ready =
       (map (queued_tasks w {k}) tis, s', ready @ picked w [k] tis) \<and>
     inv s' \<and> dag_map s' = dag_map s \<and> run_map s' = run_map s \<and>
     (\<forall>i. fmlookup (ti_map s') i = (if i \<in> ti_ID ` set tis
        then map_option (queued_tasks w {k}) (fmlookup (ti_map s) i) else fmlookup (ti_map s) i))"
proof (induction tis arbitrary: s ready)
  case Nil
  then show ?case by (simp add: picked_def)
next
  case (Cons ti tis)
  have tis: "distinct (map ti_ID tis)" "ti_ID ti \<notin> ti_ID ` set tis" using Cons.prems(2) by auto
  have here: "fmlookup (ti_map s) (ti_ID ti) = Some ti" and rest: "synced tis s"
    using Cons.prems(3) by (auto simp: synced_def)
  show ?case
  proof (cases "ti_TaskID ti = k \<and> ti_Status ti = StatusPending")
    case True
    then obtain s1 where s1: "op_UpdateTaskInstance ops (mark_queued w ti) s = Inr s1" "inv s1"
        "ti_map s1 = fmupd (ti_ID ti) (mark_queued w ti) (ti_map s)"
        "dag_map s1 = dag_map s" "run_map s1 = run_map s"
      using update_ti [of s "mark_queued w ti"] Cons.prems(1) here by auto
    have "synced tis s1" using rest tis(2) by (auto simp: synced_def s1(3))
    from Cons.IH [OF s1(2) tis(1) this, of "ready @ [mark_queued w ti]"]
    show ?thesis
      using True s1 tis(2) here by (auto simp: picked_def Let_def queued_tasks_pick queued_tasks_skip)
  next
    case False
    from Cons.IH [OF Cons.prems(1) tis(1) rest, of ready]
    show ?thesis
      using False tis(2) here by (auto simp: picked_def Let_def queued_tasks_pick queued_tasks_skip)
  qed
qed

lemma synced_queued:
  assumes "synced tis s" "distinct (map ti_ID tis)"
    and "\<forall>i. fmlookup (ti_map s') i = (if i \<in> ti_ID ` set tis
        then map_option (queued_tasks w K) (fmlookup (ti_map s) i) else fmlookup (ti_map s) i)"
  shows "synced (map (queued_tasks w K) tis) s'"
  using assms by (auto simp: synced_def)

lemma queue_tasks_spec:
  "inv s \<Longrightarrow> distinct (map ti_ID tis) \<Longrightarrow> synced tis s \<Longrightarrow> distinct (map task_ID ts) \<Longrightarrow>
   \<exists>s'. queue_tasks ops w ts tis s ready =
       (map (queued_tasks w (task_ID ` set ts)) tis, s', ready @ picked w (map task_ID ts) tis) \<and>
     inv s' \<and> dag_map s' = dag_map s \<and> run_map s' = run_map s \<and>
     (\<forall>i. fmlookup (ti_map s') i = (if i \<in> ti_ID ` set tis
        then map_option (queued_tasks w (task_ID ` set ts)) (fmlookup (ti_map s) i)
        else fmlookup (ti_map s) i))"
proof (induction ts arbitrary: tis s ready)
  case Nil
  have "queued_tasks w {} = id" by (simp add: queued_tasks_def fun_eq_iff)
  then show ?case using Nil by (simp add: picked_def option.map_id)
next
  case (Cons t ts)
  let ?k = "task_ID t"
  obtain s1 where s1: "queue_task ops w ?k tis s ready =
        (map (queued_tasks w {?k}) tis, s1, ready @ picked w [?k] tis)"
      "inv s1" "dag_map s1 = dag_map s" "run_map s1 = run_map s"
      "\<forall>i. fmlookup (ti_map s1) i = (if i \<in> ti_ID ` set tis
        then map_option (queued_tasks w {?k}) (fmlookup (ti_map s) i) else fmlookup (ti_map s) i)"
    using queue_task_spec [OF Cons.prems(1-3)] by blast
  let ?tis = "map (queued_tasks w {?k}) tis"
  have d: "distinct (map ti_ID ?tis)" using Cons.prems(2) by (simp add: comp_def)
  have sy: "synced ?tis s1" using Cons.prems(3,2) s1(5) by (rule synced_queued)
  have ts: "distinct (map task_ID ts)" "?k \<notin> set (map task_ID ts)" using Cons.prems(4) by auto
  from Cons.IH [OF s1(2) d sy ts(1), of "ready @ picked w [?k] tis"]
  obtain s2 where s2: "queue_tasks ops w ts ?tis s1 (ready @ picked w [?k] tis) =
        (map (queued_tasks w (task_ID ` set ts)) ?tis, s2,
         (ready @ picked w [?k] tis) @ picked w (map task_ID ts) ?tis)"
      "inv s2" "dag_map s2 = dag_map s1" "run_map s2 = run_map s1"
      "\<forall>i. fmlookup (ti_map s2) i = (if i \<in> ti_ID ` set ?tis
        then map_option (queued_tasks w (task_ID ` set ts)) (fmlookup (ti_map s1) i)
        else fmlookup (ti_map s1) i)"
    by blast
  have "ti_ID ` set ?tis = ti_ID ` set tis" by (simp add: image_comp comp_def)
  then have "\<forall>i. fmlookup (ti_map s2) i = (if i \<in> ti_ID ` set tis
        then map_option (queued_tasks w (task_ID ` set (t # ts))) (fmlookup (ti_map s) i)
        else fmlookup (ti_map s) i)"
    using s1(5) s2(5) by (simp add: option.map_comp comp_def queued_tasks_insert)
  then show ?case
    using s1 s2 by (simp add: queued_tasks_insert comp_def picked_queued [OF ts(2)])
      (simp add: picked_def)
qed

lemma check_complete_spec:
  "inv s \<Longrightarrow> synced tis s \<Longrightarrow> check_complete ops s tis a f =
     (a \<and> (\<forall>ti \<in> set tis. IsTerminal (ti_Status ti)),
      f \<or> (\<exists>ti \<in> set tis. ti_Status ti = StatusFailed))"
proof (induction tis arbitrary: a f)
  case (Cons ti tis)
  have "op_GetTaskInstance ops (ti_ID ti) s = Inr ti"
    using get_ti [OF Cons.prems(1)] Cons.prems(2) by (simp add: synced_def)
  then show ?case using Cons by (auto simp: synced_def Let_def)
qed simp

end

section \<open>One run, and all runs\<close>

lemma queued_in_simps [simp]:
  "ti_ID (queued_in w D P ti) = ti_ID ti" "ti_RunID (queued_in w D P ti) = ti_RunID ti"
  "ti_TaskID (queued_in w D P ti) = ti_TaskID ti"
  by (simp_all add: queued_in_def)

lemma picked_ready:
  assumes one: "\<And>a b. a \<in> set tis \<Longrightarrow> b \<in> set tis \<Longrightarrow> ti_TaskID a = ti_TaskID b \<Longrightarrow> a = b"
    and keyed: "well_keyed (Tasks d)" and ord: "ranges ord (Tasks d)"
    and ti: "ti \<in> set tis"
  shows "ti_TaskID ti \<in> task_ID ` set (ReadyTasks ord d (status_map tis)) \<and> ti_Status ti = StatusPending \<longleftrightarrow>
    ti_Status ti = StatusPending \<and> (\<exists>t. fmlookup (Tasks d) (ti_TaskID ti) = Some t \<and>
      (\<forall>dep \<in> set (Dependencies t). \<exists>a \<in> set tis. ti_TaskID a = dep \<and> ti_Status a = StatusSuccess))"
proof -
  have st: "get_status (status_map tis) (ti_TaskID ti) = ti_Status ti"
    using ti one by (rule get_status_map)
  have "ti_TaskID ti \<in> task_ID ` set (ReadyTasks ord d (status_map tis)) \<longleftrightarrow>
      (\<exists>t. fmlookup (Tasks d) (ti_TaskID ti) = Some t \<and> is_ready (status_map tis) t)"
    unfolding set_ReadyTasks [OF ord] using well_keyedD [OF keyed] by (auto simp: image_iff)
  moreover have "is_ready (status_map tis) t \<longleftrightarrow> ti_Status ti = StatusPending \<and>
      (\<forall>dep \<in> set (Dependencies t). \<exists>a \<in> set tis. ti_TaskID a = dep \<and> ti_Status a = StatusSuccess)"
    if "fmlookup (Tasks d) (ti_TaskID ti) = Some t" for t
    using well_keyedD [OF keyed that] st get_status_success [of tis] one by (simp add: is_ready_def)
  ultimately show ?thesis by blast
qed

definition orders_ok :: "sched_world \<Rightarrow> bool" where
  "orders_ok w \<longleftrightarrow> (\<forall>rid d. ranges (sw_tasks w rid d) (Tasks d))"

context store_contract
begin

text \<open>
  The state in the middle of the loop over the runs, those in \<open>P\<close> being done: \<open>tis\<close> and \<open>rs\<close> are
  the task instances and runs at the start, \<open>known\<close> the DAGs.
\<close>

definition scheduled ::
  "sched_world \<Rightarrow> (string \<Rightarrow> dag option) \<Rightarrow> (string, dag) fmap \<Rightarrow> (string, dag_run) fmap \<Rightarrow>
     (string, task_instance) fmap \<Rightarrow> string set \<Rightarrow> task_instance list \<times> sched \<times> 's \<Rightarrow> bool" where
  "scheduled w known ds rs tis P st \<longleftrightarrow>
     (case st of (ready, sch, s) \<Rightarrow>
        inv s \<and> dag_map s = ds \<and> known_dag (dagIndex sch) ds = known \<and>
        ti_map s = fmmap (queued_in w (due known rs tis) P) tis \<and>
        run_map s = fmmap (\<lambda>r. if run_ID r \<in> P
          then closed_run w clock known (fmmap (queued_in w (due known rs tis) {run_ID r}) tis) r
          else r) rs \<and>
        distinct (map ti_ID ready) \<and>
        set ready = mark_queued w ` {ti. fmlookup tis (ti_ID ti) = Some ti \<and> ti_RunID ti \<in> P \<and>
          due known rs tis ti})"

lemma find_dag_known:
  assumes "inv s" "known_dag (dagIndex sch) (dag_map s) = known"
  shows "case known i of
      None \<Rightarrow> find_dag ops i (sch, s) = None
    | Some d \<Rightarrow> \<exists>sch'. find_dag ops i (sch, s) = Some (d, sch') \<and>
        known_dag (dagIndex sch') (dag_map s) = known"
proof (cases "fmlookup (dagIndex sch) i")
  case (Some d)
  then show ?thesis unfolding assms(2) [symmetric] by (auto simp: find_dag_def known_dag_def)
next
  case ix: None
  show ?thesis
  proof (cases "op_GetDAG ops i s")
    case (Inl e)
    then have "fmlookup (dag_map s) i = None"
      using get_dag [OF assms(1), of i] by (cases "fmlookup (dag_map s) i") auto
    then show ?thesis using Inl ix unfolding assms(2) [symmetric] by (auto simp: find_dag_def known_dag_def)
  next
    case (Inr d)
    then have "fmlookup (dag_map s) i = Some d" using get_dag [OF assms(1)] by blast
    then show ?thesis using Inr ix unfolding assms(2) [symmetric]
      by (auto simp: find_dag_def known_dag_def fun_eq_iff)
  qed
qed

end

text \<open>Queueing the due instances of one more run.\<close>

lemma queued_in_other: "ti_RunID ti \<noteq> rid \<Longrightarrow> queued_in w D (insert rid P) ti = queued_in w D P ti"
  by (simp add: queued_in_def)

lemma queued_in_new: "ti_RunID ti \<notin> P \<Longrightarrow> queued_in w D P ti = ti"
  by (simp add: queued_in_def)

lemma due_deps:
  assumes "fmlookup rs rid = Some r" "run_Status r = StatusRunning" "known (run_DAGID r) = Some d"
    and "ti_RunID ti = rid"
  shows "due known rs tis ti \<longleftrightarrow> ti_Status ti = StatusPending \<and>
    (\<exists>t. fmlookup (Tasks d) (ti_TaskID ti) = Some t \<and> deps_met tis rid t)"
  using assms by (auto simp: due_def)

definition keyed_tis :: "(string, task_instance) fmap \<Rightarrow> bool" where
  "keyed_tis tis \<longleftrightarrow> (\<forall>i ti. fmlookup tis i = Some ti \<longrightarrow> ti_ID ti = i)"

definition keyed_runs :: "(string, dag_run) fmap \<Rightarrow> bool" where
  "keyed_runs rs \<longleftrightarrow> (\<forall>i r. fmlookup rs i = Some r \<longrightarrow> run_ID r = i)"

text \<open>What a call of \<open>Schedule\<close> finds: DAGs keyed by task ID, one instance per run and task.\<close>

definition plan_ok ::
  "(string \<Rightarrow> dag option) \<Rightarrow> (string, dag_run) fmap \<Rightarrow> (string, task_instance) fmap \<Rightarrow> bool" where
  "plan_ok known rs tis \<longleftrightarrow> (\<forall>i d. known i = Some d \<longrightarrow> well_keyed (Tasks d)) \<and>
     one_instance tis \<and> keyed_tis tis \<and> keyed_runs rs"

context store_contract
begin

text \<open>The instances that the store lists for a run that was not visited yet.\<close>

lemma list_unvisited:
  assumes st: "scheduled w known ds rs tis P (ready, sch, s)" and new: "rid \<notin> P"
  obtains L where "op_ListTaskInstances ops rid s = Inr L" "distinct (map ti_ID L)" "synced L s"
    "set L = {ti. fmlookup tis (ti_ID ti) = Some ti \<and> ti_RunID ti = rid}"
proof -
  have s: "inv s" "ti_map s = fmmap (queued_in w (due known rs tis) P) tis"
    using st by (simp_all add: scheduled_def)
  obtain L where L: "op_ListTaskInstances ops rid s = Inr L" "distinct (map ti_ID L)"
      "set L = {ti. fmlookup (ti_map s) (ti_ID ti) = Some ti \<and> ti_RunID ti = rid}"
    using list_tis [OF s(1)] by blast
  have "fmlookup (ti_map s) (ti_ID ti) = Some ti \<longleftrightarrow> fmlookup tis (ti_ID ti) = Some ti"
    if "ti_RunID ti = rid" for ti
    using that new s(2) by (auto simp: queued_in_new)
  then have "set L = {ti. fmlookup tis (ti_ID ti) = Some ti \<and> ti_RunID ti = rid}"
    using L(3) by blast
  with L show ?thesis using that by (auto simp: synced_def)
qed

text \<open>In the list of the instances of a run, a pending one has a ready task exactly if it is due.\<close>

lemma ready_iff_due:
  assumes ok: "plan_ok known rs tis" "ranges ord (Tasks d)"
    and r: "fmlookup rs rid = Some r" "run_Status r = StatusRunning" "known (run_DAGID r) = Some d"
    and L: "set L = {ti. fmlookup tis (ti_ID ti) = Some ti \<and> ti_RunID ti = rid}" and ti: "ti \<in> set L"
  shows "ti_TaskID ti \<in> task_ID ` set (ReadyTasks ord d (status_map L)) \<and> ti_Status ti = StatusPending \<longleftrightarrow>
    due known rs tis ti"
proof -
  have keyed: "well_keyed (Tasks d)" "one_instance tis" using ok r(3) by (auto simp: plan_ok_def)
  have one: "a = b" if "a \<in> set L" "b \<in> set L" "ti_TaskID a = ti_TaskID b" for a b
  proof -
    have ab: "fmlookup tis (ti_ID a) = Some a" "fmlookup tis (ti_ID b) = Some b" "ti_RunID a = ti_RunID b"
      using that(1,2) L by simp_all
    have "ti_ID a = ti_ID b" using ab that(3) by (rule one_instanceD [OF keyed(2)])
    then show ?thesis using ab(1,2) by (metis option.inject)
  qed
  have deps: "deps_met tis rid t \<longleftrightarrow>
      (\<forall>dep \<in> set (Dependencies t). \<exists>a \<in> set L. ti_TaskID a = dep \<and> ti_Status a = StatusSuccess)" for t
    unfolding deps_met_def L by blast
  have "ti_RunID ti = rid" using ti L by simp
  from due_deps [of rs rid r known d ti tis, OF r this] show ?thesis
    using picked_ready [OF one keyed(1) ok(2) ti] unfolding deps by blast
qed

text \<open>Queueing within one more run.\<close>

lemma queued_one_more:
  assumes keyed: "keyed_tis tis" and L: "set L = {ti. fmlookup tis (ti_ID ti) = Some ti \<and> ti_RunID ti = rid}"
    and new: "rid \<notin> P" and q: "\<And>ti. ti \<in> set L \<Longrightarrow> f ti = queued_in w D {rid} ti"
    and m: "\<And>i. fmlookup m i = (if i \<in> ti_ID ` set L
        then map_option f (fmlookup (fmmap (queued_in w D P) tis) i) else fmlookup (fmmap (queued_in w D P) tis) i)"
  shows "m = fmmap (queued_in w D (insert rid P)) tis"
proof (rule fmap_ext)
  fix i
  show "fmlookup m i = fmlookup (fmmap (queued_in w D (insert rid P)) tis) i"
  proof (cases "i \<in> ti_ID ` set L")
    case True
    then obtain ti where ti: "ti \<in> set L" "i = ti_ID ti" by blast
    have t: "fmlookup tis i = Some ti" "ti_RunID ti = rid" using ti L by auto
    then show ?thesis using True m q [OF ti(1)] new by (simp add: queued_in_new) (simp add: queued_in_def)
  next
    case False
    have "queued_in w D (insert rid P) ti = queued_in w D P ti" if "fmlookup tis i = Some ti" for ti
    proof (rule queued_in_other)
      have "ti_ID ti = i" using keyed that by (simp add: keyed_tis_def)
      then show "ti_RunID ti \<noteq> rid" using False L that by auto
    qed
    then show ?thesis using False m by (cases "fmlookup tis i") auto
  qed
qed

text \<open>Queueing the ready tasks of the run is queueing its due instances.\<close>

lemma queue_run:
  assumes st: "scheduled w known ds rs tis P (ready, sch, s)" and new: "rid \<notin> P"
    and ok: "plan_ok known rs tis" "ranges ord (Tasks d)"
    and r: "fmlookup rs rid = Some r" "run_Status r = StatusRunning" "known (run_DAGID r) = Some d"
    and L: "distinct (map ti_ID L)" "synced L s"
      "set L = {ti. fmlookup tis (ti_ID ti) = Some ti \<and> ti_RunID ti = rid}"
  defines "D \<equiv> due known rs tis"
  obtains s' ready' where
    "queue_tasks ops w (ReadyTasks ord d (status_map L)) L s ready =
       (map (queued_in w D {rid}) L, s', ready @ ready')"
    "inv s'" "dag_map s' = dag_map s" "run_map s' = run_map s"
    "ti_map s' = fmmap (queued_in w D (insert rid P)) tis"
    "distinct (map ti_ID ready')"
    "set ready' = mark_queued w ` {ti. fmlookup tis (ti_ID ti) = Some ti \<and> ti_RunID ti = rid \<and> D ti}"
proof -
  let ?ts = "ReadyTasks ord d (status_map L)" and ?K = "task_ID ` set (ReadyTasks ord d (status_map L))"
  have keyed: "well_keyed (Tasks d)" using ok r(3) by (auto simp: plan_ok_def)
  have s: "inv s" "ti_map s = fmmap (queued_in w D P) tis"
    using st by (simp_all add: scheduled_def D_def)
  have pick: "ti_TaskID ti \<in> ?K \<and> ti_Status ti = StatusPending \<longleftrightarrow> D ti" if "ti \<in> set L" for ti
    unfolding D_def by (rule ready_iff_due [OF ok r L(3) that])
  have q: "queued_tasks w ?K ti = queued_in w D {rid} ti" if "ti \<in> set L" for ti
    using pick [OF that] that L(3) by (auto simp: queued_tasks_def queued_in_def)
  have dist: "distinct (map task_ID ?ts)" using keyed ok(2) by (rule distinct_ReadyTasks)
  from queue_tasks_spec [OF s(1) L(1,2) dist, of w ready]
  obtain s' where s': "queue_tasks ops w ?ts L s ready =
       (map (queued_tasks w ?K) L, s', ready @ picked w (map task_ID ?ts) L)"
     "inv s'" "dag_map s' = dag_map s" "run_map s' = run_map s"
     "\<forall>i. fmlookup (ti_map s') i = (if i \<in> ti_ID ` set L
        then map_option (queued_tasks w ?K) (fmlookup (ti_map s) i) else fmlookup (ti_map s) i)"
    by blast
  have "keyed_tis tis" using ok(1) by (simp add: plan_ok_def)
  from queued_one_more [OF this L(3) new q s'(5) [unfolded s(2), rule_format]]
  have "ti_map s' = fmmap (queued_in w D (insert rid P)) tis" .
  moreover have "map (queued_tasks w ?K) L = map (queued_in w D {rid}) L" using q by simp
  moreover have "{ti \<in> set L. ti_TaskID ti \<in> set (map task_ID ?ts) \<and> ti_Status ti = StatusPending} =
      {ti. fmlookup tis (ti_ID ti) = Some ti \<and> ti_RunID ti = rid \<and> D ti}"
    using pick L(3) by auto
  then have "set (picked w (map task_ID ?ts) L) =
      mark_queued w ` {ti. fmlookup tis (ti_ID ti) = Some ti \<and> ti_RunID ti = rid \<and> D ti}"
    unfolding set_picked by simp
  moreover have "distinct (map ti_ID (picked w (map task_ID ?ts) L))"
    using dist L(1) by (rule distinct_picked)
  ultimately show ?thesis using that s' by simp
qed

end

text \<open>Which instances of a run the final check sees.\<close>

lemma set_queued_list:
  assumes "set L = {ti. fmlookup tis (ti_ID ti) = Some ti \<and> ti_RunID ti = rid}" "keyed_tis tis"
  shows "set (map (queued_in w D P) L) =
    {ti. (\<exists>i. fmlookup (fmmap (queued_in w D P) tis) i = Some ti) \<and> ti_RunID ti = rid}"
proof (intro set_eqI iffI)
  fix x assume "x \<in> set (map (queued_in w D P) L)"
  then obtain a where "x = queued_in w D P a" "fmlookup tis (ti_ID a) = Some a" "ti_RunID a = rid"
    using assms(1) by auto
  then show "x \<in> {ti. (\<exists>i. fmlookup (fmmap (queued_in w D P) tis) i = Some ti) \<and> ti_RunID ti = rid}"
    by (auto intro!: exI [of _ "ti_ID a"])
next
  fix x assume "x \<in> {ti. (\<exists>i. fmlookup (fmmap (queued_in w D P) tis) i = Some ti) \<and> ti_RunID ti = rid}"
  then obtain i a where a: "fmlookup tis i = Some a" "x = queued_in w D P a" "ti_RunID a = rid" by auto
  then have "ti_ID a = i" using assms(2) by (simp add: keyed_tis_def)
  then have "a \<in> set L" using a assms(1) by simp
  then show "x \<in> set (map (queued_in w D P) L)" using a(2) by simp
qed

lemma all_terminal_list:
  assumes "set L = {ti. fmlookup tis (ti_ID ti) = Some ti \<and> ti_RunID ti = rid}" "keyed_tis tis"
  shows "(\<forall>ti \<in> set (map (queued_in w D P) L). IsTerminal (ti_Status ti)) \<longleftrightarrow>
      all_terminal (fmmap (queued_in w D P) tis) rid"
    and "(\<exists>ti \<in> set (map (queued_in w D P) L). ti_Status ti = StatusFailed) \<longleftrightarrow>
      any_failed (fmmap (queued_in w D P) tis) rid"
  unfolding set_queued_list [OF assms] all_terminal_def any_failed_def by blast+

lemma visit_run:
  assumes "keyed_runs rs" "fmlookup rs rid = Some r"
  shows "fmupd rid (f r) (fmmap (\<lambda>r. if run_ID r \<in> P then f r else r) rs) =
    fmmap (\<lambda>r. if run_ID r \<in> insert rid P then f r else r) rs"
proof (rule fmap_ext)
  fix i
  show "fmlookup (fmupd rid (f r) (fmmap (\<lambda>r. if run_ID r \<in> P then f r else r) rs)) i =
      fmlookup (fmmap (\<lambda>r. if run_ID r \<in> insert rid P then f r else r) rs) i"
    using assms by (cases "fmlookup rs i") (auto simp: keyed_runs_def)
qed

lemma keep_run:
  assumes "keyed_runs rs" "fmlookup rs rid = Some r" "f r = r"
  shows "fmmap (\<lambda>r. if run_ID r \<in> insert rid P then f r else r) rs =
    fmmap (\<lambda>r. if run_ID r \<in> P then f r else r) rs"
proof (rule fmap_ext)
  fix i
  show "fmlookup (fmmap (\<lambda>r. if run_ID r \<in> insert rid P then f r else r) rs) i =
      fmlookup (fmmap (\<lambda>r. if run_ID r \<in> P then f r else r) rs) i"
    using assms by (cases "fmlookup rs i") (auto simp: keyed_runs_def)
qed

text \<open>Instances queued for different runs are different.\<close>

lemma marked_apart:
  assumes xs: "set xs = mark_queued w ` {ti. fmlookup tis (ti_ID ti) = Some ti \<and> ti_RunID ti \<in> P \<and> D ti}"
    and ys: "set ys = mark_queued w ` {ti. fmlookup tis (ti_ID ti) = Some ti \<and> ti_RunID ti = rid \<and> D ti}"
    and "rid \<notin> P" "distinct (map ti_ID xs)" "distinct (map ti_ID ys)"
  shows "distinct (map ti_ID (xs @ ys))"
proof -
  have "ti_ID x \<noteq> ti_ID y" if "x \<in> set xs" "y \<in> set ys" for x y
  proof
    assume eq: "ti_ID x = ti_ID y"
    obtain a where a: "x = mark_queued w a" "fmlookup tis (ti_ID a) = Some a" "ti_RunID a \<in> P"
      using \<open>x \<in> set xs\<close> unfolding xs by auto
    obtain b where b: "y = mark_queued w b" "fmlookup tis (ti_ID b) = Some b" "ti_RunID b = rid"
      using \<open>y \<in> set ys\<close> unfolding ys by auto
    have "ti_ID a = ti_ID b" using eq a(1) b(1) by simp
    then have "a = b" using a(2) b(2) by (metis option.inject)
    then show False using a(3) b(3) \<open>rid \<notin> P\<close> by simp
  qed
  then show ?thesis using assms(4,5) by auto
qed

context store_contract
begin

text \<open>The end of a visit: the run is closed if all its instances have ended.\<close>

lemma close_or_keep:
  assumes s1: "inv s1" "run_map s1 = fmmap (\<lambda>r. if run_ID r \<in> P then f r else r) rs"
    and rs: "keyed_runs rs" "fmlookup rs (run_ID r) = Some r"
    and f: "f r = (if a then r\<lparr>run_Status := (if b then StatusFailed else StatusSuccess),
             run_EndTime := sw_end w (run_ID r), run_UpdatedAt := clock (run_ID r)\<rparr> else r)"
  defines "s2 \<equiv> (if a then close_run ops w b r s1 else s1)"
  shows "inv s2 \<and> dag_map s2 = dag_map s1 \<and> ti_map s2 = ti_map s1 \<and>
    run_map s2 = fmmap (\<lambda>r'. if run_ID r' \<in> insert (run_ID r) P then f r' else r') rs"
proof (cases a)
  case True
  have "fmlookup (run_map s1) (run_ID r) \<noteq> None" using s1(2) rs(2) by simp
  with update_run [OF s1(1), of "r\<lparr>run_Status := (if b then StatusFailed else StatusSuccess),
      run_EndTime := sw_end w (run_ID r)\<rparr>"]
  obtain s' where s': "close_run ops w b r s1 = s'" "inv s'" "dag_map s' = dag_map s1"
      "ti_map s' = ti_map s1" "run_map s' = fmupd (run_ID r) (f r) (run_map s1)"
    unfolding f using True by (auto simp: close_run_def Let_def)
  then show ?thesis using True s1(2) visit_run [OF rs, of f P] by (simp add: s2_def)
next
  case False
  then show ?thesis using s1 keep_run [OF rs, of f P] f by (simp add: s2_def)
qed

text \<open>A run of a DAG that nobody knows is passed over.\<close>

lemma schedule_run_unknown:
  assumes st: "scheduled w known ds rs tis P (ready, sch, s)" and ok: "plan_ok known rs tis"
    and r: "fmlookup rs (run_ID r) = Some r" "run_ID r \<notin> P" "known (run_DAGID r) = None"
  shows "scheduled w known ds rs tis (insert (run_ID r) P) (schedule_run ops w r (ready, sch, s))"
proof -
  let ?D = "due known rs tis" and ?P = "insert (run_ID r) P"
  let ?f = "\<lambda>r. closed_run w clock known (fmmap (queued_in w ?D {run_ID r}) tis) r"
  have s: "inv s" "dag_map s = ds" "known_dag (dagIndex sch) ds = known" using st by (simp_all add: scheduled_def)
  have keyed: "keyed_runs rs" using ok by (simp add: plan_ok_def)
  obtain L where "op_ListTaskInstances ops (run_ID r) s = Inr L" using list_unvisited [OF st r(2)] by blast
  then have "schedule_run ops w r (ready, sch, s) = (ready, sch, s)"
    using r(3) find_dag_known [OF s(1), of sch known "run_DAGID r"] s(2,3) by (simp add: schedule_run_def)
  moreover have notD: "\<not> ?D ti" if "ti_RunID ti = run_ID r" for ti
    using that r by (simp add: due_def)
  moreover have "queued_in w ?D ?P = queued_in w ?D P"
    using notD by (auto simp: queued_in_def fun_eq_iff)
  moreover have "{ti. fmlookup tis (ti_ID ti) = Some ti \<and> ti_RunID ti \<in> ?P \<and> ?D ti} =
      {ti. fmlookup tis (ti_ID ti) = Some ti \<and> ti_RunID ti \<in> P \<and> ?D ti}"
    using notD by auto
  moreover have "?f r = r" using r(3) by (simp add: closed_run_def)
  ultimately show ?thesis
    using st keep_run [OF keyed r(1), of ?f P] by (simp add: scheduled_def)
qed

lemma schedule_run_known:
  assumes st: "scheduled w known ds rs tis P (ready, sch, s)"
    and ok: "plan_ok known rs tis" "orders_ok w"
    and r: "fmlookup rs (run_ID r) = Some r" "run_Status r = StatusRunning" "run_ID r \<notin> P"
    and d: "known (run_DAGID r) = Some d"
  shows "scheduled w known ds rs tis (insert (run_ID r) P) (schedule_run ops w r (ready, sch, s))"
proof -
  let ?rid = "run_ID r" and ?D = "due known rs tis" and ?P = "insert (run_ID r) P"
  let ?q = "fmmap (queued_in w ?D {?rid}) tis"
  let ?f = "\<lambda>r. closed_run w clock known (fmmap (queued_in w ?D {run_ID r}) tis) r"
  have s: "inv s" "dag_map s = ds" "known_dag (dagIndex sch) ds = known"
      "run_map s = fmmap (\<lambda>r. if run_ID r \<in> P then ?f r else r) rs" "distinct (map ti_ID ready)"
      "set ready = mark_queued w ` {ti. fmlookup tis (ti_ID ti) = Some ti \<and> ti_RunID ti \<in> P \<and> ?D ti}"
    using st by (simp_all add: scheduled_def)
  have keyed: "keyed_tis tis" "keyed_runs rs" using ok(1) by (simp_all add: plan_ok_def)
  obtain L where L: "op_ListTaskInstances ops ?rid s = Inr L" "distinct (map ti_ID L)" "synced L s"
      "set L = {ti. fmlookup tis (ti_ID ti) = Some ti \<and> ti_RunID ti = ?rid}"
    using list_unvisited [OF st r(3)] by blast
  obtain sch' where sch': "find_dag ops (run_DAGID r) (sch, s) = Some (d, sch')"
      "known_dag (dagIndex sch') ds = known"
    using find_dag_known [OF s(1), of sch known "run_DAGID r"] s(2,3) d by auto
  have ord: "ranges (sw_tasks w ?rid d) (Tasks d)" using ok(2) by (simp add: orders_ok_def)
  obtain s1 ready1 where q: "queue_tasks ops w (ReadyTasks (sw_tasks w ?rid d) d (status_map L)) L s ready =
       (map (queued_in w ?D {?rid}) L, s1, ready @ ready1)"
      "inv s1" "dag_map s1 = dag_map s" "run_map s1 = run_map s"
      "ti_map s1 = fmmap (queued_in w ?D ?P) tis" "distinct (map ti_ID ready1)"
      "set ready1 = mark_queued w ` {ti. fmlookup tis (ti_ID ti) = Some ti \<and> ti_RunID ti = ?rid \<and> ?D ti}"
    using queue_run [OF st r(3) ok(1) ord r(1,2) d L(2-4)] by blast
  have "synced (map (queued_in w ?D {?rid}) L) s1" using L(4) by (auto simp: synced_def q(5) queued_in_def)
  from check_complete_spec [OF q(2) this] all_terminal_list [OF L(4) keyed(1)]
  have "check_complete ops s1 (map (queued_in w ?D {?rid}) L) True False = (all_terminal ?q ?rid, any_failed ?q ?rid)"
    by simp
  then have step: "schedule_run ops w r (ready, sch, s) = (ready @ ready1, sch',
      if all_terminal ?q ?rid then close_run ops w (any_failed ?q ?rid) r s1 else s1)"
    using L(1) sch'(1) q(1) by (simp add: schedule_run_def)
  have "?f r = (if all_terminal ?q ?rid then r\<lparr>run_Status := (if any_failed ?q ?rid then StatusFailed else StatusSuccess),
      run_EndTime := sw_end w ?rid, run_UpdatedAt := clock ?rid\<rparr> else r)"
    using r(2) d by (simp add: closed_run_def)
  note s2 = close_or_keep [OF q(2) s(4) [folded q(4)] keyed(2) r(1) this]
  have "set (ready @ ready1) =
      mark_queued w ` {ti. fmlookup tis (ti_ID ti) = Some ti \<and> ti_RunID ti \<in> ?P \<and> ?D ti}"
    using s(6) q(7) by auto
  then show ?thesis
    using s2 s(2) q(3,5) sch'(2) marked_apart [OF s(6) q(7) r(3) s(5) q(6)] unfolding step scheduled_def by simp
qed

lemma schedule_run_step:
  assumes "scheduled w known ds rs tis P (ready, sch, s)" "plan_ok known rs tis" "orders_ok w"
    and "fmlookup rs (run_ID r) = Some r" "run_Status r = StatusRunning" "run_ID r \<notin> P"
  shows "scheduled w known ds rs tis (insert (run_ID r) P) (schedule_run ops w r (ready, sch, s))"
  using assms schedule_run_unknown schedule_run_known by (cases "known (run_DAGID r)") blast+

lemma schedule_fold:
  assumes ok: "plan_ok known rs tis" "orders_ok w"
  shows "scheduled w known ds rs tis P st \<Longrightarrow> distinct (map run_ID xs) \<Longrightarrow>
    (\<And>r. r \<in> set xs \<Longrightarrow> fmlookup rs (run_ID r) = Some r \<and> run_Status r = StatusRunning) \<Longrightarrow>
    run_ID ` set xs \<inter> P = {} \<Longrightarrow>
    scheduled w known ds rs tis (run_ID ` set xs \<union> P) (fold (schedule_run ops w) xs st)"
proof (induction xs arbitrary: P st)
  case (Cons r xs)
  obtain ready sch s where st: "st = (ready, sch, s)" by (cases st)
  have "scheduled w known ds rs tis (insert (run_ID r) P) (schedule_run ops w r st)"
    using Cons.prems unfolding st by (intro schedule_run_step ok) auto
  then have "scheduled w known ds rs tis (run_ID ` set xs \<union> insert (run_ID r) P)
      (fold (schedule_run ops w) xs (schedule_run ops w r st))"
    using Cons.prems by (intro Cons.IH) auto
  then show ?case by simp
qed simp

end

definition queue_due :: "sched_world \<Rightarrow> (task_instance \<Rightarrow> bool) \<Rightarrow> task_instance \<Rightarrow> task_instance" where
  "queue_due w D ti = (if D ti then mark_queued w ti else ti)"

lemma queue_due_simps [simp]:
  "ti_ID (queue_due w D ti) = ti_ID ti" "ti_RunID (queue_due w D ti) = ti_RunID ti"
  "ti_TaskID (queue_due w D ti) = ti_TaskID ti"
  by (simp_all add: queue_due_def)

lemma terminal_cong:
  assumes f: "\<And>ti. ti_RunID ti = rid \<Longrightarrow> f ti = g ti" "\<And>ti. ti_RunID (f ti) = ti_RunID ti"
    "\<And>ti. ti_RunID (g ti) = ti_RunID ti"
  shows "all_terminal (fmmap f tis) rid = all_terminal (fmmap g tis) rid"
    and "any_failed (fmmap f tis) rid = any_failed (fmmap g tis) rid"
proof -
  have "fmlookup (fmmap f tis) i = Some t \<and> ti_RunID t = rid \<longleftrightarrow>
      fmlookup (fmmap g tis) i = Some t \<and> ti_RunID t = rid" for i t
  proof (cases "fmlookup tis i")
    case (Some a)
    then show ?thesis using f by (cases "ti_RunID a = rid") auto
  qed simp
  then show "all_terminal (fmmap f tis) rid = all_terminal (fmmap g tis) rid"
    "any_failed (fmmap f tis) rid = any_failed (fmmap g tis) rid"
    unfolding all_terminal_def any_failed_def by blast+
qed

lemma plan_ok_queue:
  assumes "plan_ok known rs tis"
  shows "plan_ok known (fmmap (closed_run w clock known' tis') rs) (fmmap (queue_due w' D) tis)"
proof -
  have "run_ID (closed_run w clock known' tis' r) = run_ID r" for r by (simp add: closed_run_def)
  then show ?thesis
    using assms unfolding plan_ok_def one_instance_def keyed_tis_def keyed_runs_def
    by (auto simp: fmlookup_map)
qed

text \<open>Closing the open runs one by one, each on its own instances, is closing them on all.\<close>

lemma closed_in_all:
  assumes "\<And>i r. fmlookup rs i = Some r \<Longrightarrow> run_Status r = StatusRunning \<Longrightarrow> run_ID r \<in> P"
  shows "fmmap (\<lambda>r. if run_ID r \<in> P then closed_run w clock known (fmmap (queued_in w D {run_ID r}) tis) r else r) rs =
    fmmap (closed_run w clock known (fmmap (queue_due w D) tis)) rs"
proof (rule fmap_ext)
  fix i
  have trm: "all_terminal (fmmap (queued_in w D {rid}) tis) rid = all_terminal (fmmap (queue_due w D) tis) rid"
      "any_failed (fmmap (queued_in w D {rid}) tis) rid = any_failed (fmmap (queue_due w D) tis) rid" for rid
    by (rule terminal_cong; simp add: queued_in_def queue_due_def)+
  show "fmlookup (fmmap (\<lambda>r. if run_ID r \<in> P
        then closed_run w clock known (fmmap (queued_in w D {run_ID r}) tis) r else r) rs) i =
      fmlookup (fmmap (closed_run w clock known (fmmap (queue_due w D) tis)) rs) i"
    using assms [of i] by (cases "fmlookup rs i") (auto simp: closed_run_def trm)
qed

context store_contract
begin

lemma Schedule_spec:
  assumes s: "inv s" and ok: "plan_ok known (run_map s) (ti_map s)" "orders_ok w"
    and known: "known_dag (dagIndex sch) (dag_map s) = known"
  defines "D \<equiv> due known (run_map s) (ti_map s)"
  shows "\<exists>ready sch' s'. Schedule ops w (sch, s) = (Inr ready, sch', s') \<and> inv s' \<and>
    dag_map s' = dag_map s \<and> known_dag (dagIndex sch') (dag_map s') = known \<and>
    ti_map s' = fmmap (queue_due w D) (ti_map s) \<and>
    run_map s' = fmmap (closed_run w clock known (ti_map s')) (run_map s) \<and>
    distinct (map ti_ID ready) \<and>
    set ready = mark_queued w ` {ti. fmlookup (ti_map s) (ti_ID ti) = Some ti \<and> D ti}"
proof -
  obtain rs where rs: "op_ListRuns ops running_filter s = Inr rs" "distinct (map run_ID rs)"
      "set rs = {r. fmlookup (run_map s) (run_ID r) = Some r \<and> run_Status r = StatusRunning}"
    using list_runs [OF s] unfolding running_filter_def by blast
  let ?P = "run_ID ` set rs"
  have new: "queued_in w D' {} = (\<lambda>ti. ti)" for D' by (simp add: queued_in_def fun_eq_iff)
  have "scheduled w known (dag_map s) (run_map s) (ti_map s) {} ([], sch, s)"
    using s known by (simp add: scheduled_def new fmmap_ident)
  then have "scheduled w known (dag_map s) (run_map s) (ti_map s) (?P \<union> {})
      (fold (schedule_run ops w) rs ([], sch, s))"
    using rs(2,3) by (intro schedule_fold ok) auto
  then obtain ready sch' s' where fold: "fold (schedule_run ops w) rs ([], sch, s) = (ready, sch', s')"
    and res: "scheduled w known (dag_map s) (run_map s) (ti_map s) ?P (ready, sch', s')"
    by (cases "fold (schedule_run ops w) rs ([], sch, s)") auto
  note res' = res [unfolded scheduled_def prod.case, folded D_def]
  have open_runs: "run_ID r \<in> ?P" if "fmlookup (run_map s) i = Some r" "run_Status r = StatusRunning" for i r
    using run_keyed [OF s that(1)] that unfolding rs(3) by auto
  have DP: "ti_RunID ti \<in> ?P" if due: "D ti" for ti
  proof -
    obtain r where r: "fmlookup (run_map s) (ti_RunID ti) = Some r" "run_Status r = StatusRunning"
      using due by (auto simp: D_def due_def)
    then show ?thesis using open_runs [OF r] run_keyed [OF s r(1)] by simp
  qed
  then have q: "queued_in w D ?P = queue_due w D" by (auto simp: queued_in_def queue_due_def fun_eq_iff)
  have ti: "ti_map s' = fmmap (queue_due w D) (ti_map s)" using res' by (simp add: q)
  have "run_map s' = fmmap (\<lambda>r. if run_ID r \<in> ?P
      then closed_run w clock known (fmmap (queued_in w D {run_ID r}) (ti_map s)) r else r) (run_map s)"
    using res' by blast
  also have "\<dots> = fmmap (closed_run w clock known (ti_map s')) (run_map s)"
    unfolding ti by (rule closed_in_all) (rule open_runs)
  finally have runs: "run_map s' = fmmap (closed_run w clock known (ti_map s')) (run_map s)" .
  have "{ti. fmlookup (ti_map s) (ti_ID ti) = Some ti \<and> ti_RunID ti \<in> ?P \<and> D ti} =
      {ti. fmlookup (ti_map s) (ti_ID ti) = Some ti \<and> D ti}" using DP by blast
  then show ?thesis
    using res' ti runs fold rs(1) by (simp add: Schedule_def)
qed

end

section \<open>Schedule over the memory store\<close>

abbreviation known_dags :: "sched \<Rightarrow> memory_store \<Rightarrow> string \<Rightarrow> dag option" where
  "known_dags sch s \<equiv> known_dag (dagIndex sch) (dags s)"

abbreviation due_in :: "sched \<Rightarrow> memory_store \<Rightarrow> task_instance \<Rightarrow> bool" where
  "due_in sch s \<equiv> due (known_dags sch s) (runs s) (taskInstances s)"

abbreviation plan_in :: "sched \<Rightarrow> memory_store \<Rightarrow> bool" where
  "plan_in sch s \<equiv> plan_ok (known_dags sch s) (runs s) (taskInstances s)"

lemma Schedule_memory:
  assumes "store_wf s" "mem_world_ok m" "orders_ok w" "plan_in sch s"
  shows "\<exists>ready sch' s'. Schedule (memory_ops m) w (sch, s) = (Inr ready, sch', s') \<and> store_wf s' \<and>
    dags s' = dags s \<and> known_dags sch' s' = known_dags sch s \<and>
    taskInstances s' = fmmap (queue_due w (due_in sch s)) (taskInstances s) \<and>
    runs s' = fmmap (closed_run w (mw_now m) (known_dags sch s) (taskInstances s')) (runs s) \<and>
    distinct (map ti_ID ready) \<and>
    set ready = mark_queued w ` {ti. fmlookup (taskInstances s) (ti_ID ti) = Some ti \<and> due_in sch s ti}"
proof -
  have "mem_inv m s" using assms(1,2) by (simp add: mem_inv_def)
  from mem.Schedule_spec [OF this assms(4,3) refl] show ?thesis
    by (elim exE conjE, intro exI conjI) (assumption | erule mem_inv_wf | simp)+
qed


lemma not_due_again:
  assumes "fmlookup (fmmap (queue_due w (due known rs tis)) tis) i = Some ti"
  shows "\<not> due known (fmmap (closed_run w clock known tis') rs) (fmmap (queue_due w (due known rs tis)) tis) ti"
proof
  let ?tis = "fmmap (queue_due w (due known rs tis)) tis"
  assume due: "due known (fmmap (closed_run w clock known tis') rs) ?tis ti"
  obtain a where a: "fmlookup tis i = Some a" "ti = queue_due w (due known rs tis) a"
    using assms by auto
  have pending: "ti_Status ti = StatusPending" using due by (simp add: due_def)
  then have notD: "\<not> due known rs tis a" and ti: "ti = a"
    using a(2) by (auto simp: queue_due_def split: if_splits)
  obtain r' d t where r': "fmlookup (fmmap (closed_run w clock known tis') rs) (ti_RunID a) = Some r'"
      "run_Status r' = StatusRunning" "known (run_DAGID r') = Some d"
      "fmlookup (Tasks d) (ti_TaskID a) = Some t" "deps_met ?tis (ti_RunID a) t"
    using due unfolding due_def ti by blast
  obtain r where r: "fmlookup rs (ti_RunID a) = Some r" "r' = closed_run w clock known tis' r"
    using r'(1) by auto
  have "r' = r" using r(2) r'(2) by (auto simp: closed_run_def split: if_splits)
  moreover have "deps_met tis (ti_RunID a) t"
    unfolding deps_met_def
  proof
    fix dep assume "dep \<in> set (Dependencies t)"
    then obtain b where b: "fmlookup ?tis (ti_ID b) = Some b" "ti_RunID b = ti_RunID a"
        "ti_TaskID b = dep" "ti_Status b = StatusSuccess"
      using r'(5) unfolding deps_met_def by blast
    then obtain c where c: "fmlookup tis (ti_ID b) = Some c" "b = queue_due w (due known rs tis) c"
      by auto
    then have "b = c" using b(4) by (auto simp: queue_due_def split: if_splits)
    then show "\<exists>ti. fmlookup tis (ti_ID ti) = Some ti \<and> ti_RunID ti = ti_RunID a \<and>
        ti_TaskID ti = dep \<and> ti_Status ti = StatusSuccess" using b c(1) by blast
  qed
  ultimately have "due known rs tis a"
    using r'(2-4) r(1) pending ti unfolding due_def by blast
  with notD show False by blast
qed

text \<open>
  Scheduling is idempotent: directly after one call, and so after one tick of the loop that
  \<open>Start\<close> runs, which drops the instances it is given, another call hands out nothing and
  changes no instance and no run. An instance that a tick has queued is never handed out again.
\<close>

theorem Schedule_idempotent:
  assumes "store_wf s" and "mem_world_ok m" and "orders_ok w" and "plan_in sch s"
    and "mem_world_ok m'" and "orders_ok w'"
    and "start_tick (memory_ops m) w (sch, s) = (sch', s')"
  shows "\<exists>sch'' s''. Schedule (memory_ops m') w' (sch', s') = (Inr [], sch'', s'') \<and>
    taskInstances s'' = taskInstances s' \<and> runs s'' = runs s'"
proof -
  let ?D = "due_in sch s"
  obtain ready where S1: "Schedule (memory_ops m) w (sch, s) = (Inr ready, sch', s')"
      "store_wf s'" "known_dags sch' s' = known_dags sch s"
      "taskInstances s' = fmmap (queue_due w ?D) (taskInstances s)"
      "runs s' = fmmap (closed_run w (mw_now m) (known_dags sch s) (taskInstances s')) (runs s)"
    using Schedule_memory [OF assms(1-4)] assms(7) by (auto simp: start_tick_def)
  have "plan_in sch' s'" unfolding S1(3,4,5) using assms(4) by (rule plan_ok_queue)
  from Schedule_memory [OF S1(2) assms(5,6) this]
  obtain ready' sch'' s'' where S2: "Schedule (memory_ops m') w' (sch', s') = (Inr ready', sch'', s'')"
      "taskInstances s'' = fmmap (queue_due w' (due_in sch' s')) (taskInstances s')"
      "runs s'' = fmmap (closed_run w' (mw_now m') (known_dags sch' s') (taskInstances s'')) (runs s')"
      "set ready' = mark_queued w' ` {ti. fmlookup (taskInstances s') (ti_ID ti) = Some ti \<and> due_in sch' s' ti}"
    by blast
  have none: "\<not> due_in sch' s' ti" if "fmlookup (taskInstances s') i = Some ti" for i ti
    using not_due_again [of w "known_dags sch s" "runs s" "taskInstances s" i ti] that
    unfolding S1(3,5) unfolding S1(4) by blast
  have tis: "taskInstances s'' = taskInstances s'"
  proof (rule fmap_ext)
    fix i
    show "fmlookup (taskInstances s'') i = fmlookup (taskInstances s') i"
      unfolding S2(2) using none by (cases "fmlookup (taskInstances s') i") (auto simp: queue_due_def)
  qed
  moreover have "ready' = []"
  proof -
    have "{ti. fmlookup (taskInstances s') (ti_ID ti) = Some ti \<and> due_in sch' s' ti} = {}"
      using none by blast
    then have "set ready' = {}" unfolding S2(4) by (simp only: image_empty)
    then show ?thesis by simp
  qed
  moreover have "runs s'' = runs s'"
  proof (rule fmap_ext)
    fix i
    have "closed_run w' (mw_now m') (known_dags sch s) (taskInstances s')
        (closed_run w (mw_now m) (known_dags sch s) (taskInstances s') r) =
      closed_run w (mw_now m) (known_dags sch s) (taskInstances s') r" for r
      by (auto simp: closed_run_def)
    then show "fmlookup (runs s'') i = fmlookup (runs s') i"
      unfolding S2(3) tis S1(3) by (subst S1(5)) (simp add: S1(5) option.map_comp comp_def)
  qed
  ultimately show ?thesis using S2(1) by blast
qed

section \<open>Submit and ReportCompletion\<close>

lemma new_instance_simps [simp]:
  "ti_ID (new_instance w d t) = su_ti w (task_ID t)" "ti_RunID (new_instance w d t) = su_run w"
  "ti_TaskID (new_instance w d t) = task_ID t" "ti_Status (new_instance w d t) = StatusPending"
  by (simp_all add: new_instance_def)

definition submitted_run :: "submit_world \<Rightarrow> (string \<Rightarrow> time) \<Rightarrow> dag \<Rightarrow> (string, string) fmap \<Rightarrow> dag_run" where
  "submitted_run w clock d params =
     \<lparr>run_ID = su_run w, run_DAGID = dag_ID d, run_Status = StatusRunning, run_Params = params,
      run_StartTime = su_start w, run_EndTime = 0, run_CreatedAt = clock (su_run w),
      run_UpdatedAt = clock (su_run w)\<rparr>"

text \<open>The new IDs are new: what \<^verbatim>\<open>uuid.New()\<close> is relied on for.\<close>

definition fresh_ids ::
  "submit_world \<Rightarrow> dag \<Rightarrow> (string, dag_run) fmap \<Rightarrow> (string, task_instance) fmap \<Rightarrow> bool" where
  "fresh_ids w d rs tis \<longleftrightarrow> ranges (su_tasks w) (Tasks d) \<and> fmlookup rs (su_run w) = None \<and>
     inj_on (su_ti w) (fmdom' (Tasks d)) \<and> (\<forall>k \<in> fmdom' (Tasks d). fmlookup tis (su_ti w k) = None) \<and>
     (\<forall>i \<in> fmdom' tis. ti_RunID (the (fmlookup tis i)) \<noteq> su_run w)"

text \<open>The instances of a new run, on top of the old ones.\<close>

definition with_instances ::
  "submit_world \<Rightarrow> dag \<Rightarrow> (string, task_instance) fmap \<Rightarrow> (string, task_instance) fmap \<Rightarrow> bool" where
  "with_instances w d tis tis' \<longleftrightarrow>
     (\<forall>k t. fmlookup (Tasks d) k = Some t \<longrightarrow> fmlookup tis' (su_ti w k) = Some (new_instance w d t)) \<and>
     (\<forall>i. i \<notin> su_ti w ` fmdom' (Tasks d) \<longrightarrow> fmlookup tis' i = fmlookup tis i)"

context store_contract
begin

lemma create_instances_spec:
  "inv s \<Longrightarrow> well_keyed (Tasks d) \<Longrightarrow> distinct ks \<Longrightarrow> set ks \<subseteq> fmdom' (Tasks d) \<Longrightarrow> inj_on (su_ti w) (set ks) \<Longrightarrow>
   (\<And>k. k \<in> set ks \<Longrightarrow> fmlookup (ti_map s) (su_ti w k) = None) \<Longrightarrow>
   \<exists>s'. create_instances ops w d ks s = (None, s') \<and> inv s' \<and> dag_map s' = dag_map s \<and>
     run_map s' = run_map s \<and>
     (\<forall>k \<in> set ks. fmlookup (ti_map s') (su_ti w k) = Some (new_instance w d (task_at (Tasks d) k))) \<and>
     (\<forall>i. i \<notin> su_ti w ` set ks \<longrightarrow> fmlookup (ti_map s') i = fmlookup (ti_map s) i)"
proof (induction ks arbitrary: s)
  case (Cons k ks)
  obtain t where t: "fmlookup (Tasks d) k = Some t" "task_ID t = k"
    using Cons.prems(2,4) by (auto simp: fmlookup_dom'_iff dest: well_keyedD)
  obtain s1 where s1: "op_CreateTaskInstance ops (new_instance w d t) s = Inr s1" "inv s1"
      "ti_map s1 = fmupd (su_ti w k) (new_instance w d t) (ti_map s)" "dag_map s1 = dag_map s"
      "run_map s1 = run_map s"
    using create_ti [of s "new_instance w d t"] Cons.prems(1,6) t(2) by auto
  have k: "su_ti w k \<notin> su_ti w ` set ks" using Cons.prems(3,5) by auto
  have fresh: "fmlookup (ti_map s1) (su_ti w k') = None" if "k' \<in> set ks" for k'
    using that k Cons.prems(6) by (auto simp: s1(3))
  have "distinct ks" "set ks \<subseteq> fmdom' (Tasks d)" "inj_on (su_ti w) (set ks)"
    using Cons.prems(3-5) by auto
  from Cons.IH [OF s1(2) Cons.prems(2) this fresh]
  obtain s2 where s2: "create_instances ops w d ks s1 = (None, s2)" "inv s2" "dag_map s2 = dag_map s1"
      "run_map s2 = run_map s1"
      "\<forall>k \<in> set ks. fmlookup (ti_map s2) (su_ti w k) = Some (new_instance w d (task_at (Tasks d) k))"
      "\<forall>i. i \<notin> su_ti w ` set ks \<longrightarrow> fmlookup (ti_map s2) i = fmlookup (ti_map s1) i" by blast
  have "fmlookup (ti_map s2) (su_ti w k) = Some (new_instance w d t)" using s2(6) k s1(3) by simp
  then show ?case using s1 s2 t by auto
qed auto

lemma Submit_spec:
  assumes "inv s" "well_keyed (Tasks d)" "fresh_ids w d (run_map s) (ti_map s)"
  shows "\<exists>s'. Submit ops w d params (sch, s) =
      (Inr (su_run w), sch\<lparr>dagIndex := fmupd (dag_ID d) d (dagIndex sch)\<rparr>, s') \<and> inv s' \<and>
    dag_map s' = dag_map s \<and>
    run_map s' = fmupd (su_run w) (submitted_run w clock d params) (run_map s) \<and>
    with_instances w d (ti_map s) (ti_map s')"
proof -
  have f: "ranges (su_tasks w) (Tasks d)" "fmlookup (run_map s) (su_run w) = None"
      "inj_on (su_ti w) (fmdom' (Tasks d))"
      "\<And>k. k \<in> fmdom' (Tasks d) \<Longrightarrow> fmlookup (ti_map s) (su_ti w k) = None"
    using assms(3) by (auto simp: fresh_ids_def)
  let ?r = "submitted_run w (\<lambda>_. 0) d params"
  have r: "run_ID ?r = su_run w" "?r\<lparr>run_CreatedAt := clock (su_run w), run_UpdatedAt := clock (su_run w)\<rparr> =
      submitted_run w clock d params" by (simp_all add: submitted_run_def)
  obtain s1 where s1: "op_CreateRun ops ?r s = Inr (submitted_run w clock d params, s1)" "inv s1"
      "run_map s1 = fmupd (su_run w) (submitted_run w clock d params) (run_map s)"
      "dag_map s1 = dag_map s" "ti_map s1 = ti_map s"
    using create_run [OF assms(1), of ?r] f(2) unfolding r by auto
  have ks: "distinct (su_tasks w)" "set (su_tasks w) = fmdom' (Tasks d)" using f(1) by (auto simp: ranges_def)
  obtain s2 where s2: "create_instances ops w d (su_tasks w) s1 = (None, s2)" "inv s2"
      "dag_map s2 = dag_map s1" "run_map s2 = run_map s1"
      "\<forall>k \<in> fmdom' (Tasks d). fmlookup (ti_map s2) (su_ti w k) = Some (new_instance w d (task_at (Tasks d) k))"
      "\<forall>i. i \<notin> su_ti w ` fmdom' (Tasks d) \<longrightarrow> fmlookup (ti_map s2) i = fmlookup (ti_map s1) i"
    using create_instances_spec [OF s1(2) assms(2) ks(1), of w] f(3,4) s1(5) unfolding ks(2) by auto
  have "with_instances w d (ti_map s) (ti_map s2)"
    using s2(5,6) s1(5) by (auto simp: with_instances_def fmlookup_dom'_iff)
  then show ?thesis
    using s1 s2 by (auto simp: Submit_def submitted_run_def Let_def)
qed

lemma ReportCompletion_spec:
  assumes "inv s" "fmlookup (ti_map s) (tr_TaskInstanceID res) = Some ti"
  shows "\<exists>s'. ReportCompletion ops now taskID res s = (None, s') \<and> inv s' \<and> dag_map s' = dag_map s \<and>
    run_map s' = run_map s \<and>
    ti_map s' = fmupd (tr_TaskInstanceID res) (ti\<lparr>ti_Status := tr_Status res, ti_Output := tr_Output res,
      ti_Error := tr_Error res, ti_EndTime := now\<rparr>) (ti_map s)"
proof -
  have "op_GetTaskInstance ops (tr_TaskInstanceID res) s = Inr ti" using get_ti assms by blast
  moreover have "ti_ID ti = tr_TaskInstanceID res" using ti_keyed assms by blast
  ultimately show ?thesis
    using update_ti [OF assms(1), of "ti\<lparr>ti_Status := tr_Status res, ti_Output := tr_Output res,
      ti_Error := tr_Error res, ti_EndTime := now\<rparr>"] assms(2)
    by (auto simp: ReportCompletion_def Let_def)
qed

lemma ReportCompletion_unknown:
  assumes "inv s" "fmlookup (ti_map s) (tr_TaskInstanceID res) = None"
  shows "\<exists>e. ReportCompletion ops now taskID res s = (Some (Err ''get task instance: %w'' [FErr e]), s)"
  using get_ti [OF assms(1), of "tr_TaskInstanceID res"] assms(2)
  by (cases "op_GetTaskInstance ops (tr_TaskInstanceID res) s") (auto simp: ReportCompletion_def)

end

lemma with_instances_cases:
  assumes fresh: "fresh_ids w d rs tis" and tis': "with_instances w d tis tis'" and d: "well_keyed (Tasks d)"
    and i: "fmlookup tis' i = Some ti"
  shows "fmlookup tis i = Some ti \<and> ti_RunID ti \<noteq> su_run w \<or>
    (\<exists>k t. i = su_ti w k \<and> fmlookup (Tasks d) k = Some t \<and> task_ID t = k \<and> ti = new_instance w d t)"
proof (cases "i \<in> su_ti w ` fmdom' (Tasks d)")
  case True
  then obtain k t where k: "i = su_ti w k" "fmlookup (Tasks d) k = Some t" by (auto simp: fmlookup_dom'_iff)
  then have "ti = new_instance w d t" using i tis' by (simp add: with_instances_def)
  then show ?thesis using k well_keyedD [OF d k(2)] by blast
next
  case False
  then have "fmlookup tis i = Some ti" using i tis' by (simp add: with_instances_def)
  moreover from this have "i \<in> fmdom' tis" by (rule fmdom'I)
  then have "ti_RunID (the (fmlookup tis i)) \<noteq> su_run w" using fresh unfolding fresh_ids_def by blast
  ultimately show ?thesis using False by simp
qed

lemma with_instances_keep:
  "fresh_ids w d rs tis \<Longrightarrow> with_instances w d tis tis' \<Longrightarrow> fmlookup tis i = Some ti \<Longrightarrow>
     fmlookup tis' i = Some ti"
  by (cases "i \<in> su_ti w ` fmdom' (Tasks d)") (auto simp: fresh_ids_def with_instances_def)

lemma plan_ok_submit:
  assumes ok: "plan_ok known rs tis" and d: "well_keyed (Tasks d)" "known' = known(dag_ID d := Some d)"
    and fresh: "fresh_ids w d rs tis" and tis': "with_instances w d tis tis'"
  shows "plan_ok known' (fmupd (su_run w) (submitted_run w clock d params) rs) tis'"
proof -
  note old = with_instances_cases [OF fresh tis' d(1)]
  have "keyed_tis tis'"
    unfolding keyed_tis_def
  proof (intro allI impI)
    fix i ti assume "fmlookup tis' i = Some ti"
    from old [OF this] show "ti_ID ti = i" using ok by (auto simp: plan_ok_def keyed_tis_def)
  qed
  moreover have "one_instance tis'"
    unfolding one_instance_def
  proof (intro allI impI)
    fix i j a b assume ij: "fmlookup tis' i = Some a" "fmlookup tis' j = Some b"
      "ti_RunID a = ti_RunID b" "ti_TaskID a = ti_TaskID b"
    show "i = j"
    proof (cases "ti_RunID a = su_run w")
      case True
      then obtain k t k' t' where "i = su_ti w k" "task_ID t = k" "a = new_instance w d t"
          "j = su_ti w k'" "task_ID t' = k'" "b = new_instance w d t'"
        using old [OF ij(1)] old [OF ij(2)] ij(3) by metis
      then show ?thesis using ij(4) by simp
    next
      case False
      then have "fmlookup tis i = Some a" "fmlookup tis j = Some b"
        using old [OF ij(1)] old [OF ij(2)] ij(3) by (metis new_instance_simps(2))+
      moreover have "one_instance tis" using ok by (simp add: plan_ok_def)
      ultimately show ?thesis using ij(3,4) one_instanceD by blast
    qed
  qed
  moreover have "keyed_runs (fmupd (su_run w) (submitted_run w clock d params) rs)"
    using ok by (auto simp: plan_ok_def keyed_runs_def submitted_run_def)
  ultimately show ?thesis using ok d by (simp add: plan_ok_def)
qed

abbreviation with_dag :: "dag \<Rightarrow> sched \<Rightarrow> sched" where
  "with_dag d sch \<equiv> sch\<lparr>dagIndex := fmupd (dag_ID d) d (dagIndex sch)\<rparr>"

lemma Submit_memory:
  assumes "store_wf s" "mem_world_ok m" "plan_in sch s" "well_keyed (Tasks d)"
    and "fresh_ids w d (runs s) (taskInstances s)"
  shows "\<exists>s'. Submit (memory_ops m) w d params (sch, s) = (Inr (su_run w), with_dag d sch, s') \<and>
    store_wf s' \<and> plan_in (with_dag d sch) s' \<and> dags s' = dags s \<and>
    runs s' = fmupd (su_run w) (submitted_run w (mw_now m) d params) (runs s) \<and>
    with_instances w d (taskInstances s) (taskInstances s')"
proof -
  have "mem_inv m s" using assms(1,2) by (simp add: mem_inv_def)
  from mem.Submit_spec [OF this assms(4,5)]
  obtain s' where s': "Submit (memory_ops m) w d params (sch, s) = (Inr (su_run w), with_dag d sch, s')"
      "mem_inv m s'" "dags s' = dags s"
      "runs s' = fmupd (su_run w) (submitted_run w (mw_now m) d params) (runs s)"
      "with_instances w d (taskInstances s) (taskInstances s')" by blast
  have "known_dags (with_dag d sch) s' = (known_dags sch s)(dag_ID d := Some d)"
    by (simp add: known_dag_def s'(3) fun_eq_iff)
  then have "plan_in (with_dag d sch) s'"
    unfolding s'(4) by (rule plan_ok_submit [OF assms(3,4) _ assms(5) s'(5)])
  then show ?thesis using s' mem_inv_wf by blast
qed

text \<open>
  \<open>Submit\<close> with new IDs succeeds: it adds one running run and, for each task of the DAG,
  one pending instance with the task's ID, and indexes the DAG; no other run or instance changes,
  and there is still one instance per run and task.
\<close>

theorem Submit_correct:
  assumes "store_wf s" and "mem_world_ok m" and "plan_in sch s" and "well_keyed (Tasks d)"
    and "fresh_ids w d (runs s) (taskInstances s)"
  shows "\<exists>s'. Submit (memory_ops m) w d params (sch, s) = (Inr (su_run w), with_dag d sch, s') \<and>
    store_wf s' \<and> plan_in (with_dag d sch) s' \<and>
    runs s' = fmupd (su_run w) (submitted_run w (mw_now m) d params) (runs s) \<and>
    (\<forall>k t. fmlookup (Tasks d) k = Some t \<longrightarrow>
       fmlookup (taskInstances s') (su_ti w k) = Some (new_instance w d t)) \<and>
    (\<forall>i. i \<notin> su_ti w ` fmdom' (Tasks d) \<longrightarrow> fmlookup (taskInstances s') i = fmlookup (taskInstances s) i)"
  using Submit_memory [OF assms] unfolding with_instances_def by blast

lemma ReportCompletion_memory:
  assumes "store_wf s"
  shows "ReportCompletion (memory_ops m) now k res s =
    (case fmlookup (taskInstances s) (tr_TaskInstanceID res) of
       None \<Rightarrow> (Some (Err ''get task instance: %w''
           [FErr (Err ''task instance %q not found'' [FStr (tr_TaskInstanceID res)])]), s)
     | Some ti \<Rightarrow> (None, s\<lparr>taskInstances := fmupd (tr_TaskInstanceID res)
           (ti\<lparr>ti_Status := tr_Status res, ti_Output := tr_Output res, ti_Error := tr_Error res,
               ti_EndTime := now\<rparr>) (taskInstances s)\<rparr>))"
  using store_wfD(3) [OF assms]
  by (auto simp: ReportCompletion_def memory_defs split: option.splits)

text \<open>
  \<open>ReportCompletion\<close> writes status, output, error and end time to the instance that the result
  names, in every state it may be in, and to nothing else; for an unknown instance it returns the
  wrapped error of the store and changes nothing.
\<close>

theorem ReportCompletion_correct:
  assumes "store_wf s"
  shows "case fmlookup (taskInstances s) (tr_TaskInstanceID res) of
      None \<Rightarrow> ReportCompletion (memory_ops m) now k res s =
        (Some (Err ''get task instance: %w''
           [FErr (Err ''task instance %q not found'' [FStr (tr_TaskInstanceID res)])]), s)
    | Some ti \<Rightarrow> ReportCompletion (memory_ops m) now k res s =
        (None, s\<lparr>taskInstances := fmupd (tr_TaskInstanceID res)
           (ti\<lparr>ti_Status := tr_Status res, ti_Output := tr_Output res, ti_Error := tr_Error res,
               ti_EndTime := now\<rparr>) (taskInstances s)\<rparr>)"
  by (auto simp: ReportCompletion_memory [OF assms] split: option.splits)

section \<open>Examples\<close>

definition plain_sched :: sched_world where
  "plain_sched = \<lparr>sw_tasks = (\<lambda>_ d. sorted_keys (Tasks d)), sw_queued = (\<lambda>_. 6), sw_end = (\<lambda>_. 7)\<rparr>"

definition diamond_submit :: submit_world where
  "diamond_submit = \<lparr>su_run = ''r1'', su_ti = (\<lambda>k. ''r1/'' @ k), su_start = 3, su_queued = (\<lambda>_. 4),
     su_tasks = [''c'', ''a'', ''d'', ''b'']\<rparr>"

lemma plain_sched_ok [simp]: "orders_ok plain_sched"
  by (simp add: orders_ok_def plain_sched_def)

lemma plan_new: "plan_in (NewFIFOScheduler 0) NewMemoryStore"
  by (simp add: plan_ok_def NewMemoryStore_def NewFIFOScheduler_def known_dag_def one_instance_def
      keyed_tis_def keyed_runs_def)

lemma diamond_fresh:
  "well_keyed (Tasks diamond)" "fresh_ids diamond_submit diamond (runs NewMemoryStore) (taskInstances NewMemoryStore)"
proof -
  show "well_keyed (Tasks diamond)" by code_simp
  have "ranges (su_tasks diamond_submit) (Tasks diamond)" by code_simp
  then show "fresh_ids diamond_submit diamond (runs NewMemoryStore) (taskInstances NewMemoryStore)"
    by (auto simp: fresh_ids_def NewMemoryStore_def diamond_submit_def inj_on_def)
qed

text \<open>The state after the diamond has been submitted.\<close>

definition diamond_state :: "sched \<times> memory_store" where
  "diamond_state = snd (Submit (memory_ops plain_mem) diamond_submit diamond fmempty
     (NewFIFOScheduler 0, NewMemoryStore))"

lemma diamond_state_ok:
  "store_wf (snd diamond_state)" "plan_in (fst diamond_state) (snd diamond_state)"
  using Submit_memory [OF store_wf_new plain_mem_ok plan_new diamond_fresh, of fmempty]
  by (auto simp: diamond_state_def)


lemma Schedule_idempotent_witness:
  "\<exists>sch'' s''. Schedule (memory_ops plain_mem) plain_sched (start_tick (memory_ops plain_mem) plain_sched diamond_state) =
     (Inr [], sch'', s'')"
proof -
  obtain sch s where st: "diamond_state = (sch, s)" by (cases diamond_state)
  obtain sch' s' where st': "start_tick (memory_ops plain_mem) plain_sched diamond_state = (sch', s')"
    by (cases "start_tick (memory_ops plain_mem) plain_sched diamond_state")
  show ?thesis
    using Schedule_idempotent [of s plain_mem plain_sched sch plain_mem plain_sched sch' s'] diamond_state_ok st'
    by (auto simp: st)
qed

lemma Submit_correct_witness:
  "\<exists>s'. Submit (memory_ops plain_mem) diamond_submit diamond fmempty (NewFIFOScheduler 0, NewMemoryStore) =
     (Inr ''r1'', with_dag diamond (NewFIFOScheduler 0), s') \<and> store_wf s'"
  using Submit_correct [OF store_wf_new plain_mem_ok plan_new diamond_fresh, of fmempty]
  by (auto simp: diamond_submit_def)

lemma ReportCompletion_correct_witness:
  "ReportCompletion (memory_ops plain_mem) 9 ''a''
     \<lparr>tr_TaskInstanceID = ''x'', tr_RunID = ''r1'', tr_Status = StatusSuccess, tr_Output = '''', tr_Error = '''',
      tr_Metrics = fmempty\<rparr> NewMemoryStore =
   (Some (Err ''get task instance: %w'' [FErr (Err ''task instance %q not found'' [FStr ''x''])]), NewMemoryStore)"
  using ReportCompletion_correct [OF store_wf_new, where m = plain_mem and now = 9 and k = "''a''" and
      res = "\<lparr>tr_TaskInstanceID = ''x'', tr_RunID = ''r1'', tr_Status = StatusSuccess, tr_Output = '''',
        tr_Error = '''', tr_Metrics = fmempty\<rparr>"]
  by (simp add: NewMemoryStore_def)

end
