(* ===== verification/System.thy ===== *)
theory System
  imports Scheduler
begin

text \<open>
  The scheduler and the memory store as one state machine: any sequence of \<open>Submit\<close>,
  \<open>RegisterDAG\<close>, \<open>Schedule\<close>, \<open>ReportCompletion\<close> and of the workers' status updates, and what
  holds in every state it reaches.
\<close>

section \<open>Steps\<close>

text \<open>
  \<open>plan\<close> gives the tasks of each DAG ID; every DAG that is submitted or registered under an ID has
  these tasks. New IDs are new. A report or a worker's update is about an
  instance that was queued and has not ended; a report may carry any status. After a
  failed report nothing has changed, so such steps need no rule.
\<close>

inductive sys_step ::
  "(string \<Rightarrow> tasks option) \<Rightarrow> sched \<times> memory_store \<Rightarrow> sched \<times> memory_store \<Rightarrow> bool" for plan where
  submit: "mem_world_ok m \<Longrightarrow> plan (dag_ID d) = Some (Tasks d) \<Longrightarrow> well_keyed (Tasks d) \<Longrightarrow>
     fresh_ids w d (runs s) (taskInstances s) \<Longrightarrow>
     Submit (memory_ops m) w d params (sch, s) = (r, st') \<Longrightarrow> sys_step plan (sch, s) st'"
| register: "mem_world_ok m \<Longrightarrow> plan (dag_ID d) = Some (Tasks d) \<Longrightarrow> well_keyed (Tasks d) \<Longrightarrow>
     RegisterDAG (memory_ops m) cron_add d (sch, s) = (e, st') \<Longrightarrow> sys_step plan (sch, s) st'"
| schedule: "mem_world_ok m \<Longrightarrow> orders_ok w \<Longrightarrow>
     Schedule (memory_ops m) w (sch, s) = (r, st') \<Longrightarrow> sys_step plan (sch, s) st'"
| report: "fmlookup (taskInstances s) (tr_TaskInstanceID res) = Some ti \<Longrightarrow>
     ti_Status ti \<noteq> StatusPending \<Longrightarrow> \<not> IsTerminal (ti_Status ti) \<Longrightarrow>
     ReportCompletion (memory_ops m) now k res s = (e, s') \<Longrightarrow> sys_step plan (sch, s) (sch, s')"
| work: "fmlookup (taskInstances s) (ti_ID ti') = Some ti \<Longrightarrow>
     ti_Status ti \<noteq> StatusPending \<Longrightarrow> \<not> IsTerminal (ti_Status ti) \<Longrightarrow>
     ti_RunID ti' = ti_RunID ti \<Longrightarrow> ti_TaskID ti' = ti_TaskID ti \<Longrightarrow>
     UpdateTaskInstance ti' s = Inr s' \<Longrightarrow> sys_step plan (sch, s) (sch, s')"

inductive sys :: "(string \<Rightarrow> tasks option) \<Rightarrow> sched \<times> memory_store \<Rightarrow> bool" for plan where
  start: "sys plan (NewFIFOScheduler p, NewMemoryStore)"
| step: "sys plan st \<Longrightarrow> sys_step plan st st' \<Longrightarrow> sys plan st'"

section \<open>The invariant\<close>

definition follows :: "(string \<Rightarrow> tasks option) \<Rightarrow> (string \<Rightarrow> dag option) \<Rightarrow> bool" where
  "follows plan known \<longleftrightarrow> (\<forall>i d. known i = Some d \<longrightarrow> plan i = Some (Tasks d))"

text \<open>An instance that is not pending any more has had its dependencies met.\<close>

definition deps_first ::
  "(string \<Rightarrow> tasks option) \<Rightarrow> (string, dag_run) fmap \<Rightarrow> (string, task_instance) fmap \<Rightarrow> bool" where
  "deps_first plan rs tis \<longleftrightarrow> (\<forall>i ti r ts t. fmlookup tis i = Some ti \<longrightarrow>
     ti_Status ti \<noteq> StatusPending \<longrightarrow> fmlookup rs (ti_RunID ti) = Some r \<longrightarrow>
     plan (run_DAGID r) = Some ts \<longrightarrow> fmlookup ts (ti_TaskID ti) = Some t \<longrightarrow>
     deps_met tis (ti_RunID ti) t)"

text \<open>A run is closed, as successful or failed, when all its instances have ended.\<close>

definition run_sound :: "(string, task_instance) fmap \<Rightarrow> dag_run \<Rightarrow> bool" where
  "run_sound tis r \<longleftrightarrow> run_Status r = StatusRunning \<or>
     all_terminal tis (run_ID r) \<and>
     run_Status r = (if any_failed tis (run_ID r) then StatusFailed else StatusSuccess)"

text \<open>Only the instances of the run matter.\<close>

lemma run_sound_view:
  assumes "\<And>i t. fmlookup tis' i = Some t \<and> ti_RunID t = run_ID r \<longleftrightarrow>
    fmlookup tis i = Some t \<and> ti_RunID t = run_ID r"
  shows "run_sound tis' r \<longleftrightarrow> run_sound tis r"
proof -
  have "all_terminal tis' (run_ID r) = all_terminal tis (run_ID r)"
    "any_failed tis' (run_ID r) = any_failed tis (run_ID r)"
    using assms unfolding all_terminal_def any_failed_def by blast+
  then show ?thesis by (simp add: run_sound_def)
qed

definition sys_inv :: "(string \<Rightarrow> tasks option) \<Rightarrow> sched \<times> memory_store \<Rightarrow> bool" where
  "sys_inv plan st \<longleftrightarrow> (case st of (sch, s) \<Rightarrow>
     store_wf s \<and> plan_in sch s \<and> follows plan (known_dags sch s) \<and>
     deps_first plan (runs s) (taskInstances s) \<and>
     (\<forall>i r. fmlookup (runs s) i = Some r \<longrightarrow> run_sound (taskInstances s) r) \<and>
     (\<forall>i ti. fmlookup (taskInstances s) i = Some ti \<longrightarrow> fmlookup (runs s) (ti_RunID ti) \<noteq> None))"

lemma sys_invD:
  assumes "sys_inv plan (sch, s)"
  shows "store_wf s" "plan_in sch s" "follows plan (known_dags sch s)"
    "deps_first plan (runs s) (taskInstances s)"
    "\<And>i r. fmlookup (runs s) i = Some r \<Longrightarrow> run_sound (taskInstances s) r"
    "\<And>i ti. fmlookup (taskInstances s) i = Some ti \<Longrightarrow> fmlookup (runs s) (ti_RunID ti) \<noteq> None"
  using assms by (auto simp: sys_inv_def)

lemma deps_firstD:
  "deps_first plan rs tis \<Longrightarrow> fmlookup tis i = Some ti \<Longrightarrow> ti_Status ti \<noteq> StatusPending \<Longrightarrow>
     fmlookup rs (ti_RunID ti) = Some r \<Longrightarrow> plan (run_DAGID r) = Some ts \<Longrightarrow>
     fmlookup ts (ti_TaskID ti) = Some t \<Longrightarrow> deps_met tis (ti_RunID ti) t"
  by (simp add: deps_first_def)

text \<open>Successful instances that stay keep dependencies met.\<close>

lemma deps_met_mono:
  assumes "deps_met tis rid t"
    and "\<And>a. fmlookup tis (ti_ID a) = Some a \<Longrightarrow> ti_Status a = StatusSuccess \<Longrightarrow> ti_RunID a = rid \<Longrightarrow>
      fmlookup tis' (ti_ID a) = Some a"
  shows "deps_met tis' rid t"
  using assms unfolding deps_met_def by meson

lemma sys_inv_start: "sys_inv plan (NewFIFOScheduler p, NewMemoryStore)"
  by (simp add: sys_inv_def NewFIFOScheduler_def NewMemoryStore_def store_wf_def plan_ok_def
      known_dag_def one_instance_def keyed_tis_def keyed_runs_def follows_def deps_first_def)

section \<open>Updating an instance that runs\<close>

text \<open>The instance that is overwritten has started and not ended, and keeps its run and task.\<close>

definition overwrites :: "(string, task_instance) fmap \<Rightarrow> task_instance \<Rightarrow> task_instance \<Rightarrow> bool" where
  "overwrites tis ti ti' \<longleftrightarrow> fmlookup tis (ti_ID ti') = Some ti \<and> ti_Status ti \<noteq> StatusPending \<and>
     \<not> IsTerminal (ti_Status ti) \<and> ti_RunID ti' = ti_RunID ti \<and> ti_TaskID ti' = ti_TaskID ti"

lemma update_plan:
  assumes "overwrites tis ti ti'" "plan_ok known rs tis"
  shows "plan_ok known rs (fmupd (ti_ID ti') ti' tis)"
proof -
  let ?tis' = "fmupd (ti_ID ti') ti' tis"
  have one: "one_instance tis" using assms(2) by (simp add: plan_ok_def)
  have old: "\<exists>b. fmlookup tis j = Some b \<and> ti_RunID b = ti_RunID a \<and> ti_TaskID b = ti_TaskID a"
    if "fmlookup ?tis' j = Some a" for j a
    using that assms(1) by (cases "j = ti_ID ti'") (auto simp: overwrites_def)
  have "one_instance ?tis'"
    unfolding one_instance_def
  proof (intro allI impI)
    fix j k a b assume jk: "fmlookup ?tis' j = Some a" "fmlookup ?tis' k = Some b"
      "ti_RunID a = ti_RunID b" "ti_TaskID a = ti_TaskID b"
    then show "j = k" using old [OF jk(1)] old [OF jk(2)] one_instanceD [OF one] by metis
  qed
  then show ?thesis using assms(2) by (simp add: plan_ok_def keyed_tis_def)
qed

lemma update_deps_first:
  assumes "overwrites tis ti ti'" "deps_first plan rs tis"
  shows "deps_first plan rs (fmupd (ti_ID ti') ti' tis)"
  unfolding deps_first_def
proof (intro allI impI)
  fix j a r ts t
  assume a: "fmlookup (fmupd (ti_ID ti') ti' tis) j = Some a" "ti_Status a \<noteq> StatusPending"
    "fmlookup rs (ti_RunID a) = Some r" "plan (run_DAGID r) = Some ts" "fmlookup ts (ti_TaskID a) = Some t"
  have ti: "fmlookup tis (ti_ID ti') = Some ti" "ti_Status ti \<noteq> StatusPending" "\<not> IsTerminal (ti_Status ti)"
      "ti_RunID ti' = ti_RunID ti" "ti_TaskID ti' = ti_TaskID ti"
    using assms(1) by (simp_all add: overwrites_def)
  have "deps_met tis (ti_RunID a) t"
  proof (cases "j = ti_ID ti'")
    case True
    then have "a = ti'" using a(1) by simp
    then show ?thesis using deps_firstD [OF assms(2) ti(1,2)] a(3-5) ti(4,5) by simp
  next
    case False
    then show ?thesis using deps_firstD [OF assms(2) _ a(2-5)] a(1) by simp
  qed
  then show "deps_met (fmupd (ti_ID ti') ti' tis) (ti_RunID a) t"
    by (rule deps_met_mono) (use ti(1,3) in auto)
qed

lemma update_run_sound:
  assumes "overwrites tis ti ti'" "run_sound tis r"
  shows "run_sound (fmupd (ti_ID ti') ti' tis) r"
proof (cases "run_ID r = ti_RunID ti")
  case True
  then have "run_Status r = StatusRunning"
    using assms by (auto simp: run_sound_def all_terminal_def overwrites_def)
  then show ?thesis by (simp add: run_sound_def)
next
  case False
  then have "fmlookup (fmupd (ti_ID ti') ti' tis) k = Some a \<and> ti_RunID a = run_ID r \<longleftrightarrow>
      fmlookup tis k = Some a \<and> ti_RunID a = run_ID r" for k a
    using assms(1) by (cases "k = ti_ID ti'") (auto simp: overwrites_def)
  then show ?thesis using assms(2) run_sound_view by blast
qed

lemma update_running:
  assumes inv: "sys_inv plan (sch, s)"
    and ti: "fmlookup (taskInstances s) i = Some ti" "ti_Status ti \<noteq> StatusPending"
      "\<not> IsTerminal (ti_Status ti)"
    and ti': "ti_ID ti' = i" "ti_RunID ti' = ti_RunID ti" "ti_TaskID ti' = ti_TaskID ti"
  shows "sys_inv plan (sch, s\<lparr>taskInstances := fmupd i ti' (taskInstances s)\<rparr>)"
proof -
  note I = sys_invD [OF inv]
  have ov: "overwrites (taskInstances s) ti ti'" using ti ti' by (simp add: overwrites_def)
  have "store_wf (s\<lparr>taskInstances := fmupd i ti' (taskInstances s)\<rparr>)"
    using store_wf_ti [OF I(1), of ti'] ti'(1) by simp
  moreover have "fmlookup (runs s) (ti_RunID a) \<noteq> None"
    if "fmlookup (fmupd i ti' (taskInstances s)) j = Some a" for j a
    using that I(6) ti(1) ti'(2) by (cases "j = i") auto
  ultimately show ?thesis
    using I(3) update_plan [OF ov I(2)] update_deps_first [OF ov I(4)] update_run_sound [OF ov I(5)] ti'(1)
    by (simp add: sys_inv_def)
qed

section \<open>The invariant holds in every reachable state\<close>

lemma submit_inv:
  assumes inv: "sys_inv plan (sch, s)" and m: "mem_world_ok m"
    and d: "plan (dag_ID d) = Some (Tasks d)" "well_keyed (Tasks d)"
    and fresh: "fresh_ids w d (runs s) (taskInstances s)"
    and sub: "Submit (memory_ops m) w d params (sch, s) = (r, st')"
  shows "sys_inv plan st'"
proof -
  note I = sys_invD [OF inv]
  obtain s' where st': "st' = (with_dag d sch, s')" and S: "store_wf s'" "plan_in (with_dag d sch) s'"
      "dags s' = dags s" "runs s' = fmupd (su_run w) (submitted_run w (mw_now m) d params) (runs s)"
      "with_instances w d (taskInstances s) (taskInstances s')"
    using Submit_memory [OF I(1) m I(2) d(2) fresh, of params] sub by auto
  note cases = with_instances_cases [OF fresh S(5) d(2)] and keep = with_instances_keep [OF fresh S(5)]
  have new: "fmlookup (runs s) (su_run w) = None" using fresh by (simp add: fresh_ids_def)
  have "follows plan (known_dags (with_dag d sch) s')"
    using I(3) d(1) by (auto simp: follows_def known_dag_def S(3))
  moreover have "deps_first plan (runs s') (taskInstances s')"
    unfolding deps_first_def
  proof (intro allI impI)
    fix i a q ts t
    assume a: "fmlookup (taskInstances s') i = Some a" "ti_Status a \<noteq> StatusPending"
      "fmlookup (runs s') (ti_RunID a) = Some q" "plan (run_DAGID q) = Some ts" "fmlookup ts (ti_TaskID a) = Some t"
    then have "fmlookup (taskInstances s) i = Some a" "ti_RunID a \<noteq> su_run w"
      using cases [OF a(1)] by auto
    then have "deps_met (taskInstances s) (ti_RunID a) t"
      using deps_firstD [OF I(4) _ a(2) _ a(4,5)] a(3) S(4) by simp
    then show "deps_met (taskInstances s') (ti_RunID a) t" by (rule deps_met_mono) (rule keep)
  qed
  moreover have "run_sound (taskInstances s') q" if q: "fmlookup (runs s') i = Some q" for i q
  proof (cases "i = su_run w")
    case True
    then have "q = submitted_run w (mw_now m) d params" using q S(4) by simp
    then show ?thesis by (simp add: run_sound_def submitted_run_def)
  next
    case False
    then have old: "fmlookup (runs s) i = Some q" using q S(4) by simp
    then have "run_ID q \<noteq> su_run w" using store_wfD(1) [OF I(1)] False by blast
    then have "fmlookup (taskInstances s') j = Some a \<and> ti_RunID a = run_ID q \<longleftrightarrow>
        fmlookup (taskInstances s) j = Some a \<and> ti_RunID a = run_ID q" for j a
      using cases [of j a] keep [of j a] by auto
    then show ?thesis using I(5) [OF old] run_sound_view by blast
  qed
  moreover have "fmlookup (runs s') (ti_RunID a) \<noteq> None" if "fmlookup (taskInstances s') i = Some a" for i a
    using cases [OF that] I(6) S(4) by auto
  ultimately show ?thesis using S(1,2) by (simp add: st' sys_inv_def)
qed

lemma register_inv:
  assumes inv: "sys_inv plan (sch, s)" and m: "mem_world_ok m"
    and d: "plan (dag_ID d) = Some (Tasks d)" "well_keyed (Tasks d)"
    and reg: "RegisterDAG (memory_ops m) cron_add d (sch, s) = (e, st')"
  shows "sys_inv plan st'"
proof -
  note I = sys_invD [OF inv]
  have "mem_inv m s" using I(1) m by (simp add: mem_inv_def)
  from mem.save_dag [OF this, of d]
  obtain d' s' where S: "op_SaveDAG (memory_ops m) d s = Inr (d', s')" "mem_inv m s'"
      "d' = d\<lparr>dag_CreatedAt := dag_CreatedAt d', dag_UpdatedAt := dag_UpdatedAt d'\<rparr>"
      "dags s' = fmupd (dag_ID d) d' (dags s)" "runs s' = runs s" "taskInstances s' = taskInstances s"
    by blast
  have d': "dag_ID d' = dag_ID d" "Tasks d' = Tasks d" by (subst S(3), simp)+
  obtain sch' where st': "st' = (sch', s')" "dagIndex sch' = fmupd (dag_ID d) d' (dagIndex sch)"
    using reg S(1) d'(1)
    by (auto simp: RegisterDAG_def Let_def split: option.splits if_splits)
  have known: "known_dags sch' s' = (known_dags sch s)(dag_ID d := Some d')"
    by (simp add: known_dag_def st'(2) S(4) fun_eq_iff split: option.split)
  then have "plan_in sch' s'"
    using I(2) d(2) d'(2) by (simp add: plan_ok_def S(5,6))
  moreover have "follows plan (known_dags sch' s')"
    using I(3) d(1) d' by (simp add: known follows_def)
  ultimately show ?thesis
    using I mem_inv_wf [OF S(2)] by (simp add: st'(1) sys_inv_def S(5,6))
qed

lemma register_keeps:
  assumes "RegisterDAG (memory_ops m) cron_add d (sch, s) = (e, sch', s')" "store_wf s" "mem_world_ok m"
  shows "taskInstances s' = taskInstances s" "runs s' = runs s"
proof -
  have "mem_inv m s" using assms(2,3) by (simp add: mem_inv_def)
  from mem.save_dag [OF this, of d] assms(1)
  show "taskInstances s' = taskInstances s" "runs s' = runs s"
    by (auto simp: RegisterDAG_def Let_def split: option.splits if_splits)
qed

text \<open>One call of \<open>Schedule\<close>, in the terms of what it leaves in the store.\<close>

definition ticked :: "sched_world \<Rightarrow> (string \<Rightarrow> time) \<Rightarrow> sched \<Rightarrow> memory_store \<Rightarrow> memory_store \<Rightarrow> bool" where
  "ticked w clock sch s s' \<longleftrightarrow>
     taskInstances s' = fmmap (queue_due w (due_in sch s)) (taskInstances s) \<and>
     runs s' = fmmap (closed_run w clock (known_dags sch s) (taskInstances s')) (runs s)"

lemma ticked_keeps:
  assumes "ticked w clock sch s s'" "fmlookup (taskInstances s) i = Some a" "ti_Status a \<noteq> StatusPending"
  shows "fmlookup (taskInstances s') i = Some a"
proof -
  have "\<not> due_in sch s a" using assms(3) by (simp add: due_def)
  then show ?thesis using assms(1,2) by (simp add: ticked_def queue_due_def)
qed

lemma ticked_deps_first:
  assumes inv: "sys_inv plan (sch, s)" and T: "ticked w clock sch s s'"
  shows "deps_first plan (runs s') (taskInstances s')"
  unfolding deps_first_def
proof (intro allI impI)
  note I = sys_invD [OF inv]
  let ?D = "due_in sch s"
  fix i a' q' ts t
  assume a': "fmlookup (taskInstances s') i = Some a'" "ti_Status a' \<noteq> StatusPending"
    "fmlookup (runs s') (ti_RunID a') = Some q'" "plan (run_DAGID q') = Some ts" "fmlookup ts (ti_TaskID a') = Some t"
  obtain a q where a: "fmlookup (taskInstances s) i = Some a" "a' = queue_due w ?D a"
    and q: "fmlookup (runs s) (ti_RunID a) = Some q" "run_DAGID q' = run_DAGID q"
    using a'(1,3) T by (auto simp: ticked_def closed_run_def)
  have "deps_met (taskInstances s) (ti_RunID a) t"
  proof (cases "?D a")
    case True
    then obtain d u where u: "known_dags sch s (run_DAGID q) = Some d" "fmlookup (Tasks d) (ti_TaskID a) = Some u"
        "deps_met (taskInstances s) (ti_RunID a) u"
      using q(1) by (auto simp: due_def)
    then have "ts = Tasks d" using I(3) a'(4) q(2) by (simp add: follows_def)
    then show ?thesis using u a'(5) a(2) by simp
  next
    case False
    then have "a' = a" using a(2) by (simp add: queue_due_def)
    then show ?thesis using deps_firstD [OF I(4) a(1) _ q(1)] a'(2,4,5) q(2) by simp
  qed
  then show "deps_met (taskInstances s') (ti_RunID a') t"
    using a(2) ticked_keeps [OF T] by (auto intro: deps_met_mono)
qed

text \<open>An ended run sees the same instances as before.\<close>

lemma ticked_run_sound:
  assumes inv: "sys_inv plan (sch, s)" and T: "ticked w clock sch s s'"
    and q': "fmlookup (runs s') i = Some q'"
  shows "run_sound (taskInstances s') q'"
proof -
  note I = sys_invD [OF inv]
  obtain q where q: "fmlookup (runs s) i = Some q"
      "q' = closed_run w clock (known_dags sch s) (taskInstances s') q"
    using q' T by (auto simp: ticked_def)
  consider (open_run) "q' = q" "run_Status q = StatusRunning" | (ended) "q' = q" "run_Status q \<noteq> StatusRunning"
    | (closed_now) "q' \<noteq> q" by blast
  then show ?thesis
  proof cases
    case ended
    then have trm: "all_terminal (taskInstances s) (run_ID q)"
      using I(5) [OF q(1)] by (simp add: run_sound_def)
    have "fmlookup (taskInstances s') j = Some a \<and> ti_RunID a = run_ID q \<longleftrightarrow>
        fmlookup (taskInstances s) j = Some a \<and> ti_RunID a = run_ID q" for j a
    proof (cases "fmlookup (taskInstances s) j")
      case (Some b)
      have "fmlookup (taskInstances s') j = Some b" if "ti_RunID b = run_ID q"
      proof (rule ticked_keeps [OF T Some])
        have "IsTerminal (ti_Status b)" using trm Some that by (simp add: all_terminal_def)
        then show "ti_Status b \<noteq> StatusPending" by auto
      qed
      then show ?thesis using T Some by (auto simp: ticked_def)
    qed (use T in \<open>simp add: ticked_def\<close>)
    then show ?thesis using I(5) [OF q(1)] run_sound_view ended(1) by blast
  qed (use q(2) in \<open>auto simp: closed_run_def run_sound_def split: if_splits\<close>)
qed

lemma schedule_inv:
  assumes inv: "sys_inv plan (sch, s)" and m: "mem_world_ok m" and w: "orders_ok w"
    and sch: "Schedule (memory_ops m) w (sch, s) = (r, st')"
  shows "sys_inv plan st'"
proof -
  note I = sys_invD [OF inv]
  obtain sch' s' where st': "st' = (sch', s')" and S: "store_wf s'" "known_dags sch' s' = known_dags sch s"
      "taskInstances s' = fmmap (queue_due w (due_in sch s)) (taskInstances s)"
      "runs s' = fmmap (closed_run w (mw_now m) (known_dags sch s) (taskInstances s')) (runs s)"
    using Schedule_memory [OF I(1) m w I(2)] sch by auto
  have T: "ticked w (mw_now m) sch s s'" using S(3,4) by (simp add: ticked_def)
  have "plan_in sch' s'" unfolding S(2,3,4) using I(2) by (rule plan_ok_queue)
  moreover have "fmlookup (runs s') (ti_RunID a) \<noteq> None" if "fmlookup (taskInstances s') i = Some a" for i a
    using that I(6) by (auto simp: S(3,4))
  ultimately show ?thesis
    using S(1) I(3) ticked_deps_first [OF inv T] ticked_run_sound [OF inv T] by (simp add: st' sys_inv_def S(2))
qed

text \<open>A report or an update of a worker overwrites one instance that has started and not ended.\<close>

lemma report_update:
  assumes "store_wf s" "fmlookup (taskInstances s) (tr_TaskInstanceID res) = Some ti"
    "ReportCompletion (memory_ops m) now k res s = (e, s')"
  obtains ti' where "s' = s\<lparr>taskInstances := fmupd (ti_ID ti) ti' (taskInstances s)\<rparr>" "ti_ID ti' = ti_ID ti"
    "ti_RunID ti' = ti_RunID ti" "ti_TaskID ti' = ti_TaskID ti" "fmlookup (taskInstances s) (ti_ID ti) = Some ti"
proof -
  have "ti_ID ti = tr_TaskInstanceID res" using store_wfD(3) assms(1,2) by blast
  then show ?thesis
    using that [of "ti\<lparr>ti_Status := tr_Status res, ti_Output := tr_Output res, ti_Error := tr_Error res,
          ti_EndTime := now\<rparr>"] assms(2,3) by (simp add: ReportCompletion_memory [OF assms(1)])
qed

text \<open>The steps in three kinds.\<close>

lemma sys_step_cases [consumes 2, case_names submit register schedule update]:
  assumes step: "sys_step plan (sch, s) st'" and wf: "store_wf s"
  obtains m w d params r where "mem_world_ok m" "plan (dag_ID d) = Some (Tasks d)" "well_keyed (Tasks d)"
      "fresh_ids w d (runs s) (taskInstances s)" "Submit (memory_ops m) w d params (sch, s) = (r, st')"
  | m d cron_add e where "mem_world_ok m" "plan (dag_ID d) = Some (Tasks d)" "well_keyed (Tasks d)"
      "RegisterDAG (memory_ops m) cron_add d (sch, s) = (e, st')"
  | m w r where "mem_world_ok m" "orders_ok w" "Schedule (memory_ops m) w (sch, s) = (r, st')"
  | ti ti' where "fmlookup (taskInstances s) (ti_ID ti) = Some ti" "ti_Status ti \<noteq> StatusPending"
      "\<not> IsTerminal (ti_Status ti)" "ti_ID ti' = ti_ID ti" "ti_RunID ti' = ti_RunID ti"
      "ti_TaskID ti' = ti_TaskID ti"
      "st' = (sch, s\<lparr>taskInstances := fmupd (ti_ID ti) ti' (taskInstances s)\<rparr>)"
  using step
proof (cases rule: sys_step.cases)
  case (report res ti m now k e s')
  show ?thesis
    by (rule report_update [OF wf report(2,5)]) (rule that(4), use report in auto)
next
  case (work ti' ti s')
  have "ti_ID ti = ti_ID ti'" using store_wfD(3) [OF wf] work(2) by blast
  moreover have "s' = s\<lparr>taskInstances := fmupd (ti_ID ti') ti' (taskInstances s)\<rparr>"
    using work by (simp add: UpdateTaskInstance_def split: if_splits)
  ultimately show ?thesis using work by (intro that(4) [of ti ti']) simp_all
qed (blast intro: that(1-3))+

lemma sys_step_inv: "sys_step plan st st' \<Longrightarrow> sys_inv plan st \<Longrightarrow> sys_inv plan st'"
proof (cases st)
  fix sch s assume step: "sys_step plan st st'" and inv: "sys_inv plan st" and st: "st = (sch, s)"
  from step inv have step: "sys_step plan (sch, s) st'" and inv: "sys_inv plan (sch, s)" by (simp_all add: st)
  from step sys_invD(1) [OF inv] show ?thesis
  proof (cases rule: sys_step_cases)
    case (submit m w d params r)
    then show ?thesis by (rule submit_inv [OF inv])
  next
    case (register m d cron_add e)
    then show ?thesis by (rule register_inv [OF inv])
  next
    case (schedule m w r)
    then show ?thesis by (rule schedule_inv [OF inv])
  next
    case (update ti ti')
    then show ?thesis by (auto intro: update_running [OF inv])
  qed
qed

lemma sys_invariant: "sys plan st \<Longrightarrow> sys_inv plan st"
  by (induction rule: sys.induct) (auto intro: sys_inv_start sys_step_inv)

text \<open>
  C1. No early start, in every reachable state of the system: if a task instance is not pending any more
  then each dependency of its task, by the plan of the DAG, has an instance in the same run that has
  succeeded.
\<close>

theorem no_early_start:
  assumes "sys plan (sch, s)" and "fmlookup (taskInstances s) i = Some ti"
    and "ti_Status ti \<noteq> StatusPending" and "fmlookup (runs s) (ti_RunID ti) = Some r"
    and "plan (run_DAGID r) = Some ts" and "fmlookup ts (ti_TaskID ti) = Some t"
    and "dep \<in> set (Dependencies t)"
  shows "\<exists>j a. fmlookup (taskInstances s) j = Some a \<and> ti_RunID a = ti_RunID ti \<and>
    ti_TaskID a = dep \<and> ti_Status a = StatusSuccess"
  using deps_firstD [OF sys_invD(4) [OF sys_invariant [OF assms(1)]] assms(2-6)] assms(7)
  unfolding deps_met_def by blast

text \<open>
  C12. In every reachable state each run is running, successful or failed. If it is not running,
  all its task instances have ended, and it is failed exactly when one of them failed: cancelled and
  skipped instances leave a run successful.
\<close>

theorem run_status_sound:
  assumes "sys plan (sch, s)" and "fmlookup (runs s) i = Some r"
  shows "run_Status r = StatusRunning \<or>
    (\<forall>j ti. fmlookup (taskInstances s) j = Some ti \<longrightarrow> ti_RunID ti = i \<longrightarrow> IsTerminal (ti_Status ti)) \<and>
    run_Status r = (if \<exists>j ti. fmlookup (taskInstances s) j = Some ti \<and> ti_RunID ti = i \<and>
      ti_Status ti = StatusFailed then StatusFailed else StatusSuccess)"
proof -
  note inv = sys_invariant [OF assms(1)]
  have "run_ID r = i" using store_wfD(1) [OF sys_invD(1) [OF inv]] assms(2) by blast
  then show ?thesis
    using sys_invD(5) [OF inv assms(2)] unfolding run_sound_def all_terminal_def any_failed_def
    by (simp only:)
qed

section \<open>A failed task blocks its run\<close>

text \<open>Task \<open>t\<close> of a running run waits for an instance that has ended without success.\<close>

definition blocked ::
  "(string \<Rightarrow> tasks option) \<Rightarrow> memory_store \<Rightarrow> task_instance \<Rightarrow> task_instance \<Rightarrow> dag_run \<Rightarrow> bool" where
  "blocked plan s bad ti r \<longleftrightarrow>
     fmlookup (taskInstances s) (ti_ID bad) = Some bad \<and> IsTerminal (ti_Status bad) \<and>
     ti_Status bad \<noteq> StatusSuccess \<and>
     fmlookup (taskInstances s) (ti_ID ti) = Some ti \<and> ti_RunID ti = ti_RunID bad \<and>
     fmlookup (runs s) (ti_RunID ti) = Some r \<and>
     (\<exists>ts t. plan (run_DAGID r) = Some ts \<and> fmlookup ts (ti_TaskID ti) = Some t \<and>
        ti_TaskID bad \<in> set (Dependencies t))"

lemma blocked_deps:
  assumes inv: "sys_inv plan (sch, s)" and b: "blocked plan s bad ti r"
    and t: "plan (run_DAGID r) = Some ts" "fmlookup ts (ti_TaskID ti) = Some t"
  shows "\<not> deps_met (taskInstances s) (ti_RunID ti) t"
proof
  have dep: "ti_TaskID bad \<in> set (Dependencies t)" using b t by (auto simp: blocked_def)
  assume "deps_met (taskInstances s) (ti_RunID ti) t"
  with dep obtain a where a: "fmlookup (taskInstances s) (ti_ID a) = Some a" "ti_RunID a = ti_RunID ti"
      "ti_TaskID a = ti_TaskID bad" "ti_Status a = StatusSuccess"
    unfolding deps_met_def by blast
  have one: "one_instance (taskInstances s)" using sys_invD(2) [OF inv] by (simp add: plan_ok_def)
  have bad: "fmlookup (taskInstances s) (ti_ID bad) = Some bad" "ti_RunID ti = ti_RunID bad"
      "ti_Status bad \<noteq> StatusSuccess" using b by (simp_all add: blocked_def)
  have "ti_RunID a = ti_RunID bad" using a(2) bad(2) by (rule trans)
  then have "ti_ID a = ti_ID bad" using a(3) by (rule one_instanceD [OF one a(1) bad(1)])
  then have "a = bad" using a(1) bad(1) by (metis option.inject)
  then show False using a(4) bad(3) by simp
qed

lemma blocked_pending:
  assumes inv: "sys_inv plan (sch, s)" and b: "blocked plan s bad ti r"
  shows "ti_Status ti = StatusPending" "run_Status r = StatusRunning" "\<not> due_in sch s ti"
proof -
  obtain ts t where t: "plan (run_DAGID r) = Some ts" "fmlookup ts (ti_TaskID ti) = Some t"
    and ti: "fmlookup (taskInstances s) (ti_ID ti) = Some ti" "fmlookup (runs s) (ti_RunID ti) = Some r"
    using b by (auto simp: blocked_def)
  note nd = blocked_deps [OF inv b t]
  show pending: "ti_Status ti = StatusPending"
    using deps_firstD [OF sys_invD(4) [OF inv] ti(1) _ ti(2) t] nd by blast
  have "run_ID r = ti_RunID ti" using store_wfD(1) [OF sys_invD(1) [OF inv]] ti(2) by blast
  then have "\<not> all_terminal (taskInstances s) (run_ID r)"
    using ti(1) pending unfolding all_terminal_def by (metis IsTerminal_simps(1))
  then show "run_Status r = StatusRunning"
    using sys_invD(5) [OF inv ti(2)] by (simp add: run_sound_def)
  show "\<not> due_in sch s ti"
    using nd t ti(2) sys_invD(3) [OF inv] by (auto simp: due_def follows_def)
qed

lemma blocked_step:
  assumes inv: "sys_inv plan (sch, s)" and b: "blocked plan s bad ti r"
    and step: "sys_step plan (sch, s) (sch', s')"
  shows "\<exists>r'. blocked plan s' bad ti r'"
proof -
  note I = sys_invD [OF inv] and pending = blocked_pending [OF inv b]
  have bad: "fmlookup (taskInstances s) (ti_ID bad) = Some bad" "IsTerminal (ti_Status bad)"
      "ti_Status bad \<noteq> StatusSuccess" "ti_RunID ti = ti_RunID bad"
    and ti: "fmlookup (taskInstances s) (ti_ID ti) = Some ti"
    and r: "fmlookup (runs s) (ti_RunID ti) = Some r"
    and t: "\<exists>ts t. plan (run_DAGID r) = Some ts \<and> fmlookup ts (ti_TaskID ti) = Some t \<and>
        ti_TaskID bad \<in> set (Dependencies t)"
    using b unfolding blocked_def by blast+
  have keep: "\<exists>r'. blocked plan s' bad ti r'"
    if "fmlookup (taskInstances s') (ti_ID bad) = Some bad" "fmlookup (taskInstances s') (ti_ID ti) = Some ti"
      "fmlookup (runs s') (ti_RunID ti) = Some r'" "run_DAGID r' = run_DAGID r" for r'
    using that bad t unfolding blocked_def by auto
  from step I(1) show ?thesis
  proof (cases rule: sys_step_cases)
    case (submit m w d params x)
    then obtain S: "runs s' = fmupd (su_run w) (submitted_run w (mw_now m) d params) (runs s)"
        "with_instances w d (taskInstances s) (taskInstances s')"
      using Submit_memory [OF I(1) submit(1) I(2) submit(3,4), of params] by auto
    have "su_run w \<noteq> ti_RunID ti" using submit(4) r by (auto simp: fresh_ids_def)
    then show ?thesis
      using keep [of r] with_instances_keep [OF submit(4) S(2)] bad(1) ti r S(1) by simp
  next
    case (register m d cron_add e)
    show ?thesis using register_keeps [OF register(4) I(1) register(1)] keep bad(1) ti r by simp
  next
    case (schedule m w x)
    then obtain S: "taskInstances s' = fmmap (queue_due w (due_in sch s)) (taskInstances s)"
        "runs s' = fmmap (closed_run w (mw_now m) (known_dags sch s) (taskInstances s')) (runs s)"
      using Schedule_memory [OF I(1) schedule(1,2) I(2)] by auto
    have "\<not> due_in sch s bad" using bad(2) by (auto simp: due_def)
    then have "fmlookup (taskInstances s') (ti_ID bad) = Some bad" "fmlookup (taskInstances s') (ti_ID ti) = Some ti"
      using bad(1) ti pending(3) by (simp_all add: S(1) queue_due_def)
    then show ?thesis using keep r S(2) by (auto simp: closed_run_def)
  next
    case (update a a')
    have "a \<noteq> bad" "a \<noteq> ti" using update(2,3) bad(2) pending(1) by auto
    then have "ti_ID a \<noteq> ti_ID bad" "ti_ID a \<noteq> ti_ID ti"
      using update(1) bad(1) ti by (metis option.inject)+
    then show ?thesis using update(7) keep bad(1) ti r by simp
  qed
qed

lemma blocked_forever:
  assumes "(sys_step plan)\<^sup>*\<^sup>* st st'" "sys_inv plan st" "blocked plan (snd st) bad ti r"
  shows "sys_inv plan st' \<and> (\<exists>r'. blocked plan (snd st') bad ti r')"
  using assms
proof (induction rule: rtranclp_induct)
  case (step x y)
  obtain a b a' b' where x: "x = (a, b)" "y = (a', b')" by (cases x, cases y)
  obtain r' where "sys_inv plan x" "blocked plan (snd x) bad ti r'" using step by blast
  then show ?case using blocked_step [of plan a b bad ti r' a' b'] sys_step_inv step.hyps(2) by (auto simp: x)
qed blast

text \<open>
  C13. A task instance that ended without success (failed, cancelled or skipped) blocks its run for
  good: if some task of the run depends on it, then in this state and in every later one that
  instance is still pending and the run still running. No sequence of scheduling and reports
  ends the run, also not as failed.
\<close>

theorem failure_blocks_run:
  assumes "sys plan (sch, s)" and "fmlookup (taskInstances s) i = Some bad"
    and "IsTerminal (ti_Status bad)" and "ti_Status bad \<noteq> StatusSuccess"
    and "fmlookup (taskInstances s) j = Some ti" and "ti_RunID ti = ti_RunID bad"
    and "fmlookup (runs s) (ti_RunID ti) = Some r" and "plan (run_DAGID r) = Some ts"
    and "fmlookup ts (ti_TaskID ti) = Some t" and "ti_TaskID bad \<in> set (Dependencies t)"
    and "(sys_step plan)\<^sup>*\<^sup>* (sch, s) (sch', s')"
  shows "fmlookup (taskInstances s') j = Some ti \<and> ti_Status ti = StatusPending \<and>
    (\<exists>r'. fmlookup (runs s') (ti_RunID ti) = Some r' \<and> run_Status r' = StatusRunning)"
proof -
  have inv: "sys_inv plan (sch, s)" using assms(1) by (rule sys_invariant)
  note wf = sys_invD(1) [OF inv]
  have ids: "ti_ID bad = i" "ti_ID ti = j" using store_wfD(3) [OF wf] assms(2,5) by blast+
  then have b: "blocked plan (snd (sch, s)) bad ti r" using assms(2-10) unfolding blocked_def by auto
  obtain r' where "sys_inv plan (sch', s')" "blocked plan s' bad ti r'"
    using blocked_forever [OF assms(11) inv b] by auto
  then show ?thesis
    using blocked_pending [of plan sch' s' bad ti r'] ids(2) by (auto simp: blocked_def)
qed

section \<open>Examples\<close>

text \<open>A chain of two tasks is submitted, task \<open>a\<close> is queued and reported with a status, and \<open>Schedule\<close> is called again.\<close>

definition chain_plan :: "string \<Rightarrow> tasks option" where
  "chain_plan i = (if i = ''demo'' then Some (Tasks chain) else None)"

definition chain_submit :: submit_world where
  "chain_submit = \<lparr>su_run = ''r1'', su_ti = (\<lambda>k. ''r1/'' @ k), su_start = 3, su_queued = (\<lambda>_. 4),
     su_tasks = [''b'', ''a'']\<rparr>"

definition chain_state :: "sched \<times> memory_store" where
  "chain_state = snd (Submit (memory_ops plain_mem) chain_submit chain fmempty
     (NewFIFOScheduler 0, NewMemoryStore))"

lemma chain_fresh:
  "well_keyed (Tasks chain)" "fresh_ids chain_submit chain (runs NewMemoryStore) (taskInstances NewMemoryStore)"
proof -
  show "well_keyed (Tasks chain)" by code_simp
  have "ranges (su_tasks chain_submit) (Tasks chain)" by code_simp
  then show "fresh_ids chain_submit chain (runs NewMemoryStore) (taskInstances NewMemoryStore)"
    by (auto simp: fresh_ids_def NewMemoryStore_def chain_submit_def inj_on_def)
qed

definition a_queued :: "sched \<times> memory_store" where
  "a_queued = snd (Schedule (memory_ops plain_mem) plain_sched chain_state)"

definition a_result :: "status \<Rightarrow> task_result" where
  "a_result st = \<lparr>tr_TaskInstanceID = ''r1/a'', tr_RunID = ''r1'', tr_Status = st, tr_Output = '''',
     tr_Error = '''', tr_Metrics = fmempty\<rparr>"

definition a_reported :: "status \<Rightarrow> sched \<times> memory_store" where
  "a_reported st = (fst a_queued,
     snd (ReportCompletion (memory_ops plain_mem) 9 ''a'' (a_result st) (snd a_queued)))"

definition then_scheduled :: "status \<Rightarrow> sched \<times> memory_store" where
  "then_scheduled st = snd (Schedule (memory_ops plain_mem) plain_sched (a_reported st))"

lemma step_schedule: "sys_step plan st (snd (Schedule (memory_ops plain_mem) plain_sched st))"
proof -
  obtain sch s where st: "st = (sch, s)" by (cases st)
  show ?thesis
    unfolding st by (rule sys_step.schedule [OF plain_mem_ok plain_sched_ok surjective_pairing])
qed

lemma sys_examples:
  "sys chain_plan a_queued" "sys chain_plan (a_reported st)" "sys chain_plan (then_scheduled st)"
proof -
  have "dag_ID chain = ''demo''" by code_simp
  then have "sys_step chain_plan (NewFIFOScheduler 0, NewMemoryStore) chain_state"
    unfolding chain_state_def
    by (intro sys_step.submit [OF plain_mem_ok _ chain_fresh surjective_pairing]) (simp add: chain_plan_def)
  then have "sys chain_plan chain_state" by (rule sys.step [OF sys.start])
  then show q: "sys chain_plan a_queued" unfolding a_queued_def by (rule sys.step [OF _ step_schedule])
  have "case fmlookup (taskInstances (snd a_queued)) ''r1/a'' of
      Some ti \<Rightarrow> ti_Status ti = StatusQueued | None \<Rightarrow> False" by code_simp
  then obtain ti where ti: "fmlookup (taskInstances (snd a_queued)) ''r1/a'' = Some ti" "ti_Status ti = StatusQueued"
    by (auto split: option.splits)
  have "sys_step chain_plan (fst a_queued, snd a_queued) (a_reported st)"
    unfolding a_reported_def
    by (rule sys_step.report [OF _ _ _ surjective_pairing, where ti = ti])
       (use ti in \<open>simp_all add: a_result_def\<close>)
  then show r: "sys chain_plan (a_reported st)" using q by (auto intro: sys.step)
  show "sys chain_plan (then_scheduled st)" unfolding then_scheduled_def by (rule sys.step [OF r step_schedule])
qed

lemma no_early_start_witness:
  "\<exists>j a. fmlookup (taskInstances (snd (then_scheduled StatusSuccess))) j = Some a \<and>
     ti_TaskID a = ''a'' \<and> ti_Status a = StatusSuccess"
proof -
  let ?s = "snd (then_scheduled StatusSuccess)"
  have "case fmlookup (taskInstances ?s) ''r1/b'' of
      Some ti \<Rightarrow> ti_Status ti = StatusQueued \<and> ti_TaskID ti = ''b'' \<and> ti_RunID ti = ''r1'' | None \<Rightarrow> False"
    by code_simp
  then obtain ti where ti: "fmlookup (taskInstances ?s) ''r1/b'' = Some ti" "ti_Status ti = StatusQueued"
      "ti_TaskID ti = ''b''" "ti_RunID ti = ''r1''"
    by (auto split: option.splits)
  have "case fmlookup (runs ?s) ''r1'' of Some r \<Rightarrow> run_DAGID r = ''demo'' | None \<Rightarrow> False" by code_simp
  then obtain r where r: "fmlookup (runs ?s) ''r1'' = Some r" "run_DAGID r = ''demo''"
    by (auto split: option.splits)
  have "case fmlookup (Tasks chain) ''b'' of Some t \<Rightarrow> ''a'' \<in> set (Dependencies t) | None \<Rightarrow> False"
    by code_simp
  then obtain t where t: "fmlookup (Tasks chain) ''b'' = Some t" "''a'' \<in> set (Dependencies t)"
    by (auto split: option.splits)
  have "sys chain_plan (fst (then_scheduled StatusSuccess), ?s)" using sys_examples(3) by simp
  from no_early_start [OF this ti(1), of r "Tasks chain" t "''a''"] show ?thesis
    using ti r t by (auto simp: chain_plan_def)
qed

lemma run_status_sound_witness:
  "\<exists>r. fmlookup (runs (snd a_queued)) ''r1'' = Some r \<and>
     (run_Status r = StatusRunning \<or>
      (\<forall>j ti. fmlookup (taskInstances (snd a_queued)) j = Some ti \<longrightarrow> ti_RunID ti = ''r1'' \<longrightarrow>
         IsTerminal (ti_Status ti)))"
proof -
  have "fmlookup (runs (snd a_queued)) ''r1'' \<noteq> None" by code_simp
  then obtain r where r: "fmlookup (runs (snd a_queued)) ''r1'' = Some r" by blast
  have "sys chain_plan (fst a_queued, snd a_queued)" using sys_examples(1) by simp
  from run_status_sound [OF this r] show ?thesis using r by blast
qed

lemma failure_blocks_run_witness:
  "\<exists>r. fmlookup (runs (snd (then_scheduled StatusFailed))) ''r1'' = Some r \<and> run_Status r = StatusRunning"
proof -
  let ?s = "snd (a_reported StatusFailed)"
  have "case fmlookup (taskInstances ?s) ''r1/a'' of
      Some ti \<Rightarrow> ti_Status ti = StatusFailed \<and> ti_TaskID ti = ''a'' \<and> ti_RunID ti = ''r1'' | None \<Rightarrow> False"
    by code_simp
  then obtain bad where bad: "fmlookup (taskInstances ?s) ''r1/a'' = Some bad" "ti_Status bad = StatusFailed"
      "ti_TaskID bad = ''a''" "ti_RunID bad = ''r1''"
    by (auto split: option.splits)
  have "case fmlookup (taskInstances ?s) ''r1/b'' of
      Some ti \<Rightarrow> ti_TaskID ti = ''b'' \<and> ti_RunID ti = ''r1'' | None \<Rightarrow> False" by code_simp
  then obtain ti where ti: "fmlookup (taskInstances ?s) ''r1/b'' = Some ti" "ti_TaskID ti = ''b''"
      "ti_RunID ti = ''r1''"
    by (auto split: option.splits)
  have "case fmlookup (runs ?s) ''r1'' of Some r \<Rightarrow> run_DAGID r = ''demo'' | None \<Rightarrow> False" by code_simp
  then obtain r where r: "fmlookup (runs ?s) ''r1'' = Some r" "run_DAGID r = ''demo''"
    by (auto split: option.splits)
  have "case fmlookup (Tasks chain) ''b'' of Some t \<Rightarrow> ''a'' \<in> set (Dependencies t) | None \<Rightarrow> False"
    by code_simp
  then obtain t where t: "fmlookup (Tasks chain) ''b'' = Some t" "''a'' \<in> set (Dependencies t)"
    by (auto split: option.splits)
  have "sys_step chain_plan (fst (a_reported StatusFailed), ?s) (then_scheduled StatusFailed)"
    unfolding then_scheduled_def prod.collapse by (rule step_schedule)
  then have steps: "(sys_step chain_plan)\<^sup>*\<^sup>* (fst (a_reported StatusFailed), ?s)
      (fst (then_scheduled StatusFailed), snd (then_scheduled StatusFailed))" by simp
  have "sys chain_plan (fst (a_reported StatusFailed), ?s)" using sys_examples(2) by simp
  from failure_blocks_run [OF this bad(1) _ _ ti(1) _ _ _ _ _ steps] show ?thesis
    using bad ti r t by (auto simp: chain_plan_def)
qed

end
