(* ===== verification/Format.thy ===== *)
theory Format
  imports Dag_Model
begin

text \<open>
  What the code uses of the packages \<^verbatim>\<open>fmt\<close>, \<^verbatim>\<open>strings\<close> and \<^verbatim>\<open>strconv\<close>: decimal numbers, quoting,
  the verbs of \<^verbatim>\<open>fmt.Errorf\<close> on the arguments an error carries, \<^verbatim>\<open>%v\<close> of a value of type
  \<^verbatim>\<open>any\<close>, \<^verbatim>\<open>strings.ReplaceAll\<close> and \<^verbatim>\<open>strings.Join\<close>. How \<^verbatim>\<open>%v\<close> writes a floating-point number is an argument,
  \<open>ff\<close>.
\<close>

section \<open>Numbers and quoting\<close>

definition digit :: "nat \<Rightarrow> char" where
  "digit n = char_of (48 + n)"

fun nat_dec :: "nat \<Rightarrow> string" where
  "nat_dec n = (if n < 10 then [digit n] else nat_dec (n div 10) @ [digit (n mod 10)])"

declare nat_dec.simps [simp del]

definition int_dec :: "int \<Rightarrow> string" where
  "int_dec n = (if n < 0 then CHR ''-'' # nat_dec (nat (- n)) else nat_dec (nat n))"

definition hex_digit :: "nat \<Rightarrow> char" where
  "hex_digit n = (if n < 10 then char_of (48 + n) else char_of (87 + n))"

text \<open>
  \<^verbatim>\<open>%q\<close>: quotes, backslashes and control characters are escaped. Bytes above 127 are kept, as
  they are for printable text in UTF-8.
\<close>

definition quote_char :: "char \<Rightarrow> string" where
  "quote_char c =
     (let n = of_char c :: nat in
      if n = 34 \<or> n = 92 then [char_of (92 :: nat), c]
      else if n = 7 then [char_of (92 :: nat), CHR ''a'']
      else if n = 8 then [char_of (92 :: nat), CHR ''b'']
      else if n = 9 then [char_of (92 :: nat), CHR ''t'']
      else if n = 10 then [char_of (92 :: nat), CHR ''n'']
      else if n = 11 then [char_of (92 :: nat), CHR ''v'']
      else if n = 12 then [char_of (92 :: nat), CHR ''f'']
      else if n = 13 then [char_of (92 :: nat), CHR ''r'']
      else if n < 32 \<or> n = 127
      then [char_of (92 :: nat), CHR ''x'', hex_digit (n div 16), hex_digit (n mod 16)]
      else [c])"

definition quote :: "string \<Rightarrow> string" where
  "quote s = char_of (34 :: nat) # concat (map quote_char s) @ [char_of (34 :: nat)]"

fun join :: "string \<Rightarrow> string list \<Rightarrow> string" where
  "join sep [] = []"
| "join sep [x] = x"
| "join sep (x # y # ys) = x @ sep @ join sep (y # ys)"

section \<open>Errors as text\<close>

text \<open>The verbs; every argument comes with its plain and its quoted form.\<close>

fun sprintf :: "string \<Rightarrow> (string \<times> string) list \<Rightarrow> string" where
  "sprintf [] as = []"
| "sprintf [c] as = (if c = CHR ''%'' then ''%!(NOVERB)'' else [c])"
| "sprintf (c # v # fs) as =
     (if c \<noteq> CHR ''%'' then c # sprintf (v # fs) as
      else case as of
             [] \<Rightarrow> ''%!'' @ [v] @ ''(MISSING)'' @ sprintf fs []
           | (plain, quoted) # as' \<Rightarrow> (if v = CHR ''q'' then quoted else plain) @ sprintf fs as')"

fun err_Error :: "err \<Rightarrow> string" and arg_text :: "farg \<Rightarrow> string \<times> string" where
  "err_Error (Err fmt as) = sprintf fmt (map arg_text as)"
| "arg_text (FStr s) = (s, quote s)"
| "arg_text (FInt n) = (int_dec n, int_dec n)"
| "arg_text (FErr e) = (err_Error e, quote (err_Error e))"
| "arg_text FNil = (''%!w(<nil>)'', ''%!q(<nil>)'')"
| "arg_text (FStrs xs) = (''['' @ join '' '' xs @ '']'', ''['' @ join '' '' (map quote xs) @ '']'')"
| "arg_text (FOpaque n) = ([], [])"

section \<open>Values as text\<close>

text \<open>A value of a map is smaller than the map.\<close>

lemma size_fmap_value:
  assumes "fmlookup m k = Some v" shows "f v < Suc (\<Sum>x \<in> fset (fset_of_fmap m). Suc (case x of (a, b) \<Rightarrow> f b))"
proof -
  have "(k, v) \<in> fset (fset_of_fmap m)" using assms by (simp add: fset_of_fmap.rep_eq set_of_map_def)
  then show ?thesis
    using member_le_sum [of "(k, v)" "fset (fset_of_fmap m)" "\<lambda>x. Suc (case x of (a, b) \<Rightarrow> f b)"]
    by simp
qed

text \<open>
  Lists and maps, with the keys of a map sorted; \<open>leaf\<close> writes the other values, as \<^verbatim>\<open>%v\<close> and
  \<^verbatim>\<open>%s\<close> do.
\<close>

function (sequential) sprint_with :: "(gval \<Rightarrow> string) \<Rightarrow> gval \<Rightarrow> string" where
  "sprint_with leaf (VList vs) = ''['' @ join '' '' (map (sprint_with leaf) vs) @ '']''"
| "sprint_with leaf (VMap m) =
     ''map['' @ join '' '' (map (\<lambda>k. k @ '':'' @
        (case fmlookup m k of None \<Rightarrow> [] | Some v \<Rightarrow> sprint_with leaf v)) (sorted_keys m)) @ '']''"
| "sprint_with leaf v = leaf v"
  by pat_completeness auto

termination
  by (relation "measure (\<lambda>(leaf, v). size v)")
     (auto simp: less_Suc_eq_le size_list_estimation' dest!: size_fmap_value [where f = size])

fun leaf_v :: "(f64 \<Rightarrow> string) \<Rightarrow> gval \<Rightarrow> string" where
  "leaf_v ff VNil = ''<nil>''"
| "leaf_v ff (VStr s) = s"
| "leaf_v ff (VInt n) = int_dec n"
| "leaf_v ff (VFloat x) = ff x"
| "leaf_v ff (VBool b) = (if b then ''true'' else ''false'')"
| "leaf_v ff v = []"

fun leaf_s :: "(f64 \<Rightarrow> string) \<Rightarrow> gval \<Rightarrow> string" where
  "leaf_s ff (VInt n) = ''%!s(int='' @ int_dec n @ '')''"
| "leaf_s ff (VFloat x) = ''%!s(float64='' @ ff x @ '')''"
| "leaf_s ff (VBool b) = ''%!s(bool='' @ leaf_v ff (VBool b) @ '')''"
| "leaf_s ff v = leaf_v ff v"

definition sprint_v :: "(f64 \<Rightarrow> string) \<Rightarrow> gval \<Rightarrow> string" where
  "sprint_v ff v = sprint_with (leaf_v ff) v"

definition sprint_s :: "(f64 \<Rightarrow> string) \<Rightarrow> gval \<Rightarrow> string" where
  "sprint_s ff v = (if v = VNil then ''%!s(<nil>)'' else sprint_with (leaf_s ff) v)"

lemma sprint_v_simps [simp]:
  "sprint_v ff (VStr s) = s" "sprint_s ff (VStr s) = s" "sprint_v ff (VInt n) = int_dec n"
  "sprint_v ff (VBool b) = (if b then ''true'' else ''false'')" "sprint_v ff VNil = ''<nil>''"
  "sprint_v ff (VFloat x) = ff x"
  by (simp_all add: sprint_v_def sprint_s_def)

section \<open>Replacing\<close>

text \<open>\<^verbatim>\<open>strings.ReplaceAll\<close> for a pattern that is not empty, from left to right without overlap.\<close>

function ReplaceAll :: "string \<Rightarrow> string \<Rightarrow> string \<Rightarrow> string" where
  "ReplaceAll s old new =
     (if s = [] \<or> old = [] then s
      else if take (length old) s = old then new @ ReplaceAll (drop (length old) s) old new
      else hd s # ReplaceAll (tl s) old new)"
  by pat_completeness auto
termination by (relation "measure (\<lambda>(s, old, new). length s)") auto

declare ReplaceAll.simps [simp del]

text \<open>\<^verbatim>\<open>fmt.Sprintf("{{%s}}", k)\<close> and the loop that substitutes the parameters, in visiting order \<open>ord\<close>.\<close>

definition placeholder :: "string \<Rightarrow> string" where
  "placeholder k = ''{{'' @ k @ ''}}''"

definition substitute :: "(f64 \<Rightarrow> string) \<Rightarrow> string list \<Rightarrow> (string, gval) fmap \<Rightarrow> string \<Rightarrow> string" where
  "substitute ff ord params s =
     fold (\<lambda>k s. case fmlookup params k of None \<Rightarrow> s
                 | Some v \<Rightarrow> ReplaceAll s (placeholder k) (sprint_v ff v)) ord s"

lemma substitute_none [simp]: "substitute ff ord fmempty s = s"
  by (induction ord) (simp_all add: substitute_def)

text \<open>\<^verbatim>\<open>strings.Contains\<close>, by the first index at which the pattern is found.\<close>

fun contains :: "string \<Rightarrow> string \<Rightarrow> bool" where
  "contains [] p = (p = [])"
| "contains (c # s) p = (take (length p) (c # s) = p \<or> contains s p)"

section \<open>JSON strings and query strings\<close>

text \<open>
  How \<^verbatim>\<open>encoding/json\<close> writes a string: quotes, backslashes, control characters and the three
  characters it escapes for HTML. Bytes above 127 are kept, as they are for valid UTF-8.
\<close>

definition json_char :: "char \<Rightarrow> string" where
  "json_char c =
     (let n = of_char c :: nat; bs = char_of (92 :: nat) in
      if n = 34 \<or> n = 92 then [bs, c]
      else if n = 8 then [bs, CHR ''b'']
      else if n = 9 then [bs, CHR ''t'']
      else if n = 10 then [bs, CHR ''n'']
      else if n = 12 then [bs, CHR ''f'']
      else if n = 13 then [bs, CHR ''r'']
      else if n < 32 \<or> n = 38 \<or> n = 60 \<or> n = 62
      then bs # ''u00'' @ [hex_digit (n div 16), hex_digit (n mod 16)]
      else [c])"

definition json_string :: "string \<Rightarrow> string" where
  "json_string s = char_of (34 :: nat) # concat (map json_char s) @ [char_of (34 :: nat)]"

text \<open>An object from its fields in the order they are written; maps are written in key order.\<close>

definition json_object :: "(string \<times> string) list \<Rightarrow> string" where
  "json_object fs = ''{'' @ join '','' (map (\<lambda>(k, v). json_string k @ '':'' @ v) fs) @ ''}''"

definition unreserved :: "char \<Rightarrow> bool" where
  "unreserved c =
     (let n = of_char c :: nat in
      48 \<le> n \<and> n \<le> 57 \<or> 65 \<le> n \<and> n \<le> 90 \<or> 97 \<le> n \<and> n \<le> 122 \<or>
      n = 45 \<or> n = 46 \<or> n = 95 \<or> n = 126)"

definition upper_hex :: "nat \<Rightarrow> char" where
  "upper_hex n = (if n < 10 then char_of (48 + n) else char_of (55 + n))"

text \<open>\<^verbatim>\<open>url.QueryEscape\<close>, and \<^verbatim>\<open>Encode\<close> of the values in key order.\<close>

definition query_char :: "char \<Rightarrow> string" where
  "query_char c =
     (let n = of_char c :: nat in
      if unreserved c then [c] else if n = 32 then ''+''
      else [CHR ''%'', upper_hex (n div 16), upper_hex (n mod 16)])"

definition query_escape :: "string \<Rightarrow> string" where
  "query_escape s = concat (map query_char s)"

definition query_string :: "(string, string) fmap \<Rightarrow> string" where
  "query_string m =
     join ''&'' (map (\<lambda>k. query_escape k @ ''='' @
       query_escape (case fmlookup m k of None \<Rightarrow> [] | Some v \<Rightarrow> v)) (sorted_keys m))"

end
