(* ===== verification/Executor.thy ===== *)
theory Executor
  imports Format
begin

text \<open>
  \<^verbatim>\<open>pkg/executor/executor.go\<close>: the result of an execution, the interface \<^verbatim>\<open>Executor\<close> as a record of
  operations over an arbitrary state, and the registry of executors; then the world that the
  built-in executors act on: processes, HTTP requests, the clock, the context of the call and
  the tables in which they track what is running.
\<close>

section \<open>Result and interface\<close>

record exec_result =
  res_Status :: status
  res_Output :: string
  res_Error :: "err option"
  res_StartTime :: time
  res_EndTime :: time
  res_Metrics :: "(string, f64) fmap"
  res_ExitCode :: int

text \<open>
  \<^verbatim>\<open>Execute\<close> returns a pointer and an error, each of which may be nil; it may panic on a value of
  the wrong type, or never return.
\<close>

type_synonym params = "(string, gval) fmap"

record 'x executor =
  ex_Type :: string
  ex_Validate :: "task \<Rightarrow> err option"
  ex_Execute :: "task \<Rightarrow> params \<Rightarrow> 'x \<Rightarrow> ((exec_result option \<times> err option) \<times> 'x) outcome"
  ex_Cancel :: "string \<Rightarrow> 'x \<Rightarrow> err option \<times> 'x"

section \<open>Registry\<close>

record 'x registry =
  executors :: "(string, 'x executor) fmap"

definition NewRegistry :: "'x registry" where
  "NewRegistry = \<lparr>executors = fmempty\<rparr>"

definition Register :: "'x executor \<Rightarrow> 'x registry \<Rightarrow> 'x registry" where
  "Register e r = r\<lparr>executors := fmupd (ex_Type e) e (executors r)\<rparr>"

definition Get :: "string \<Rightarrow> 'x registry \<Rightarrow> err + 'x executor" where
  "Get ty r =
     (case fmlookup (executors r) ty of
        None \<Rightarrow> Inl (Err ''executor type %q not registered'' [FStr ty])
      | Some e \<Rightarrow> Inr e)"

text \<open>\<open>ord\<close> is the order in which the map is visited.\<close>

definition Types :: "string list \<Rightarrow> 'x registry \<Rightarrow> string list" where
  "Types ord r = filter (\<lambda>t. t |\<in>| fmdom (executors r)) ord"

lemma Get_Register [go_simps]: "Get ty (Register e r) = (if ty = ex_Type e then Inr e else Get ty r)"
  by (simp add: Get_def Register_def)

lemma Get_iff: "Get ty r = Inr e \<longleftrightarrow> fmlookup (executors r) ty = Some e"
  by (simp add: Get_def split: option.splits)

section \<open>The world of the built-in executors\<close>

text \<open>
  A process as \<^verbatim>\<open>exec.Cmd\<close> describes it (the timeout stands for the deadline of its context) and
  what \<^verbatim>\<open>Run\<close> reports: the two outputs and the error, with the code if it is an \<^verbatim>\<open>ExitError\<close>.
\<close>

record command =
  cmd_Path :: string
  cmd_Args :: "string list"
  cmd_Dir :: string
  cmd_Env :: "string list"
  cmd_Timeout :: "duration option"

record proc_result =
  pr_stdout :: string
  pr_stderr :: string
  pr_err :: "(err \<times> int option) option"

record http_request =
  hr_method :: string
  hr_url :: string
  hr_headers :: "(string \<times> string) list"
  hr_body :: string

record http_response =
  rp_status :: int
  rp_body :: string
  rp_err :: "err option"

text \<open>
  \<open>'o\<close> is the state of everything outside. \<open>en_http\<close> is the HTTP client of an executor, with what reading
  the body to its end gives, \<open>en_url_ok\<close> whether \<^verbatim>\<open>http.NewRequest\<close> accepts the URL, \<open>en_done\<close> the error of the
  context of a task once it is done, \<open>en_order\<close> the order in which a map is visited.
\<close>

record 'o exec_env =
  en_now :: "'o \<Rightarrow> time"
  en_run :: "command \<Rightarrow> 'o \<Rightarrow> proc_result \<times> 'o"
  en_started :: "command \<Rightarrow> 'o \<Rightarrow> bool"
  en_kill :: "command \<Rightarrow> 'o \<Rightarrow> err option \<times> 'o"
  en_http :: "http_request \<Rightarrow> 'o \<Rightarrow> (err + http_response) \<times> 'o"
  en_url_ok :: "string \<Rightarrow> err option"
  en_done :: "task \<Rightarrow> 'o \<Rightarrow> err option"
  en_sleep :: "duration \<Rightarrow> 'o \<Rightarrow> 'o"
  en_order :: "params \<Rightarrow> string list"
  en_float :: "f64 \<Rightarrow> string"

text \<open>The tables of the executors, task ID to running command or container, and the outside.\<close>

record 'o machine =
  m_shell :: "(string, command) fmap"
  m_python :: "(string, command) fmap"
  m_spark :: "(string, command) fmap"
  m_docker :: "(string, string) fmap"
  m_os :: 'o

definition orders_maps :: "'o exec_env \<Rightarrow> bool" where
  "orders_maps en \<longleftrightarrow> (\<forall>m. ranges (en_order en m) m)"

section \<open>Shared pieces of code\<close>

text \<open>A type assertion \<^verbatim>\<open>v.(string)\<close> without the second result.\<close>

fun as_string :: "gval \<Rightarrow> string outcome" where
  "as_string (VStr s) = Ret s"
| "as_string v = Panic"

lemma as_string_Ret [simp]: "as_string v = Ret s \<longleftrightarrow> v = VStr s"
  by (cases v) auto

text \<open>\<^verbatim>\<open>if v, ok := task.Config[key]; ok { x = v.(string) }\<close>\<close>

definition string_or :: "string \<Rightarrow> task \<Rightarrow> string \<Rightarrow> string outcome" where
  "string_or key t x = (case fmlookup (Config t) key of None \<Rightarrow> Ret x | Some v \<Rightarrow> as_string v)"

text \<open>\<^verbatim>\<open>t.Sub(u)\<close> saturates; \<^verbatim>\<open>d.Milliseconds()\<close> rounds towards zero.\<close>

definition time_Sub :: "time \<Rightarrow> time \<Rightarrow> duration" where
  "time_Sub t u = max min_int64 (min max_int64 (t - u))"

definition Milliseconds :: "duration \<Rightarrow> int" where
  "Milliseconds d = (if d < 0 then - (- d div 1000000) else d div 1000000)"

definition duration_ms :: "time \<Rightarrow> time \<Rightarrow> f64" where
  "duration_ms start stop = f64_of_int (Milliseconds (time_Sub stop start))"

definition new_result :: "time \<Rightarrow> exec_result" where
  "new_result now =
     \<lparr>res_Status = StatusRunning, res_Output = [], res_Error = None, res_StartTime = now,
      res_EndTime = 0, res_Metrics = fmempty, res_ExitCode = 0\<rparr>"

text \<open>\<^verbatim>\<open>stdout\<close>, then a newline and \<^verbatim>\<open>stderr\<close> if there is any.\<close>

definition combined :: "proc_result \<Rightarrow> string" where
  "combined p = (if 0 < length (pr_stderr p) then pr_stdout p @ [char_of (10 :: nat)] @ pr_stderr p
                 else pr_stdout p)"

definition env_entries :: "'o exec_env \<Rightarrow> task \<Rightarrow> string list" where
  "env_entries en t =
     (case fmlookup (Config t) ''env'' of
        Some (VMap m) \<Rightarrow>
          List.map_filter (\<lambda>k. map_option (\<lambda>v. k @ ''='' @ sprint_v (en_float en) v) (fmlookup m k))
            (en_order en m)
      | _ \<Rightarrow> [])"

definition timeout_of :: "task \<Rightarrow> duration option" where
  "timeout_of t = (if 0 < Timeout t then Some (Timeout t) else None)"

text \<open>
  The end of \<^verbatim>\<open>Execute\<close> for an executor that starts a process: track the command, run it, forget it,
  and turn the outcome into a result. \<open>tab\<close> updates the executor's table.
\<close>

definition run_tracked ::
  "'o exec_env \<Rightarrow> (((string, command) fmap \<Rightarrow> (string, command) fmap) \<Rightarrow> 'o machine \<Rightarrow> 'o machine) \<Rightarrow>
     task \<Rightarrow> command \<Rightarrow> 'o machine \<Rightarrow> proc_result \<times> 'o machine" where
  "run_tracked en tab t cmd m =
     (let m = tab (fmupd (task_ID t) cmd) m;
          (p, os') = en_run en cmd (m_os m)
      in (p, tab (fmdrop (task_ID t)) (m\<lparr>m_os := os'\<rparr>)))"

definition process_result :: "'o exec_env \<Rightarrow> time \<Rightarrow> proc_result \<Rightarrow> 'o machine \<Rightarrow> exec_result" where
  "process_result en start p m =
     (let stop = en_now en (m_os m);
          r = (new_result start)\<lparr>res_EndTime := stop,
                 res_Metrics := fmupd ''duration_ms'' (duration_ms start stop) fmempty,
                 res_Output := combined p\<rparr>
      in case pr_err p of
           Some (e, code) \<Rightarrow>
             r\<lparr>res_Status := StatusFailed, res_Error := Some e,
               res_ExitCode := (case code of Some c \<Rightarrow> c | None \<Rightarrow> 0)\<rparr>
         | None \<Rightarrow> r\<lparr>res_Status := StatusSuccess, res_ExitCode := 0\<rparr>)"

end
