(* ===== verification/Exec_Process.thy ===== *)
theory Exec_Process
  imports Executor
begin

text \<open>
  The executors that start a process: \<^verbatim>\<open>pkg/executor/shell.go\<close>, \<^verbatim>\<open>python.go\<close> and the
  \<^verbatim>\<open>spark-submit\<close> mode of \<^verbatim>\<open>spark.go\<close>. Each validates the configuration of the task, builds a
  command (a value of the wrong type panics), tracks it in its table while it runs, and reports.
\<close>

section \<open>Shell\<close>

definition shell_Validate :: "task \<Rightarrow> err option" where
  "shell_Validate t =
     (case fmlookup (Config t) ''command'' of
        None \<Rightarrow> Some (Err ''shell executor requires 'command' in config'' [])
      | Some (VStr s) \<Rightarrow> None
      | Some v \<Rightarrow> Some (Err ''shell executor 'command' must be a string'' []))"

definition shell_command :: "'o exec_env \<Rightarrow> task \<Rightarrow> params \<Rightarrow> command outcome" where
  "shell_command en t params =
     bind_outcome (string_or ''command'' t []) (\<lambda>cmd.
       let cmd = substitute (en_float en) (en_order en params) params cmd in
       bind_outcome (string_or ''shell'' t ''/bin/sh'') (\<lambda>shell.
       bind_outcome (string_or ''working_dir'' t []) (\<lambda>dir.
       Ret \<lparr>cmd_Path = shell, cmd_Args = [''-c'', cmd], cmd_Dir = dir, cmd_Env = env_entries en t,
            cmd_Timeout = timeout_of t\<rparr>)))"

definition shell_Execute ::
  "'o exec_env \<Rightarrow> task \<Rightarrow> params \<Rightarrow> 'o machine \<Rightarrow>
     ((exec_result option \<times> err option) \<times> 'o machine) outcome" where
  "shell_Execute en t params m =
     (case shell_Validate t of
        Some e \<Rightarrow> Ret ((None, Some e), m)
      | None \<Rightarrow>
          (let start = en_now en (m_os m) in
           bind_outcome (shell_command en t params) (\<lambda>cmd.
             let (p, m) = run_tracked en m_shell_update t cmd m
             in Ret ((Some (process_result en start p m), None), m))))"

definition kill_tracked ::
  "'o exec_env \<Rightarrow> command \<Rightarrow> 'o machine \<Rightarrow> err option \<times> 'o machine" where
  "kill_tracked en cmd m =
     (if en_started en cmd (m_os m)
      then let (e, os') = en_kill en cmd (m_os m) in (e, m\<lparr>m_os := os'\<rparr>)
      else (None, m))"

definition shell_Cancel :: "'o exec_env \<Rightarrow> string \<Rightarrow> 'o machine \<Rightarrow> err option \<times> 'o machine" where
  "shell_Cancel en i m =
     (case fmlookup (m_shell m) i of
        None \<Rightarrow> (Some (Err ''no running command for task %s'' [FStr i]), m)
      | Some cmd \<Rightarrow> kill_tracked en cmd m)"

definition ShellExecutor :: "'o exec_env \<Rightarrow> 'o machine executor" where
  "ShellExecutor en =
     \<lparr>ex_Type = ''shell'', ex_Validate = shell_Validate, ex_Execute = shell_Execute en,
      ex_Cancel = shell_Cancel en\<rparr>"

section \<open>Python\<close>

record python_config =
  PythonPath :: string
  VenvPath :: string

definition NewPythonExecutor :: "python_config \<Rightarrow> python_config" where
  "NewPythonExecutor cfg = (if PythonPath cfg = [] then cfg\<lparr>PythonPath := ''python3''\<rparr> else cfg)"

definition python_Validate :: "task \<Rightarrow> err option" where
  "python_Validate t =
     (if fmlookup (Config t) ''script'' = None \<and> fmlookup (Config t) ''code'' = None
      then Some (Err ''python executor requires 'script' or 'code' in config'' []) else None)"

text \<open>The path of the interpreter: of the task, or of the executor; a virtualenv overrides both.\<close>

definition python_path :: "python_config \<Rightarrow> task \<Rightarrow> string outcome" where
  "python_path cfg t =
     bind_outcome (string_or ''python_path'' t (PythonPath cfg)) (\<lambda>p.
       Ret (if VenvPath cfg \<noteq> [] then VenvPath cfg @ ''/bin/python'' else p))"

definition list_args :: "'o exec_env \<Rightarrow> task \<Rightarrow> string \<Rightarrow> string list" where
  "list_args en t key =
     (case fmlookup (Config t) key of
        Some (VList vs) \<Rightarrow> map (sprint_v (en_float en)) vs
      | _ \<Rightarrow> [])"

definition python_args :: "'o exec_env \<Rightarrow> task \<Rightarrow> params \<Rightarrow> string list outcome" where
  "python_args en t params =
     (case fmlookup (Config t) ''script'' of
        Some script \<Rightarrow> bind_outcome (as_string script) (\<lambda>s. Ret (s # list_args en t ''args''))
      | None \<Rightarrow>
          bind_outcome (string_or ''code'' t []) (\<lambda>code.
            Ret [''-c'', substitute (en_float en) (en_order en params) params code]))"

definition python_env :: "'o exec_env \<Rightarrow> task \<Rightarrow> string list" where
  "python_env en t =
     env_entries en t @
       (case fmlookup (Config t) ''pythonpath'' of
          None \<Rightarrow> []
        | Some v \<Rightarrow> [''PYTHONPATH='' @ sprint_s (en_float en) v])"

definition python_command ::
  "'o exec_env \<Rightarrow> python_config \<Rightarrow> task \<Rightarrow> params \<Rightarrow> command outcome" where
  "python_command en cfg t params =
     bind_outcome (python_path cfg t) (\<lambda>path.
     bind_outcome (python_args en t params) (\<lambda>args.
     bind_outcome (string_or ''working_dir'' t []) (\<lambda>dir.
     Ret \<lparr>cmd_Path = path, cmd_Args = args, cmd_Dir = dir, cmd_Env = python_env en t,
          cmd_Timeout = timeout_of t\<rparr>)))"

definition python_Execute ::
  "'o exec_env \<Rightarrow> python_config \<Rightarrow> task \<Rightarrow> params \<Rightarrow> 'o machine \<Rightarrow>
     ((exec_result option \<times> err option) \<times> 'o machine) outcome" where
  "python_Execute en cfg t params m =
     (case python_Validate t of
        Some e \<Rightarrow> Ret ((None, Some e), m)
      | None \<Rightarrow>
          (let start = en_now en (m_os m) in
           bind_outcome (python_command en cfg t params) (\<lambda>cmd.
             let (p, m) = run_tracked en m_python_update t cmd m
             in Ret ((Some (process_result en start p m), None), m))))"

definition python_Cancel :: "'o exec_env \<Rightarrow> string \<Rightarrow> 'o machine \<Rightarrow> err option \<times> 'o machine" where
  "python_Cancel en i m =
     (case fmlookup (m_python m) i of
        None \<Rightarrow> (Some (Err ''no running command for task %s'' [FStr i]), m)
      | Some cmd \<Rightarrow> kill_tracked en cmd m)"

definition PythonExecutor :: "'o exec_env \<Rightarrow> python_config \<Rightarrow> 'o machine executor" where
  "PythonExecutor en cfg =
     \<lparr>ex_Type = ''python'', ex_Validate = python_Validate,
      ex_Execute = python_Execute en (NewPythonExecutor cfg), ex_Cancel = python_Cancel en\<rparr>"

section \<open>Spark submit\<close>

record spark_config =
  SparkHome :: string
  SparkSubmit :: string
  Master :: string
  ConnectHost :: string
  ConnectPort :: int
  SparkUIURL :: string

definition NewSparkExecutor :: "spark_config \<Rightarrow> spark_config" where
  "NewSparkExecutor cfg =
     (let cfg = (if SparkSubmit cfg = []
                 then if SparkHome cfg \<noteq> [] then cfg\<lparr>SparkSubmit := SparkHome cfg @ ''/bin/spark-submit''\<rparr>
                      else cfg\<lparr>SparkSubmit := ''spark-submit''\<rparr>
                 else cfg);
          cfg = (if Master cfg = [] then cfg\<lparr>Master := ''local[*]''\<rparr> else cfg)
      in if ConnectPort cfg = 0 then cfg\<lparr>ConnectPort := 15002\<rparr> else cfg)"

definition spark_Validate :: "task \<Rightarrow> err option" where
  "spark_Validate t =
     (if fmlookup (Config t) ''application'' = None \<and> fmlookup (Config t) ''class'' = None \<and>
         fmlookup (Config t) ''code'' = None
      then Some (Err ''spark executor requires 'application', 'class', or 'code' in config'' [])
      else None)"

text \<open>
  The arguments of \<^verbatim>\<open>spark-submit\<close>: flags whose value must be a string, flags whose value is
  printed, flags whose value is a list joined with commas, the Spark settings (in the order in
  which the map is visited), the application and its arguments.
\<close>

definition string_flag :: "string \<Rightarrow> string \<Rightarrow> task \<Rightarrow> string list outcome" where
  "string_flag flag key t =
     (case fmlookup (Config t) key of
        None \<Rightarrow> Ret []
      | Some v \<Rightarrow> bind_outcome (as_string v) (\<lambda>s. Ret [flag, s]))"

definition value_flag :: "'o exec_env \<Rightarrow> string \<Rightarrow> string \<Rightarrow> task \<Rightarrow> string list" where
  "value_flag en flag key t =
     (case fmlookup (Config t) key of
        None \<Rightarrow> []
      | Some v \<Rightarrow> [flag, sprint_v (en_float en) v])"

definition list_flag :: "'o exec_env \<Rightarrow> string \<Rightarrow> string \<Rightarrow> task \<Rightarrow> string list" where
  "list_flag en flag key t =
     (case fmlookup (Config t) key of
        Some (VList vs) \<Rightarrow> [flag, join '','' (map (sprint_v (en_float en)) vs)]
      | _ \<Rightarrow> [])"

definition conf_flags :: "'o exec_env \<Rightarrow> task \<Rightarrow> string list" where
  "conf_flags en t =
     (case fmlookup (Config t) ''spark_conf'' of
        Some (VMap m) \<Rightarrow>
          concat (map (\<lambda>k. case fmlookup m k of None \<Rightarrow> []
                          | Some v \<Rightarrow> [''--conf'', k @ ''='' @ sprint_v (en_float en) v]) (en_order en m))
      | _ \<Rightarrow> [])"

definition app_args :: "'o exec_env \<Rightarrow> task \<Rightarrow> params \<Rightarrow> string list" where
  "app_args en t params =
     map (substitute (en_float en) (en_order en params) params) (list_args en t ''app_args'')"

definition buildSubmitArgs ::
  "'o exec_env \<Rightarrow> spark_config \<Rightarrow> task \<Rightarrow> params \<Rightarrow> string list outcome" where
  "buildSubmitArgs en cfg t params =
     bind_outcome (string_or ''master'' t (Master cfg)) (\<lambda>master.
     bind_outcome (string_flag ''--deploy-mode'' ''deploy_mode'' t) (\<lambda>mode.
     bind_outcome (string_flag ''--class'' ''class'' t) (\<lambda>cls.
     bind_outcome (string_flag ''--driver-memory'' ''driver_memory'' t) (\<lambda>dmem.
     bind_outcome (string_flag ''--executor-memory'' ''executor_memory'' t) (\<lambda>emem.
     bind_outcome (string_or ''application'' t []) (\<lambda>app.
     Ret ([''--master'', master] @ mode @
       [''--name'', if task_Name t = [] then task_ID t else task_Name t] @ cls @ dmem @ emem @
       value_flag en ''--executor-cores'' ''executor_cores'' t @
       value_flag en ''--num-executors'' ''num_executors'' t @
       list_flag en ''--packages'' ''packages'' t @ list_flag en ''--jars'' ''jars'' t @
       conf_flags en t @
       (if fmlookup (Config t) ''application'' = None then [] else [app]) @
       app_args en t params)))))))"

text \<open>The metric that tells whether the output names an application.\<close>

definition note_app_id :: "exec_result \<Rightarrow> exec_result" where
  "note_app_id r =
     (if contains (res_Output r) ''application_''
      then r\<lparr>res_Metrics := fmupd ''spark_app_id_found'' (Fin 1) (res_Metrics r)\<rparr> else r)"

definition executeSubmit ::
  "'o exec_env \<Rightarrow> spark_config \<Rightarrow> task \<Rightarrow> params \<Rightarrow> 'o machine \<Rightarrow>
     ((exec_result option \<times> err option) \<times> 'o machine) outcome" where
  "executeSubmit en cfg t params m =
     (let start = en_now en (m_os m) in
      bind_outcome (buildSubmitArgs en cfg t params) (\<lambda>args.
        let cmd = \<lparr>cmd_Path = SparkSubmit cfg, cmd_Args = args, cmd_Dir = [],
                   cmd_Env = (if SparkHome cfg \<noteq> [] then [''SPARK_HOME='' @ SparkHome cfg] else []),
                   cmd_Timeout = timeout_of t\<rparr>;
            (p, m) = run_tracked en m_spark_update t cmd m
        in Ret ((Some (note_app_id (process_result en start p m)), None), m)))"

definition spark_Cancel :: "'o exec_env \<Rightarrow> string \<Rightarrow> 'o machine \<Rightarrow> err option \<times> 'o machine" where
  "spark_Cancel en i m =
     (case fmlookup (m_spark m) i of
        Some cmd \<Rightarrow>
          if en_started en cmd (m_os m) then kill_tracked en cmd m
          else (Some (Err ''no running spark job for task %s'' [FStr i]), m)
      | None \<Rightarrow> (Some (Err ''no running spark job for task %s'' [FStr i]), m))"

end
