(* ===== verification/Exec_Http.thy ===== *)
theory Exec_Http
  imports Exec_Process
begin

text \<open>
  What the executors that speak HTTP share, and the Spark Connect mode of \<^verbatim>\<open>pkg/executor/spark.go\<close>.
  A request is built as the code builds it and given to the client of the environment.
\<close>

section \<open>Requests\<close>

text \<open>\<^verbatim>\<open>http.NewRequestWithContext\<close> and \<^verbatim>\<open>client.Do\<close>; the two errors are wrapped by the callers.\<close>

datatype http_outcome = NoRequest err | NoResponse err | Response http_response

definition do_http :: "'o exec_env \<Rightarrow> http_request \<Rightarrow> 'o \<Rightarrow> http_outcome \<times> 'o" where
  "do_http en req os =
     (case en_url_ok en (hr_url req) of
        Some e \<Rightarrow> (NoRequest e, os)
      | None \<Rightarrow>
          (case en_http en req os of
             (Inl e, os') \<Rightarrow> (NoResponse e, os')
           | (Inr resp, os') \<Rightarrow> (Response resp, os')))"

definition content_json :: "(string \<times> string) list" where
  "content_json = [(''Content-Type'', ''application/json'')]"

section \<open>Spark Connect\<close>

definition connect_request :: "spark_config \<Rightarrow> task \<Rightarrow> string \<Rightarrow> http_request" where
  "connect_request cfg t code =
     \<lparr>hr_method = ''POST'',
      hr_url = ''http://'' @ (if ConnectHost cfg = [] then ''localhost'' else ConnectHost cfg) @ '':'' @
        int_dec (ConnectPort cfg) @ ''/api/v1/execute'',
      hr_headers = content_json,
      hr_body = json_object [(''code'', json_string code),
                             (''session'', json_string (''sparkflow-'' @ task_ID t))]\<rparr>"

definition executeConnect ::
  "'o exec_env \<Rightarrow> spark_config \<Rightarrow> task \<Rightarrow> params \<Rightarrow> 'o machine \<Rightarrow>
     (exec_result option \<times> err option) \<times> 'o machine" where
  "executeConnect en cfg t params m =
     (let start = en_now en (m_os m) in
      case fmlookup (Config t) ''code'' of
        Some (VStr code) \<Rightarrow>
          let code = substitute (en_float en) (en_order en params) params code;
              (h, os') = do_http en (connect_request cfg t code) (m_os m);
              m = m\<lparr>m_os := os'\<rparr>;
              r = new_result start;
              stop = en_now en (m_os m)
          in (case h of
                NoRequest e \<Rightarrow> (None, Some (Err ''create spark connect request: %w'' [FErr e]))
              | NoResponse e \<Rightarrow>
                  (Some (r\<lparr>res_Status := StatusFailed,
                      res_Error := Some (Err ''spark connect request failed: %w'' [FErr e]),
                      res_EndTime := stop\<rparr>), None)
              | Response resp \<Rightarrow>
                  (let r = r\<lparr>res_Output := rp_body resp, res_EndTime := stop,
                        res_Metrics := fmupd ''duration_ms'' (duration_ms start stop) fmempty\<rparr>
                   in if 400 \<le> rp_status resp
                      then (Some (r\<lparr>res_Status := StatusFailed,
                              res_Error := Some (Err ''spark connect returned status %d''
                                                    [FInt (rp_status resp)])\<rparr>), None)
                      else (Some (r\<lparr>res_Status := StatusSuccess\<rparr>), None)), m)
      | _ \<Rightarrow> ((None, Some (Err ''spark connect mode requires 'code' in config'' [])), m))"

definition spark_Execute ::
  "'o exec_env \<Rightarrow> spark_config \<Rightarrow> task \<Rightarrow> params \<Rightarrow> 'o machine \<Rightarrow>
     ((exec_result option \<times> err option) \<times> 'o machine) outcome" where
  "spark_Execute en cfg t params m =
     (case spark_Validate t of
        Some e \<Rightarrow> Ret ((None, Some e), m)
      | None \<Rightarrow>
          bind_outcome (string_or ''mode'' t ''submit'') (\<lambda>mode.
            if mode = ''submit'' then executeSubmit en cfg t params m
            else if mode = ''connect'' then Ret (executeConnect en cfg t params m)
            else Ret ((None, Some (Err ''unknown spark execution mode: %s'' [FStr mode])), m)))"

definition SparkExecutor :: "'o exec_env \<Rightarrow> spark_config \<Rightarrow> 'o machine executor" where
  "SparkExecutor en cfg =
     \<lparr>ex_Type = ''spark'', ex_Validate = spark_Validate,
      ex_Execute = spark_Execute en (NewSparkExecutor cfg), ex_Cancel = spark_Cancel en\<rparr>"

end
