(* ===== verification/Duration.thy ===== *)
theory Duration
  imports Format
begin

text \<open>
  \<^verbatim>\<open>time.ParseDuration\<close> as the parser of the DAG files and the poll interval of the Hadoop executor
  use it: an optional sign, then numbers with an optional fraction, each with a unit, summed up in
  64 bits. Numbers that do not fit are refused.
\<close>

section \<open>Digits\<close>

definition is_digit :: "char \<Rightarrow> bool" where
  "is_digit c \<longleftrightarrow> 48 \<le> (of_char c :: nat) \<and> (of_char c :: nat) \<le> 57"

definition digit_val :: "char \<Rightarrow> int" where
  "digit_val c = int (of_char c) - 48"

text \<open>The integer before the point, or \<open>None\<close> on overflow, and the rest of the input.\<close>

fun leadingInt :: "int \<Rightarrow> string \<Rightarrow> (int \<times> string) option" where
  "leadingInt x [] = Some (x, [])"
| "leadingInt x (c # s) =
     (if \<not> is_digit c then Some (x, c # s)
      else if 2 ^ 63 div 10 < x then None
      else if 2 ^ 63 < x * 10 + digit_val c then None
      else leadingInt (x * 10 + digit_val c) s)"

text \<open>The digits after the point, the power of ten to divide by, and the rest.\<close>

fun leadingFraction :: "int \<Rightarrow> f64 \<Rightarrow> bool \<Rightarrow> string \<Rightarrow> int \<times> f64 \<times> string" where
  "leadingFraction x scale overflow [] = (x, scale, [])"
| "leadingFraction x scale overflow (c # s) =
     (if \<not> is_digit c then (x, scale, c # s)
      else if overflow \<or> (2 ^ 63 - 1) div 10 < x \<or> 2 ^ 63 < x * 10 + digit_val c
      then leadingFraction x scale True s
      else leadingFraction (x * 10 + digit_val c) (f64_mul scale (Fin 10)) False s)"

lemma leadingInt_shorter: "leadingInt x s = Some (v, r) \<Longrightarrow> length r \<le> length s"
  by (induction x s rule: leadingInt.induct) (auto split: if_splits)

lemma leadingFraction_shorter:
  "leadingFraction x scale ov s = (f, scale', r) \<Longrightarrow> length r \<le> length s"
  by (induction x scale ov s rule: leadingFraction.induct) (auto split: if_splits)

section \<open>Units\<close>

definition unit_map :: "(string \<times> int) list" where
  "unit_map =
     [(''ns'', 1), (''us'', 1000), ([char_of (194 :: nat), char_of (181 :: nat), CHR ''s''], 1000),
      ([char_of (206 :: nat), char_of (188 :: nat), CHR ''s''], 1000), (''ms'', 1000000),
      (''s'', 1000000000), (''m'', 60000000000), (''h'', 3600000000000)]"

definition is_unit_char :: "char \<Rightarrow> bool" where
  "is_unit_char c \<longleftrightarrow> c \<noteq> CHR ''.'' \<and> \<not> is_digit c"

definition f64_div_pos :: "f64 \<Rightarrow> f64 \<Rightarrow> f64" where
  "f64_div_pos a b = (case (a, b) of (Fin x, Fin y) \<Rightarrow> fl (x / y) | _ \<Rightarrow> NaN)"

text \<open>\<^verbatim>\<open>uint64(float64(f) * (float64(unit) / scale))\<close>; the product is below \<open>3.6e12\<close>.\<close>

definition fraction_ns :: "int \<Rightarrow> int \<Rightarrow> f64 \<Rightarrow> int" where
  "fraction_ns f unit scale =
     (case f64_mul (f64_of_int f) (f64_div_pos (f64_of_int unit) scale) of
        Fin q \<Rightarrow> trunc_rat q | _ \<Rightarrow> 0)"

section \<open>ParseDuration\<close>

definition bad_duration :: "string \<Rightarrow> err" where
  "bad_duration orig = Err ''time: invalid duration %q'' [FStr orig]"

text \<open>One number with its unit: its nanoseconds and the rest of the input.\<close>

definition parse_item :: "string \<Rightarrow> string \<Rightarrow> err + int \<times> string" where
  "parse_item orig s =
     (if s = [] \<or> \<not> (hd s = CHR ''.'' \<or> is_digit (hd s)) then Inl (bad_duration orig)
      else case leadingInt 0 s of
        None \<Rightarrow> Inl (bad_duration orig)
      | Some (v, s1) \<Rightarrow>
          let pre = (length s \<noteq> length s1);
              (f, scale, s2) = (if s1 \<noteq> [] \<and> hd s1 = CHR ''.'' then leadingFraction 0 (Fin 1) False (tl s1)
                                else (0, Fin 1, s1));
              post = (s1 \<noteq> [] \<and> hd s1 = CHR ''.'' \<and> length (tl s1) \<noteq> length s2);
              u = takeWhile is_unit_char s2;
              rest = dropWhile is_unit_char s2
          in if \<not> pre \<and> \<not> post then Inl (bad_duration orig)
             else if u = [] then Inl (Err ''time: missing unit in duration %q'' [FStr orig])
             else case map_of unit_map u of
               None \<Rightarrow> Inl (Err ''time: unknown unit %q in duration %q'' [FStr u, FStr orig])
             | Some unit \<Rightarrow>
                 if 2 ^ 63 div unit < v then Inl (bad_duration orig)
                 else
                   let v = (if 0 < f then v * unit + fraction_ns f unit scale else v * unit)
                   in if 0 < f \<and> 2 ^ 63 < v then Inl (bad_duration orig) else Inr (v, rest))"

lemma dropWhile_shorter: "takeWhile P xs \<noteq> [] \<Longrightarrow> length (dropWhile P xs) < length xs"
  by (metis add_less_cancel_right length_append length_greater_0_conv less_add_same_cancel2
      takeWhile_dropWhile_id)

lemma parse_item_shorter: "parse_item orig s = Inr (v, r) \<Longrightarrow> length r < length s"
  unfolding parse_item_def Let_def
  by (auto split: if_splits option.splits prod.splits dest!: leadingInt_shorter leadingFraction_shorter
        dropWhile_shorter)

function parse_items :: "string \<Rightarrow> int \<Rightarrow> string \<Rightarrow> err + int" where
  "parse_items orig d s =
     (if s = [] then Inr d
      else case parse_item orig s of
             Inl e \<Rightarrow> Inl e
           | Inr (v, r) \<Rightarrow>
               if 2 ^ 63 < d + v then Inl (bad_duration orig) else parse_items orig (d + v) r)"
  by pat_completeness auto
termination
  by (relation "measure (\<lambda>(orig, d, s). length s)") (auto dest: parse_item_shorter)

declare parse_items.simps [simp del]

definition ParseDuration :: "string \<Rightarrow> err + duration" where
  "ParseDuration orig =
     (let signed = (orig \<noteq> [] \<and> (hd orig = CHR ''-'' \<or> hd orig = CHR ''+''));
          neg = (orig \<noteq> [] \<and> hd orig = CHR ''-'');
          s = (if signed then tl orig else orig)
      in if s = ''0'' then Inr 0
         else if s = [] then Inl (bad_duration orig)
         else case parse_items orig 0 s of
                Inl e \<Rightarrow> Inl e
              | Inr d \<Rightarrow> if neg then Inr (- d)
                         else if max_int64 < d then Inl (bad_duration orig) else Inr d)"

end
