(* ===== verification/Exec_Hadoop.thy ===== *)
theory Exec_Hadoop
  imports Exec_Http Duration
begin

text \<open>
  \<^verbatim>\<open>pkg/executor/hadoop.go\<close>: an application is created at the YARN resource manager, submitted and
  polled until it has ended. How the body of an answer is decoded from JSON is the argument \<open>js\<close>.
\<close>

section \<open>YARN\<close>

record hadoop_config =
  ResourceManagerURL :: string
  TimelineServerURL :: string
  hadoop_User :: string

definition NewHadoopExecutor :: "hadoop_config \<Rightarrow> hadoop_config" where
  "NewHadoopExecutor cfg =
     (let cfg = (if ResourceManagerURL cfg = [] then cfg\<lparr>ResourceManagerURL := ''http://localhost:8088''\<rparr>
                 else cfg)
      in if hadoop_User cfg = [] then cfg\<lparr>hadoop_User := ''sparkflow''\<rparr> else cfg)"

definition hadoop_Validate :: "task \<Rightarrow> err option" where
  "hadoop_Validate t =
     (if fmlookup (Config t) ''jar'' = None
      then Some (Err ''hadoop executor requires 'jar' in config'' [])
      else if fmlookup (Config t) ''class'' = None
      then Some (Err ''hadoop executor requires 'class' in config'' [])
      else None)"

record yarn_status =
  ya_ID :: string
  ya_State :: string
  ya_FinalStatus :: string
  ya_Progress :: f64
  ya_TrackingURL :: string
  ya_StartedTime :: int
  ya_FinishedTime :: int
  ya_ElapsedTime :: int
  ya_Diagnostics :: string

text \<open>\<^verbatim>\<open>encoding/json\<close> of the body of an answer into the types of this file and into an object,
  and \<^verbatim>\<open>MarshalIndent\<close> of an object.\<close>

record json_codec =
  js_application :: "http_response \<Rightarrow> err + string"
  js_status :: "http_response \<Rightarrow> err + yarn_status"
  js_object :: "http_response \<Rightarrow> err + (string, gval) fmap"
  js_indent :: "(string, gval) fmap \<Rightarrow> err + string"

text \<open>\<open>createApplication\<close>: the ID of a new application.\<close>

definition createApplication ::
  "'o exec_env \<Rightarrow> json_codec \<Rightarrow> hadoop_config \<Rightarrow> 'o \<Rightarrow> (err + string) \<times> 'o" where
  "createApplication en js cfg os =
     (let url = ResourceManagerURL cfg @ ''/ws/v1/cluster/apps/new-application'';
          (h, os) = do_http en \<lparr>hr_method = ''POST'', hr_url = url, hr_headers = [], hr_body = []\<rparr> os
      in (case h of
            NoRequest e \<Rightarrow> Inl e
          | NoResponse e \<Rightarrow> Inl e
          | Response resp \<Rightarrow>
              if rp_status resp \<noteq> 200
              then Inl (Err ''YARN returned status %d: %s'' [FInt (rp_status resp), FStr (rp_body resp)])
              else (case js_application js resp of
                      Inl e \<Rightarrow> Inl (Err ''decode YARN response: %w'' [FErr e])
                    | Inr i \<Rightarrow> Inr i), os))"

text \<open>The command line of the application, and an \<^verbatim>\<open>int\<close> setting.\<close>

definition hadoop_command :: "'o exec_env \<Rightarrow> task \<Rightarrow> params \<Rightarrow> string outcome" where
  "hadoop_command en t params =
     bind_outcome (string_or ''jar'' t []) (\<lambda>jar.
     bind_outcome (string_or ''class'' t []) (\<lambda>cls.
     Ret (join '' '' ([''$HADOOP_HOME/bin/hadoop'', ''jar'', jar, cls] @
       map (substitute (en_float en) (en_order en params) params) (list_args en t ''args'')))))"

definition int_setting :: "task \<Rightarrow> string \<Rightarrow> int \<Rightarrow> int" where
  "int_setting t key x = (case fmlookup (Config t) key of Some (VInt n) \<Rightarrow> n | _ \<Rightarrow> x)"

text \<open>The payload, with the keys of its maps in the order in which they are written.\<close>

definition submit_payload :: "string \<Rightarrow> task \<Rightarrow> string \<Rightarrow> string" where
  "submit_payload appID t cmd =
     json_object
       [(''am-container-spec'', json_object [(''commands'', json_object [(''command'', json_string cmd)])]),
        (''application-id'', json_string appID),
        (''application-name'', json_string
           (if task_Name t = [] then ''sparkflow-'' @ task_ID t else task_Name t)),
        (''application-type'', json_string ''MAPREDUCE''),
        (''resource'', json_object
           [(''memory'', int_dec (int_setting t ''memory_mb'' 1024)),
            (''vCores'', int_dec (int_setting t ''vcores'' 1))])]"

definition submitApplication ::
  "'o exec_env \<Rightarrow> hadoop_config \<Rightarrow> string \<Rightarrow> task \<Rightarrow> params \<Rightarrow> 'o \<Rightarrow> (err option \<times> 'o) outcome" where
  "submitApplication en cfg appID t params os =
     bind_outcome (hadoop_command en t params) (\<lambda>cmd.
       let (h, os) = do_http en \<lparr>hr_method = ''POST'',
             hr_url = ResourceManagerURL cfg @ ''/ws/v1/cluster/apps'', hr_headers = content_json,
             hr_body = submit_payload appID t cmd\<rparr> os
       in Ret (case h of
            NoRequest e \<Rightarrow> Some e
          | NoResponse e \<Rightarrow> Some e
          | Response resp \<Rightarrow>
              if rp_status resp \<noteq> 202 \<and> rp_status resp \<noteq> 200
              then Some (Err ''YARN submit returned status %d: %s''
                           [FInt (rp_status resp), FStr (rp_body resp)])
              else None, os))"

definition getApplicationStatus ::
  "'o exec_env \<Rightarrow> json_codec \<Rightarrow> hadoop_config \<Rightarrow> string \<Rightarrow> 'o \<Rightarrow> (err + yarn_status) \<times> 'o" where
  "getApplicationStatus en js cfg appID os =
     (let url = ResourceManagerURL cfg @ ''/ws/v1/cluster/apps/'' @ appID;
          (h, os) = do_http en \<lparr>hr_method = ''GET'', hr_url = url,
             hr_headers = [(''Accept'', ''application/json'')], hr_body = []\<rparr> os
      in (case h of
            NoRequest e \<Rightarrow> Inl e
          | NoResponse e \<Rightarrow> Inl e
          | Response resp \<Rightarrow>
              if rp_status resp \<noteq> 200
              then Inl (Err ''YARN status returned %d: %s'' [FInt (rp_status resp), FStr (rp_body resp)])
              else (case js_status js resp of
                      Inl e \<Rightarrow> Inl (Err ''decode YARN status: %w'' [FErr e])
                    | Inr st \<Rightarrow> Inr st), os))"

definition poll_interval :: "task \<Rightarrow> duration" where
  "poll_interval t =
     (case fmlookup (Config t) ''poll_interval'' of
        Some (VStr s) \<Rightarrow> (case ParseDuration s of Inr d \<Rightarrow> d | Inl e \<Rightarrow> 5 * 1000000000)
      | _ \<Rightarrow> 5 * 1000000000)"

definition fail_result :: "exec_result \<Rightarrow> err \<Rightarrow> time \<Rightarrow> exec_result" where
  "fail_result r e stop = r\<lparr>res_Status := StatusFailed, res_Error := Some e, res_EndTime := stop\<rparr>"

definition set_metric :: "string \<Rightarrow> f64 \<Rightarrow> exec_result \<Rightarrow> exec_result" where
  "set_metric k x r = r\<lparr>res_Metrics := fmupd k x (res_Metrics r)\<rparr>"

text \<open>The three states in which an application has ended; \<open>None\<close> is any other.\<close>

definition yarn_outcome :: "string \<Rightarrow> yarn_status \<Rightarrow> time \<Rightarrow> exec_result \<Rightarrow> exec_result option" where
  "yarn_outcome appID st stop r =
     (if ya_State st = ''FINISHED''
      then
        let r = r\<lparr>res_EndTime := stop\<rparr>;
            r = set_metric ''duration_ms'' (duration_ms (res_StartTime r) stop) r;
            r = set_metric ''elapsed_time_ms'' (f64_of_int (ya_ElapsedTime st)) r
        in Some (if ya_FinalStatus st = ''SUCCEEDED''
             then r\<lparr>res_Status := StatusSuccess,
                    res_Output := ''Application '' @ appID @ '' completed successfully'' @
                      [char_of (10 :: nat)] @ ''Tracking URL: '' @ ya_TrackingURL st\<rparr>
             else r\<lparr>res_Status := StatusFailed,
                    res_Error := Some (Err (''YARN application %s ended with status: %s'' @
                        [char_of (10 :: nat)] @ ''Diagnostics: %s'')
                      [FStr appID, FStr (ya_FinalStatus st), FStr (ya_Diagnostics st)]),
                    res_Output := ya_Diagnostics st\<rparr>)
      else if ya_State st = ''KILLED''
      then Some (r\<lparr>res_Status := StatusCancelled,
                   res_Error := Some (Err ''YARN application %s was killed'' [FStr appID]),
                   res_EndTime := stop\<rparr>)
      else if ya_State st = ''FAILED''
      then Some (r\<lparr>res_Status := StatusFailed,
                   res_Error := Some (Err ''YARN application %s failed: %s''
                     [FStr appID, FStr (ya_Diagnostics st)]),
                   res_Output := ya_Diagnostics st, res_EndTime := stop\<rparr>)
      else None)"

text \<open>The endless loop that polls the application, for at most \<open>fuel\<close> rounds.\<close>

fun poll ::
  "'o exec_env \<Rightarrow> json_codec \<Rightarrow> hadoop_config \<Rightarrow> nat \<Rightarrow> task \<Rightarrow> string \<Rightarrow> exec_result \<Rightarrow> 'o \<Rightarrow>
     (exec_result \<times> 'o) outcome" where
  "poll en js cfg 0 t appID r os = Diverge"
| "poll en js cfg (Suc fuel) t appID r os =
     (case en_done en t os of
        Some e \<Rightarrow> Ret (fail_result r e (en_now en os), os)
      | None \<Rightarrow>
          (case getApplicationStatus en js cfg appID os of
             (Inl e, os) \<Rightarrow>
               Ret (fail_result r (Err ''check YARN application status: %w'' [FErr e]) (en_now en os), os)
           | (Inr st, os) \<Rightarrow>
               (let r = set_metric ''progress'' (ya_Progress st) r in
                case yarn_outcome appID st (en_now en os) r of
                  Some r \<Rightarrow> Ret (r, os)
                | None \<Rightarrow> poll en js cfg fuel t appID r (en_sleep en (poll_interval t) os))))"

definition hadoop_Execute ::
  "'o exec_env \<Rightarrow> json_codec \<Rightarrow> nat \<Rightarrow> hadoop_config \<Rightarrow> task \<Rightarrow> params \<Rightarrow> 'o machine \<Rightarrow>
     ((exec_result option \<times> err option) \<times> 'o machine) outcome" where
  "hadoop_Execute en js fuel cfg t params m =
     (case hadoop_Validate t of
        Some e \<Rightarrow> Ret ((None, Some e), m)
      | None \<Rightarrow>
          (let r = new_result (en_now en (m_os m)) in
           case createApplication en js cfg (m_os m) of
             (Inl e, os) \<Rightarrow>
               Ret ((Some (fail_result r (Err ''create YARN application: %w'' [FErr e]) (en_now en os)), None),
                 m\<lparr>m_os := os\<rparr>)
           | (Inr appID, os) \<Rightarrow>
               (let r = set_metric ''yarn_app_id_created'' (Fin 1) r in
                bind_outcome (submitApplication en cfg appID t params os) (\<lambda>(e, os).
                  case e of
                    Some e \<Rightarrow>
                      Ret ((Some (fail_result r (Err ''submit YARN application: %w'' [FErr e]) (en_now en os)),
                        None), m\<lparr>m_os := os\<rparr>)
                  | None \<Rightarrow>
                      bind_outcome (poll en js cfg fuel t appID r os) (\<lambda>(r, os).
                        Ret ((Some r, None), m\<lparr>m_os := os\<rparr>))))))"

text \<open>\<open>Cancel\<close> takes the ID of the task for the ID of the application.\<close>

definition hadoop_Cancel ::
  "'o exec_env \<Rightarrow> hadoop_config \<Rightarrow> string \<Rightarrow> 'o machine \<Rightarrow> err option \<times> 'o machine" where
  "hadoop_Cancel en cfg i m =
     (let url = ResourceManagerURL cfg @ ''/ws/v1/cluster/apps/'' @ i @ ''/state'';
          (h, os) = do_http en \<lparr>hr_method = ''PUT'', hr_url = url, hr_headers = content_json,
             hr_body = json_object [(''state'', json_string ''KILLED'')]\<rparr> (m_os m)
      in (case h of
            NoRequest e \<Rightarrow> Some e
          | NoResponse e \<Rightarrow> Some e
          | Response resp \<Rightarrow>
              if 400 \<le> rp_status resp
              then Some (Err ''YARN kill returned status %d: %s'' [FInt (rp_status resp), FStr (rp_body resp)])
              else None, m\<lparr>m_os := os\<rparr>))"

definition HadoopExecutor ::
  "'o exec_env \<Rightarrow> json_codec \<Rightarrow> nat \<Rightarrow> hadoop_config \<Rightarrow> 'o machine executor" where
  "HadoopExecutor en js fuel cfg =
     \<lparr>ex_Type = ''hadoop'', ex_Validate = hadoop_Validate,
      ex_Execute = hadoop_Execute en js fuel (NewHadoopExecutor cfg),
      ex_Cancel = hadoop_Cancel en (NewHadoopExecutor cfg)\<rparr>"

end
