(* ===== verification/Exec_Hdfs.thy ===== *)
theory Exec_Hdfs
  imports Exec_Hadoop
begin

text \<open>
  \<^verbatim>\<open>pkg/executor/hdfs.go\<close>: the seven file operations of the WebHDFS REST interface, each one request,
  and the executor that chooses among them.
\<close>

section \<open>Configuration and validation\<close>

record hdfs_config =
  NameNodeURL :: string
  hdfs_User :: string

definition NewHDFSExecutor :: "hdfs_config \<Rightarrow> hdfs_config" where
  "NewHDFSExecutor cfg =
     (let cfg = (if NameNodeURL cfg = [] then cfg\<lparr>NameNodeURL := ''http://localhost:9870''\<rparr> else cfg)
      in if hdfs_User cfg = [] then cfg\<lparr>hdfs_User := ''sparkflow''\<rparr> else cfg)"

definition hdfs_operations :: "string list" where
  "hdfs_operations = [''put'', ''get'', ''delete'', ''mkdir'', ''list'', ''status'', ''rename'']"

definition hdfs_Validate :: "task \<Rightarrow> err option" where
  "hdfs_Validate t =
     (case fmlookup (Config t) ''operation'' of
        None \<Rightarrow> Some (Err ''hdfs executor requires 'operation' in config'' [])
      | Some (VStr op_s) \<Rightarrow>
          if op_s \<notin> set hdfs_operations
          then Some (Err (''hdfs executor: unknown operation %q '' @
                 ''(supported: put, get, delete, mkdir, list, status, rename)'') [FStr op_s])
          else if fmlookup (Config t) ''path'' = None
          then Some (Err ''hdfs executor requires 'path' in config'' [])
          else None
      | Some v \<Rightarrow> Some (Err ''hdfs executor 'operation' must be a string'' []))"

section \<open>Requests\<close>

definition replaceParam :: "(f64 \<Rightarrow> string) \<Rightarrow> string \<Rightarrow> string \<Rightarrow> gval \<Rightarrow> string" where
  "replaceParam ff s key v = ReplaceAll s (placeholder key) (sprint_v ff v)"

text \<open>\<^verbatim>\<open>params.Set\<close> of distinct keys, so the order in which the further parameters are set is immaterial.\<close>

definition webhdfsURL :: "hdfs_config \<Rightarrow> string \<Rightarrow> string \<Rightarrow> (string, string) fmap \<Rightarrow> string" where
  "webhdfsURL cfg path opn extra =
     NameNodeURL cfg @ ''/webhdfs/v1'' @ path @ ''?'' @
       query_string (fmadd (fmupd ''user.name'' (hdfs_User cfg) (fmupd ''op'' opn fmempty)) extra)"

text \<open>
  What the operations share: the request is made and sent, and an answer with another status than
  the accepted ones is an error. \<open>what\<close> is the word the three messages use.
\<close>

definition hdfs_call ::
  "'o exec_env \<Rightarrow> string \<Rightarrow> int list \<Rightarrow> http_request \<Rightarrow> 'o \<Rightarrow> (err + http_response) \<times> 'o" where
  "hdfs_call en what accepted req os =
     (case do_http en req os of
        (NoRequest e, os) \<Rightarrow> (Inl (Err (''create '' @ what @ '' request: %w'') [FErr e]), os)
      | (NoResponse e, os) \<Rightarrow> (Inl (Err (''HDFS '' @ what @ '' request: %w'') [FErr e]), os)
      | (Response resp, os) \<Rightarrow>
          if rp_status resp \<in> set accepted then (Inr resp, os)
          else (Inl (Err (''HDFS '' @ what @ '' returned status %d: %s'')
                      [FInt (rp_status resp), FStr (rp_body resp)]), os))"

definition request_to :: "string \<Rightarrow> string \<Rightarrow> http_request" where
  "request_to meth url = \<lparr>hr_method = meth, hr_url = url, hr_headers = [], hr_body = []\<rparr>"

fun only_error :: "(err + 'a) \<times> 'o \<Rightarrow> (string \<times> err option) \<times> 'o" where
  "only_error (Inl e, os) = (([], Some e), os)"
| "only_error (Inr a, os) = (([], None), os)"

section \<open>Operations\<close>

text \<open>Each returns the output and the error; an output that is nil is empty.\<close>

definition put_content :: "'o exec_env \<Rightarrow> task \<Rightarrow> string" where
  "put_content en t =
     (case fmlookup (Config t) ''content'' of Some v \<Rightarrow> sprint_v (en_float en) v | None \<Rightarrow> [])"

definition putFile ::
  "'o exec_env \<Rightarrow> hdfs_config \<Rightarrow> string \<Rightarrow> task \<Rightarrow> 'o \<Rightarrow> (string \<times> err option) \<times> 'o" where
  "putFile en cfg path t os =
     only_error (hdfs_call en ''PUT'' [201, 200]
       \<lparr>hr_method = ''PUT'', hr_url = webhdfsURL cfg path ''CREATE'' (fmupd ''overwrite'' ''true'' fmempty),
        hr_headers = [(''Content-Type'', ''application/octet-stream'')], hr_body = put_content en t\<rparr> os)"

definition getFile :: "'o exec_env \<Rightarrow> hdfs_config \<Rightarrow> string \<Rightarrow> 'o \<Rightarrow> (string \<times> err option) \<times> 'o" where
  "getFile en cfg path os =
     (case hdfs_call en ''GET'' [200] (request_to ''GET'' (webhdfsURL cfg path ''OPEN'' fmempty)) os of
        (Inl e, os) \<Rightarrow> (([], Some e), os)
      | (Inr resp, os) \<Rightarrow> ((rp_body resp, rp_err resp), os))"

definition recursive_of :: "task \<Rightarrow> string" where
  "recursive_of t = (if fmlookup (Config t) ''recursive'' = Some (VBool True) then ''true'' else ''false'')"

definition deleteFile ::
  "'o exec_env \<Rightarrow> hdfs_config \<Rightarrow> string \<Rightarrow> task \<Rightarrow> 'o \<Rightarrow> (string \<times> err option) \<times> 'o" where
  "deleteFile en cfg path t os =
     only_error (hdfs_call en ''DELETE'' [200]
       (request_to ''DELETE'' (webhdfsURL cfg path ''DELETE'' (fmupd ''recursive'' (recursive_of t) fmempty))) os)"

definition mkdirs :: "'o exec_env \<Rightarrow> hdfs_config \<Rightarrow> string \<Rightarrow> 'o \<Rightarrow> (string \<times> err option) \<times> 'o" where
  "mkdirs en cfg path os =
     only_error (hdfs_call en ''MKDIRS'' [200] (request_to ''PUT'' (webhdfsURL cfg path ''MKDIRS'' fmempty)) os)"

text \<open>The answer is decoded and written again with indentation.\<close>

definition indented :: "json_codec \<Rightarrow> string \<Rightarrow> (err + http_response) \<times> 'o \<Rightarrow> (string \<times> err option) \<times> 'o" where
  "indented js what r =
     (case r of
        (Inl e, os) \<Rightarrow> (([], Some e), os)
      | (Inr resp, os) \<Rightarrow>
          (case js_object js resp of
             Inl e \<Rightarrow> (([], Some (Err (''decode HDFS '' @ what @ '': %w'') [FErr e])), os)
           | Inr obj \<Rightarrow>
               (case js_indent js obj of
                  Inl e \<Rightarrow> (([], Some e), os)
                | Inr out \<Rightarrow> ((out, None), os))))"

definition listDir ::
  "'o exec_env \<Rightarrow> json_codec \<Rightarrow> hdfs_config \<Rightarrow> string \<Rightarrow> 'o \<Rightarrow> (string \<times> err option) \<times> 'o" where
  "listDir en js cfg path os =
     indented js ''listing'' (hdfs_call en ''LISTSTATUS'' [200]
       (request_to ''GET'' (webhdfsURL cfg path ''LISTSTATUS'' fmempty)) os)"

definition fileStatus ::
  "'o exec_env \<Rightarrow> json_codec \<Rightarrow> hdfs_config \<Rightarrow> string \<Rightarrow> 'o \<Rightarrow> (string \<times> err option) \<times> 'o" where
  "fileStatus en js cfg path os =
     indented js ''file status'' (hdfs_call en ''GETFILESTATUS'' [200]
       (request_to ''GET'' (webhdfsURL cfg path ''GETFILESTATUS'' fmempty)) os)"

definition rename ::
  "'o exec_env \<Rightarrow> hdfs_config \<Rightarrow> string \<Rightarrow> string \<Rightarrow> 'o \<Rightarrow> (string \<times> err option) \<times> 'o" where
  "rename en cfg path dest os =
     only_error (hdfs_call en ''RENAME'' [200]
       (request_to ''PUT'' (webhdfsURL cfg path ''RENAME'' (fmupd ''destination'' dest fmempty))) os)"

section \<open>Execution\<close>

definition hdfs_path :: "'o exec_env \<Rightarrow> params \<Rightarrow> string \<Rightarrow> string" where
  "hdfs_path en params path =
     fold (\<lambda>k p. case fmlookup params k of None \<Rightarrow> p | Some v \<Rightarrow> replaceParam (en_float en) p k v)
       (en_order en params) path"

definition hdfs_operation ::
  "'o exec_env \<Rightarrow> json_codec \<Rightarrow> hdfs_config \<Rightarrow> string \<Rightarrow> string \<Rightarrow> task \<Rightarrow> 'o \<Rightarrow>
     (string \<times> err option) \<times> 'o" where
  "hdfs_operation en js cfg opn path t os =
     (if opn = ''put'' then putFile en cfg path t os
      else if opn = ''get'' then getFile en cfg path os
      else if opn = ''delete'' then deleteFile en cfg path t os
      else if opn = ''mkdir'' then mkdirs en cfg path os
      else if opn = ''list'' then listDir en js cfg path os
      else if opn = ''status'' then fileStatus en js cfg path os
      else if opn = ''rename''
      then (case fmlookup (Config t) ''destination'' of
              Some (VStr dest) \<Rightarrow> rename en cfg path dest os
            | _ \<Rightarrow> (([], Some (Err ''rename operation requires 'destination' in config'' [])), os))
      else (([], None), os))"

definition hdfs_Execute ::
  "'o exec_env \<Rightarrow> json_codec \<Rightarrow> hdfs_config \<Rightarrow> task \<Rightarrow> params \<Rightarrow> 'o machine \<Rightarrow>
     ((exec_result option \<times> err option) \<times> 'o machine) outcome" where
  "hdfs_Execute en js cfg t params m =
     (case hdfs_Validate t of
        Some e \<Rightarrow> Ret ((None, Some e), m)
      | None \<Rightarrow>
          bind_outcome (string_or ''operation'' t []) (\<lambda>opn.
          bind_outcome (string_or ''path'' t []) (\<lambda>path.
            let start = en_now en (m_os m);
                ((out, e), os) = hdfs_operation en js cfg opn (hdfs_path en params path) t (m_os m);
                stop = en_now en os;
                r = (new_result start)\<lparr>res_EndTime := stop,
                      res_Metrics := fmupd ''duration_ms'' (duration_ms start stop) fmempty,
                      res_Output := out\<rparr>
            in Ret ((Some (case e of
                             Some e \<Rightarrow> r\<lparr>res_Status := StatusFailed, res_Error := Some e\<rparr>
                           | None \<Rightarrow> r\<lparr>res_Status := StatusSuccess\<rparr>), None), m\<lparr>m_os := os\<rparr>))))"

definition hdfs_Cancel :: "string \<Rightarrow> 'o machine \<Rightarrow> err option \<times> 'o machine" where
  "hdfs_Cancel i m = (None, m)"

definition HDFSExecutor :: "'o exec_env \<Rightarrow> json_codec \<Rightarrow> hdfs_config \<Rightarrow> 'o machine executor" where
  "HDFSExecutor en js cfg =
     \<lparr>ex_Type = ''hdfs'', ex_Validate = hdfs_Validate,
      ex_Execute = hdfs_Execute en js (NewHDFSExecutor cfg), ex_Cancel = hdfs_Cancel\<rparr>"

end
