(* ===== verification/Exec_Docker.thy ===== *)
theory Exec_Docker
  imports Exec_Hdfs
begin

text \<open>
  \<^verbatim>\<open>pkg/executor/docker.go\<close>: a task in a container of its own. The Docker client is a record of the
  calls the executor makes. The registry of all built-in executors (\<^verbatim>\<open>DefaultRegistry\<close> of
  \<^verbatim>\<open>executor.go\<close>) closes the theory.
\<close>

section \<open>The client\<close>

record docker_config =
  docker_Host :: string
  docker_APIVersion :: string

datatype docker_opt = FromEnv | WithHost string | WithVersion string

record container_config =
  cc_Image :: string
  cc_Cmd :: "string list"
  cc_Entrypoint :: "string list"
  cc_Env :: "string list"
  cc_WorkingDir :: string

record host_config =
  hc_Binds :: "string list"
  hc_NetworkMode :: string

text \<open>What the wait for a container delivers first: an error, which may be nil, or an exit status.\<close>

datatype wait_result = WaitErr "err option" | WaitStatus int

text \<open>
  The calls act on the state of the outside; any of them may fail, for one because the context with
  the timeout of the task is done.
\<close>

record 'o docker_api =
  dk_client :: "docker_opt list \<Rightarrow> err option"
  dk_pull :: "string \<Rightarrow> 'o \<Rightarrow> err option \<times> 'o"
  dk_create :: "container_config \<Rightarrow> host_config \<Rightarrow> string \<Rightarrow> 'o \<Rightarrow> (err + string) \<times> 'o"
  dk_start :: "string \<Rightarrow> 'o \<Rightarrow> err option \<times> 'o"
  dk_wait :: "string \<Rightarrow> 'o \<Rightarrow> wait_result \<times> 'o"
  dk_logs :: "string \<Rightarrow> 'o \<Rightarrow> (err + string) \<times> 'o"
  dk_remove :: "string \<Rightarrow> 'o \<Rightarrow> 'o"
  dk_stop :: "string \<Rightarrow> int \<Rightarrow> 'o \<Rightarrow> err option \<times> 'o"

definition NewDockerExecutor :: "docker_config \<Rightarrow> docker_config" where
  "NewDockerExecutor cfg = cfg"

definition docker_Validate :: "task \<Rightarrow> err option" where
  "docker_Validate t =
     (if fmlookup (Config t) ''image'' = None
      then Some (Err ''docker executor requires 'image' in config'' []) else None)"

definition newClient :: "'o docker_api \<Rightarrow> docker_config \<Rightarrow> err option" where
  "newClient dk cfg =
     dk_client dk ([FromEnv] @
       (if docker_Host cfg \<noteq> [] then [WithHost (docker_Host cfg)] else []) @
       (if docker_APIVersion cfg \<noteq> [] then [WithVersion (docker_APIVersion cfg)] else []))"

section \<open>The container of a task\<close>

definition container_cmd :: "'o exec_env \<Rightarrow> task \<Rightarrow> string list" where
  "container_cmd en t =
     (case fmlookup (Config t) ''command'' of
        Some (VStr s) \<Rightarrow> [''/bin/sh'', ''-c'', s]
      | Some (VList vs) \<Rightarrow> map (sprint_v (en_float en)) vs
      | _ \<Rightarrow> [])"

definition container_entrypoint :: "task \<Rightarrow> string list" where
  "container_entrypoint t =
     (case fmlookup (Config t) ''entrypoint'' of Some (VStr s) \<Rightarrow> [s] | _ \<Rightarrow> [])"

definition param_entries :: "'o exec_env \<Rightarrow> params \<Rightarrow> string list" where
  "param_entries en params =
     List.map_filter (\<lambda>k. map_option (\<lambda>v. ''SPARKFLOW_PARAM_'' @ k @ ''='' @ sprint_v (en_float en) v)
       (fmlookup params k)) (en_order en params)"

definition container_of :: "'o exec_env \<Rightarrow> task \<Rightarrow> params \<Rightarrow> string \<Rightarrow> container_config outcome" where
  "container_of en t params img =
     bind_outcome (string_or ''working_dir'' t []) (\<lambda>dir.
       Ret \<lparr>cc_Image = img, cc_Cmd = container_cmd en t, cc_Entrypoint = container_entrypoint t,
            cc_Env = env_entries en t @ param_entries en params, cc_WorkingDir = dir\<rparr>)"

text \<open>The memory setting is read and dropped.\<close>

definition host_of :: "'o exec_env \<Rightarrow> task \<Rightarrow> host_config" where
  "host_of en t =
     \<lparr>hc_Binds = list_args en t ''volumes'',
      hc_NetworkMode = (case fmlookup (Config t) ''network'' of Some (VStr s) \<Rightarrow> s | _ \<Rightarrow> [])\<rparr>"

text \<open>\<^verbatim>\<open>UnixNano\<close> counts from 1970 in 64 bits.\<close>

definition UnixNano :: "time \<Rightarrow> int" where
  "UnixNano t = wrap64 (t - 62135596800 * 1000000000)"

definition container_name :: "task \<Rightarrow> time \<Rightarrow> string" where
  "container_name t now = ''sparkflow-'' @ task_ID t @ ''-'' @ int_dec (UnixNano now)"

section \<open>Execution\<close>

definition pull_image :: "'o docker_api \<Rightarrow> task \<Rightarrow> string \<Rightarrow> 'o \<Rightarrow> err option \<times> 'o" where
  "pull_image dk t img os =
     (if fmlookup (Config t) ''pull'' = Some (VBool True)
      then (case dk_pull dk img os of
              (Some e, os) \<Rightarrow> (Some (Err ''pull image %s: %w'' [FStr img, FErr e]), os)
            | (None, os) \<Rightarrow> (None, os))
      else (None, os))"

text \<open>The deferred function: forget the container, and remove it unless it is to be kept.\<close>

definition clean_up :: "'o docker_api \<Rightarrow> task \<Rightarrow> string \<Rightarrow> 'o machine \<Rightarrow> 'o machine" where
  "clean_up dk t cid m =
     (let m = m\<lparr>m_docker := fmdrop (task_ID t) (m_docker m)\<rparr>
      in if fmlookup (Config t) ''keep_container'' = Some (VBool True) then m
         else m\<lparr>m_os := dk_remove dk cid (m_os m)\<rparr>)"

text \<open>After the wait: the logs, if they can be read, and the status from the exit code.\<close>

definition collect :: "'o exec_env \<Rightarrow> 'o docker_api \<Rightarrow> string \<Rightarrow> exec_result \<Rightarrow> 'o \<Rightarrow> exec_result \<times> 'o" where
  "collect en dk cid r os =
     (let (l, os) = dk_logs dk cid os;
          r = (case l of Inl e \<Rightarrow> r | Inr out \<Rightarrow> r\<lparr>res_Output := out\<rparr>);
          stop = en_now en os;
          r = set_metric ''duration_ms'' (duration_ms (res_StartTime r) stop) (r\<lparr>res_EndTime := stop\<rparr>)
      in (if res_ExitCode r \<noteq> 0
          then r\<lparr>res_Status := StatusFailed,
                 res_Error := Some (Err ''container exited with code %d'' [FInt (res_ExitCode r)])\<rparr>
          else r\<lparr>res_Status := StatusSuccess\<rparr>, os))"

definition run_container ::
  "'o exec_env \<Rightarrow> 'o docker_api \<Rightarrow> string \<Rightarrow> exec_result \<Rightarrow> 'o \<Rightarrow>
     (exec_result option \<times> err option) \<times> 'o" where
  "run_container en dk cid r os =
     (case dk_start dk cid os of
        (Some e, os) \<Rightarrow> ((None, Some (Err ''start container: %w'' [FErr e])), os)
      | (None, os) \<Rightarrow>
          (case dk_wait dk cid os of
             (WaitErr (Some e), os) \<Rightarrow> ((Some (fail_result r e (en_now en os)), None), os)
           | (WaitErr None, os) \<Rightarrow> (let (r, os) = collect en dk cid r os in ((Some r, None), os))
           | (WaitStatus code, os) \<Rightarrow>
               (let (r, os) = collect en dk cid (r\<lparr>res_ExitCode := code\<rparr>) os in ((Some r, None), os))))"

definition docker_Execute ::
  "'o exec_env \<Rightarrow> 'o docker_api \<Rightarrow> docker_config \<Rightarrow> task \<Rightarrow> params \<Rightarrow> 'o machine \<Rightarrow>
     ((exec_result option \<times> err option) \<times> 'o machine) outcome" where
  "docker_Execute en dk cfg t params m =
     (case docker_Validate t of
        Some e \<Rightarrow> Ret ((None, Some e), m)
      | None \<Rightarrow>
          (let r = new_result (en_now en (m_os m)) in
           case newClient dk cfg of
             Some e \<Rightarrow> Ret ((None, Some (Err ''create docker client: %w'' [FErr e])), m)
           | None \<Rightarrow>
               bind_outcome (string_or ''image'' t []) (\<lambda>img.
                 case pull_image dk t img (m_os m) of
                   (Some e, os) \<Rightarrow> Ret ((None, Some e), m\<lparr>m_os := os\<rparr>)
                 | (None, os) \<Rightarrow>
                     bind_outcome (container_of en t params img) (\<lambda>cc.
                       case dk_create dk cc (host_of en t) (container_name t (en_now en os)) os of
                         (Inl e, os) \<Rightarrow>
                           Ret ((None, Some (Err ''create container: %w'' [FErr e])), m\<lparr>m_os := os\<rparr>)
                       | (Inr cid, os) \<Rightarrow>
                           (let m = m\<lparr>m_docker := fmupd (task_ID t) cid (m_docker m)\<rparr>;
                                (x, os) = run_container en dk cid r os
                            in Ret (x, clean_up dk t cid (m\<lparr>m_os := os\<rparr>)))))))"

definition docker_Cancel ::
  "'o docker_api \<Rightarrow> docker_config \<Rightarrow> string \<Rightarrow> 'o machine \<Rightarrow> err option \<times> 'o machine" where
  "docker_Cancel dk cfg i m =
     (case fmlookup (m_docker m) i of
        None \<Rightarrow> (Some (Err ''no running container for task %s'' [FStr i]), m)
      | Some cid \<Rightarrow>
          (case newClient dk cfg of
             Some e \<Rightarrow> (Some (Err ''create docker client: %w'' [FErr e]), m)
           | None \<Rightarrow> (let (e, os) = dk_stop dk cid 10 (m_os m) in (e, m\<lparr>m_os := os\<rparr>))))"

definition DockerExecutor ::
  "'o exec_env \<Rightarrow> 'o docker_api \<Rightarrow> docker_config \<Rightarrow> 'o machine executor" where
  "DockerExecutor en dk cfg =
     \<lparr>ex_Type = ''docker'', ex_Validate = docker_Validate,
      ex_Execute = docker_Execute en dk (NewDockerExecutor cfg),
      ex_Cancel = docker_Cancel dk (NewDockerExecutor cfg)\<rparr>"

section \<open>The built-in executors\<close>

definition DefaultRegistry ::
  "'o exec_env \<Rightarrow> 'o docker_api \<Rightarrow> json_codec \<Rightarrow> nat \<Rightarrow> 'o machine registry" where
  "DefaultRegistry en dk js fuel =
     (let reg = Register (ShellExecutor en) NewRegistry;
          reg = Register (PythonExecutor en \<lparr>PythonPath = [], VenvPath = []\<rparr>) reg;
          reg = Register (DockerExecutor en dk \<lparr>docker_Host = [], docker_APIVersion = []\<rparr>) reg;
          reg = Register (SparkExecutor en
                  \<lparr>SparkHome = [], SparkSubmit = [], Master = [], ConnectHost = [], ConnectPort = 0,
                   SparkUIURL = []\<rparr>) reg;
          reg = Register (HadoopExecutor en js fuel
                  \<lparr>ResourceManagerURL = [], TimelineServerURL = [], hadoop_User = []\<rparr>) reg
      in Register (HDFSExecutor en js \<lparr>NameNodeURL = [], hdfs_User = []\<rparr>) reg)"

end
