(* ===== verification/Queues.thy ===== *)
theory Queues
  imports Prelude
begin

text \<open>
  The two bounded queues that components share, as interfaces: one that makes room by evicting
  the oldest element (the dead letter queue of \<^verbatim>\<open>pkg/retry\<close>) and one that refuses an element
  when it is full (a buffered Go channel used with \<^verbatim>\<open>select\<close> and \<^verbatim>\<open>default\<close>, as in the worker
  pool). \<open>items\<close> is the content, oldest first.
\<close>

section \<open>First in, first out\<close>

locale bounded_fifo =
  fixes items :: "'q \<Rightarrow> 'a list" and inv :: "'q \<Rightarrow> bool" and cap :: "'q \<Rightarrow> nat"
    and pop :: "'q \<Rightarrow> ('a \<times> 'q) option"
  assumes bounded: "inv q \<Longrightarrow> length (items q) \<le> cap q"
    and pop_empty: "inv q \<Longrightarrow> items q = [] \<Longrightarrow> pop q = None"
    and pop_front: "inv q \<Longrightarrow> items q = x # xs \<Longrightarrow>
      \<exists>q'. pop q = Some (x, q') \<and> items q' = xs \<and> inv q' \<and> cap q' = cap q"
begin

text \<open>Taking elements out until the queue is empty.\<close>

fun drain :: "nat \<Rightarrow> 'q \<Rightarrow> 'a list \<times> 'q" where
  "drain 0 q = ([], q)"
| "drain (Suc n) q = (case pop q of None \<Rightarrow> ([], q)
     | Some (x, q') \<Rightarrow> (let (xs, q'') = drain n q' in (x # xs, q'')))"

lemma drain_order: "inv q \<Longrightarrow> \<exists>q'. drain n q = (take n (items q), q') \<and> items q' = drop n (items q) \<and> inv q'"
proof (induction n arbitrary: q)
  case (Suc n)
  show ?case
  proof (cases "items q")
    case Nil
    then show ?thesis using pop_empty Suc.prems by simp
  next
    case (Cons x xs)
    then obtain q1 where q1: "pop q = Some (x, q1)" "items q1 = xs" "inv q1"
      using pop_front Suc.prems by blast
    then show ?thesis using Suc.IH [OF q1(3)] Cons by auto
  qed
qed simp

end

section \<open>Evicting the oldest\<close>

locale evicting_queue = bounded_fifo items inv cap pop
  for items :: "'q \<Rightarrow> 'a list" and inv :: "'q \<Rightarrow> bool" and cap :: "'q \<Rightarrow> nat"
    and pop :: "'q \<Rightarrow> ('a \<times> 'q) option" +
  fixes push :: "'b \<Rightarrow> 'q \<Rightarrow> 'q outcome" and entered :: "'b \<Rightarrow> 'a"
  assumes cap_pos: "inv q \<Longrightarrow> 0 < cap q"
    and push: "inv q \<Longrightarrow> \<exists>q'. push x q = Ret q' \<and> inv q' \<and> cap q' = cap q \<and>
      items q' = (if cap q \<le> length (items q) then tl (items q) else items q) @ [entered x]"
begin

fun push_all :: "'b list \<Rightarrow> 'q \<Rightarrow> 'q outcome" where
  "push_all [] q = Ret q"
| "push_all (x # xs) q = bind_outcome (push x q) (push_all xs)"

text \<open>What is left after any number of insertions is the newest part of all that was there.\<close>

lemma push_all_latest:
  "inv q \<Longrightarrow> \<exists>q'. push_all xs q = Ret q' \<and> inv q' \<and> cap q' = cap q \<and>
     items q' = drop (length (items q) + length xs - cap q) (items q @ map entered xs)"
proof (induction xs arbitrary: q)
  case Nil
  then show ?case using bounded by auto
next
  case (Cons x xs)
  obtain q1 where q1: "push x q = Ret q1" "inv q1" "cap q1 = cap q"
    and i: "items q1 = (if cap q \<le> length (items q) then tl (items q) else items q) @ [entered x]"
    using push Cons.prems by blast
  obtain q2 where q2: "push_all xs q1 = Ret q2" "inv q2" "cap q2 = cap q1"
    and j: "items q2 = drop (length (items q1) + length xs - cap q1) (items q1 @ map entered xs)"
    using Cons.IH [OF q1(2)] by blast
  have "items q2 = drop (length (items q) + length (x # xs) - cap q) (items q @ map entered (x # xs))"
    using bounded [OF Cons.prems] cap_pos [OF Cons.prems] unfolding j i q1(3)
    by (cases "items q") (auto simp del: drop_append)
  then show ?case using q1 q2 by auto
qed

end

section \<open>Refusing when full\<close>

locale rejecting_queue = bounded_fifo items inv cap pop
  for items :: "'q \<Rightarrow> 'a list" and inv :: "'q \<Rightarrow> bool" and cap :: "'q \<Rightarrow> nat"
    and pop :: "'q \<Rightarrow> ('a \<times> 'q) option" +
  fixes offer :: "'a \<Rightarrow> 'q \<Rightarrow> 'q option"
  assumes offer_full: "inv q \<Longrightarrow> cap q \<le> length (items q) \<Longrightarrow> offer x q = None"
    and offer_room: "inv q \<Longrightarrow> length (items q) < cap q \<Longrightarrow>
      \<exists>q'. offer x q = Some q' \<and> items q' = items q @ [x] \<and> inv q' \<and> cap q' = cap q"
begin

lemma offer_iff: "inv q \<Longrightarrow> (\<exists>q'. offer x q = Some q') \<longleftrightarrow> length (items q) < cap q"
  using offer_full [of q x] offer_room [of q x] by (cases "length (items q) < cap q") auto

lemma offer_items:
  "inv q \<Longrightarrow> offer x q = Some q' \<Longrightarrow> items q' = items q @ [x] \<and> inv q' \<and> cap q' = cap q"
  using offer_full [of q x] offer_room [of q x] by (cases "length (items q) < cap q") auto

end

end
