(* ===== verification/Retry.thy ===== *)
theory Retry
  imports Dag_Model Queues "HOL-Library.Sublist"
begin

text \<open>
  \<^verbatim>\<open>pkg/retry/retry.go\<close>: the retry policy with its backoff delays, the retry loop \<open>Do\<close> and the
  dead letter queue.
\<close>

section \<open>Policies\<close>

datatype strategy = StrategyFixed | StrategyExponential | StrategyLinear | StrategyOther int

fun strategy_String :: "strategy \<Rightarrow> string" where
  "strategy_String StrategyFixed = ''fixed''"
| "strategy_String StrategyExponential = ''exponential''"
| "strategy_String StrategyLinear = ''linear''"
| "strategy_String (StrategyOther n) = ''unknown''"

record policy =
  p_MaxRetries :: int
  p_InitialBackoff :: duration
  p_MaxBackoff :: duration
  p_BackoffFactor :: f64
  Strategy :: strategy
  Jitter :: bool
  RetryableCheck :: "(err option \<Rightarrow> bool) option"

definition DefaultPolicy :: policy where
  "DefaultPolicy =
     \<lparr>p_MaxRetries = 3, p_InitialBackoff = 1000000000, p_MaxBackoff = 5 * 60000000000,
      p_BackoffFactor = Fin 2, Strategy = StrategyExponential, Jitter = True,
      RetryableCheck = None\<rparr>"

text \<open>
  \<^verbatim>\<open>float64(attempt)\<close> of an attempt that is not negative, as the exponent of \<^verbatim>\<open>math.Pow\<close>:
  a rounded integer is an integer.
\<close>

definition pow_attempt :: "f64 \<Rightarrow> int \<Rightarrow> f64" where
  "pow_attempt x n = (case f64_of_int n of Fin y \<Rightarrow> pow_int x (nat \<lfloor>y\<rfloor>) | _ \<Rightarrow> NaN)"

text \<open>The delay before it is capped.\<close>

definition raw_delay :: "(f64 \<Rightarrow> int) \<Rightarrow> policy \<Rightarrow> int \<Rightarrow> duration" where
  "raw_delay oob p attempt =
     (case Strategy p of
        StrategyFixed \<Rightarrow> p_InitialBackoff p
      | StrategyExponential \<Rightarrow>
          (let multiplier = pow_attempt (p_BackoffFactor p) attempt
           in int64_of_f64 oob (f64_mul (f64_of_int (p_InitialBackoff p)) multiplier))
      | StrategyLinear \<Rightarrow>
          wrap64 (p_InitialBackoff p +
            int64_of_f64 oob
              (f64_mul (f64_mul (f64_of_int (p_InitialBackoff p)) (p_BackoffFactor p))
                 (f64_of_int attempt)))
      | StrategyOther n \<Rightarrow> 0)"

text \<open>
  The jitter, from the random number \<open>r\<close> of \<^verbatim>\<open>rand.Float64()\<close>. The products and the subtraction
  round one by one, as on amd64 (Go may fuse them on other machines).
\<close>

definition add_jitter :: "(f64 \<Rightarrow> int) \<Rightarrow> f64 \<Rightarrow> duration \<Rightarrow> duration" where
  "add_jitter oob r delay =
     (let jitterRange = f64_mul (f64_of_int delay) (Fin (1 / 4));
          jitter = f64_sub (f64_mul (f64_mul r jitterRange) (Fin 2)) jitterRange;
          delay' = int64_of_f64 oob (f64_add (f64_of_int delay) jitter)
      in if delay' < 0 then 0 else delay')"

definition Delay :: "(f64 \<Rightarrow> int) \<Rightarrow> f64 \<Rightarrow> policy \<Rightarrow> int \<Rightarrow> duration" where
  "Delay oob r p attempt =
     (if attempt < 0 then 0
      else
        let delay = raw_delay oob p attempt;
            delay = (if p_MaxBackoff p < delay then p_MaxBackoff p else delay)
        in if Jitter p \<and> 0 < delay then add_jitter oob r delay else delay)"

definition ShouldRetry :: "policy \<Rightarrow> int \<Rightarrow> err option \<Rightarrow> bool" where
  "ShouldRetry p attempt e =
     (if p_MaxRetries p \<le> attempt then False
      else case RetryableCheck p of
             Some check \<Rightarrow> check e
           | None \<Rightarrow> e \<noteq> None)"

section \<open>The retry loop\<close>

text \<open>
  The world of one call of \<open>Do\<close>: what the \<open>k\<close>-th call of \<^verbatim>\<open>fn\<close> returns, which random number
  goes into the \<open>k\<close>-th delay, and whether the wait before the \<open>k\<close>-th attempt for a given time
  ends in \<^verbatim>\<open>ctx.Done()\<close>, with the error of the context. When both channels are ready Go picks one, so this
  choice, too, belongs to the world.
\<close>

record do_world =
  w_fn :: "nat \<Rightarrow> err option"
  w_rand :: "nat \<Rightarrow> f64"
  w_done :: "nat \<Rightarrow> duration \<Rightarrow> err option"

text \<open>What \<open>Do\<close> returns, how often \<^verbatim>\<open>fn\<close> was called and the delays that were waited for.\<close>

record do_result =
  r_err :: "err option"
  r_calls :: nat
  r_delays :: "duration list"

definition exhausted :: "policy \<Rightarrow> err option \<Rightarrow> err" where
  "exhausted p lastErr =
     Err ''exhausted %d retries: %w''
       [FInt (p_MaxRetries p), case lastErr of None \<Rightarrow> FNil | Some e \<Rightarrow> FErr e]"

function do_loop ::
  "(f64 \<Rightarrow> int) \<Rightarrow> do_world \<Rightarrow> policy \<Rightarrow> nat \<Rightarrow> err option \<Rightarrow> duration list \<Rightarrow> do_result" where
  "do_loop oob w p attempt lastErr ds =
     (if p_MaxRetries p < int attempt
      then \<lparr>r_err = Some (exhausted p lastErr), r_calls = attempt, r_delays = ds\<rparr>
      else
        let delay = Delay oob (w_rand w attempt) p (int attempt - 1);
            ds' = (if 0 < attempt then ds @ [delay] else ds)
        in if 0 < attempt \<and> w_done w attempt delay \<noteq> None
           then \<lparr>r_err = w_done w attempt delay, r_calls = attempt, r_delays = ds'\<rparr>
           else
             let lastErr = w_fn w attempt
             in if lastErr = None
                then \<lparr>r_err = None, r_calls = attempt + 1, r_delays = ds'\<rparr>
                else if \<not> ShouldRetry p (int attempt) lastErr
                then \<lparr>r_err = Some (exhausted p lastErr), r_calls = attempt + 1, r_delays = ds'\<rparr>
                else do_loop oob w p (attempt + 1) lastErr ds')"
  by pat_completeness auto
termination
  by (relation "measure (\<lambda>(oob, w, p, attempt, e, ds). nat (p_MaxRetries p + 1 - int attempt))") auto

declare do_loop.simps [simp del]

definition Do :: "(f64 \<Rightarrow> int) \<Rightarrow> do_world \<Rightarrow> policy \<Rightarrow> do_result" where
  "Do oob w p = do_loop oob w p 0 None []"

section \<open>The dead letter queue\<close>

record DLQEntry =
  dlq_TaskID :: string
  dlq_RunID :: string
  dlq_Error :: "err option"
  dlq_Attempts :: int
  dlq_CreatedAt :: time
  dlq_Payload :: "(string, gval) fmap"

record dead_letter_queue =
  entries :: "DLQEntry list"
  maxSize :: int

definition NewDeadLetterQueue :: "int \<Rightarrow> dead_letter_queue" where
  "NewDeadLetterQueue n = \<lparr>entries = [], maxSize = (if n \<le> 0 then 10000 else n)\<rparr>"

text \<open>An entry without a time gets the current time, \<open>now\<close>.\<close>

definition stamp :: "time \<Rightarrow> DLQEntry \<Rightarrow> DLQEntry" where
  "stamp now e = (if dlq_CreatedAt e = 0 then e\<lparr>dlq_CreatedAt := now\<rparr> else e)"

text \<open>\<^verbatim>\<open>q.entries[1:]\<close> of an empty slice panics; only a queue not made by the constructor gets there.\<close>

definition Push :: "time \<Rightarrow> DLQEntry \<Rightarrow> dead_letter_queue \<Rightarrow> dead_letter_queue outcome" where
  "Push now e q =
     (let e = stamp now e in
      if maxSize q \<le> int (length (entries q))
      then (case entries q of
              [] \<Rightarrow> Panic
            | x # xs \<Rightarrow> Ret (q\<lparr>entries := xs @ [e]\<rparr>))
      else Ret (q\<lparr>entries := entries q @ [e]\<rparr>))"

text \<open>\<open>None\<close> stands for the zero entry with \<^verbatim>\<open>false\<close>.\<close>

definition Pop :: "dead_letter_queue \<Rightarrow> (DLQEntry \<times> dead_letter_queue) option" where
  "Pop q = (case entries q of [] \<Rightarrow> None | e # es \<Rightarrow> Some (e, q\<lparr>entries := es\<rparr>))"

definition Peek :: "dead_letter_queue \<Rightarrow> DLQEntry option" where
  "Peek q = (case entries q of [] \<Rightarrow> None | e # es \<Rightarrow> Some e)"

definition Len :: "dead_letter_queue \<Rightarrow> int" where
  "Len q = int (length (entries q))"

definition List_entries :: "dead_letter_queue \<Rightarrow> DLQEntry list" where
  "List_entries q = entries q"

definition Clear :: "dead_letter_queue \<Rightarrow> dead_letter_queue" where
  "Clear q = q\<lparr>entries := []\<rparr>"

section \<open>Delays\<close>

lemma trunc_rat_of_int [simp]: "trunc_rat (of_int n) = n"
  by (simp add: trunc_rat_def)

lemma trunc_rat_close: "\<bar>of_int (trunc_rat x) - x\<bar> < 1"
  unfolding trunc_rat_def by (simp split: if_splits) linarith

lemma int64_of_f64_int: "in_int64 n \<Longrightarrow> int64_of_f64 oob (Fin (of_int n)) = n"
  by simp

lemma pow_attempt_two: "n \<le> 971 \<Longrightarrow> pow_attempt (Fin 2) (int n) = Fin (2 ^ n)"
  by (simp add: pow_attempt_def f64_of_int_exact [of "int n", simplified] pow_int_two del: pow_int.simps)

lemma exponential_product:
  assumes "\<bar>b\<bar> < 2 ^ 53" "n \<le> 971"
  shows "f64_mul (f64_of_int b) (pow_attempt (Fin 2) (int n)) = Fin (of_int (b * 2 ^ n))"
  using fl_exact [of b "int n"] assms by (simp add: f64_of_int_exact pow_attempt_two)

lemma raw_delay_exponential:
  assumes "Strategy p = StrategyExponential" "p_BackoffFactor p = Fin 2"
    and "\<bar>p_InitialBackoff p\<bar> < 2 ^ 53" "n \<le> 971"
  shows "raw_delay oob p (int n) =
    (if in_int64 (p_InitialBackoff p * 2 ^ n) then p_InitialBackoff p * 2 ^ n
     else wrap64 (oob (Fin (of_int (p_InitialBackoff p * 2 ^ n)))))"
  using assms by (simp add: raw_delay_def exponential_product int64_of_f64_int Let_def
      del: of_int_mult of_int_power)

lemma Delay_exponential_spec:
  assumes "Strategy p = StrategyExponential" and "p_BackoffFactor p = Fin 2" and "\<not> Jitter p"
    and "0 \<le> p_InitialBackoff p" and "p_InitialBackoff p < 2 ^ 53" and "n \<le> 971"
    and "p_InitialBackoff p * 2 ^ n < 2 ^ 63"
  shows "Delay oob r p (int n) = min (p_InitialBackoff p * 2 ^ n) (p_MaxBackoff p)"
proof -
  have "0 \<le> p_InitialBackoff p * 2 ^ n" using assms(4) by simp
  then have "in_int64 (p_InitialBackoff p * 2 ^ n)"
    using assms(7) by (simp add: in_int64_def min_int64_def max_int64_def)
  then show ?thesis
    using raw_delay_exponential [OF assms(1,2) _ assms(6)] assms(3-5)
    by (simp add: Delay_def Let_def)
qed

text \<open>
  With the default factor of 2 and no jitter, the exponential delay before retry \<open>n\<close> is exactly
  \<open>InitialBackoff * 2 ^ n\<close>, capped at \<open>MaxBackoff\<close>, as long as the product fits into 64 bits:
  the detour through floating point loses nothing, for any initial backoff below \<open>2 ^ 53\<close> ns.
\<close>

theorem Delay_exponential_exact:
  assumes "Strategy p = StrategyExponential" and "p_BackoffFactor p = Fin 2" and "\<not> Jitter p"
    and "0 \<le> p_InitialBackoff p" and "p_InitialBackoff p < 2 ^ 53" and "n \<le> 971"
    and "p_InitialBackoff p * 2 ^ n < 2 ^ 63"
  shows "Delay oob r p (int n) = min (p_InitialBackoff p * 2 ^ n) (p_MaxBackoff p)"
  using assms by (rule Delay_exponential_spec)

text \<open>
  C38. With a factor of 2, for retries up to the 971st and an initial backoff below \<open>2 ^ 53\<close> ns: once the product no
  longer fits, the machine decides. On amd64, where the conversion gives
  the least integer, the delay is negative whatever the cap and the jitter are: the cap at
  \<open>MaxBackoff\<close> does not see the overflow, and the next attempt follows at once.
\<close>

theorem Delay_exponential_overflow:
  assumes "Strategy p = StrategyExponential" and "p_BackoffFactor p = Fin 2"
    and "p_InitialBackoff p < 2 ^ 53" and "n \<le> 971" and "2 ^ 63 \<le> p_InitialBackoff p * 2 ^ n"
    and "0 \<le> p_MaxBackoff p"
  shows "Delay (\<lambda>_. min_int64) r p (int n) = min_int64"
proof -
  have "(0::int) < 2 ^ 63" by simp
  then have "0 < p_InitialBackoff p * 2 ^ n" using assms(5) by (rule less_le_trans)
  then have "0 < p_InitialBackoff p" by (simp add: zero_less_mult_iff)
  moreover have "\<not> in_int64 (p_InitialBackoff p * 2 ^ n)"
    using assms(5) by (simp add: in_int64_def max_int64_def)
  moreover have "wrap64 min_int64 = min_int64" by (simp add: wrap64_def min_int64_def)
  ultimately have "raw_delay (\<lambda>_. min_int64) p (int n) = min_int64"
    using raw_delay_exponential [OF assms(1,2) _ assms(4)] assms(3) by simp
  then show ?thesis using assms(6) by (simp add: Delay_def Let_def min_int64_def)
qed

text \<open>Half a unit in the last place, for a value below \<open>2 ^ m\<close>.\<close>

lemma fl_close_nat:
  assumes "\<bar>x\<bar> < 2 ^ m" "m \<le> 52"
  shows "\<exists>y. fl x = Fin y \<and> \<bar>y - x\<bar> \<le> 2 ^ m / 2 ^ 54"
proof -
  have e: "(2::rat) powi (int m - 53) = 2 ^ m / 2 ^ 53"
    by (subst power_int_diff) simp_all
  show ?thesis using fl_close [of x "int m - 53"] assms unfolding e by simp
qed

lemma add_jitter_bounds:
  assumes "0 < D" "D < 2 ^ 50" "0 \<le> q" "q < 1"
  shows "3 * D - 6 \<le> 4 * add_jitter oob (Fin q) D" "4 * add_jitter oob (Fin q) D \<le> 5 * D + 6"
    "0 \<le> add_jitter oob (Fin q) D"
proof -
  let ?d = "of_int D :: rat"
  have d: "0 < ?d" "?d < 2 ^ 50"
    using assms(1,2) by (simp, metis of_int_less_iff of_int_numeral of_int_power)
  have D: "f64_of_int D = Fin ?d" using assms(1,2) by (intro f64_of_int_exact) simp
  have jr: "f64_mul (Fin ?d) (Fin (1 / 4)) = Fin (?d / 4)"
  proof -
    have "fl (?d * 2 powi (- 2)) = Fin (?d * 2 powi (- 2))"
      by (rule fl_exact) (use assms(1,2) in simp_all)
    then show ?thesis by (simp add: power_int_minus)
  qed
  define t where "t = q * (?d / 4)"
  have t: "0 \<le> t" "t \<le> ?d / 4"
    using d assms(3,4) by (simp_all add: t_def mult_left_le_one_le)
  have "\<bar>t\<bar> < 2 ^ 48" using t d by simp
  from fl_close_nat [OF this] obtain a where a: "fl t = Fin a" "\<bar>a - t\<bar> \<le> 1 / 64" by auto
  have r1: "f64_mul (Fin q) (Fin (?d / 4)) = Fin a" using a(1) by (simp add: t_def)
  have "\<bar>a * 2\<bar> < 2 ^ 50" using a(2) t d by (simp add: abs_if split: if_splits)
  from fl_close_nat [OF this] obtain b where b: "fl (a * 2) = Fin b" "\<bar>b - a * 2\<bar> \<le> 1 / 16" by auto
  have r2: "f64_mul (Fin a) (Fin 2) = Fin b" using b(1) by simp
  have "\<bar>b + - (?d / 4)\<bar> < 2 ^ 51" using a(2) b(2) t d by (simp add: abs_if split: if_splits)
  from fl_close_nat [OF this]
  obtain c where c: "fl (b + - (?d / 4)) = Fin c" "\<bar>c - (b + - (?d / 4))\<bar> \<le> 1 / 8" by auto
  have "\<bar>?d + c\<bar> < 2 ^ 52" using a(2) b(2) c(2) t d by (simp add: abs_if split: if_splits)
  from fl_close_nat [OF this]
  obtain s where s: "fl (?d + c) = Fin s" "\<bar>s - (?d + c)\<bar> \<le> 1 / 4" by auto
  have bounds: "3 * ?d / 4 - 1 / 2 \<le> s" "s \<le> 5 * ?d / 4 + 1 / 2"
    using a(2) b(2) c(2) s(2) t unfolding abs_le_iff by linarith+
  let ?n = "trunc_rat s"
  have n: "\<bar>of_int ?n - s\<bar> < 1" by (rule trunc_rat_close)
  have "of_int (3 * D - 6) < (of_int (4 * ?n) :: rat)" "of_int (4 * ?n) < (of_int (5 * D + 6) :: rat)"
    using n bounds by (auto simp: abs_less_iff)
  then have nD: "3 * D - 6 < 4 * ?n" "4 * ?n < 5 * D + 6" unfolding of_int_less_iff by simp_all
  then have "in_int64 ?n"
    using assms(1,2) by (simp add: in_int64_def min_int64_def max_int64_def)
  then have j: "add_jitter oob (Fin q) D = max 0 ?n"
    by (simp add: add_jitter_def Let_def D jr r1 r2 f64_sub_def c(1) [simplified] s(1) del: f64_mul.simps)
  show "3 * D - 6 \<le> 4 * add_jitter oob (Fin q) D" "4 * add_jitter oob (Fin q) D \<le> 5 * D + 6"
    "0 \<le> add_jitter oob (Fin q) D" using nD assms(1) unfolding j by linarith+
qed

lemma Delay_no_jitter_cap: "0 \<le> p_MaxBackoff p \<Longrightarrow> \<not> Jitter p \<Longrightarrow> Delay oob r p n \<le> p_MaxBackoff p"
  by (simp add: Delay_def Let_def)

lemma Delay_jitter:
  assumes "Jitter p" "0 < Delay oob r (p\<lparr>Jitter := False\<rparr>) n"
  shows "Delay oob r p n = add_jitter oob r (Delay oob r (p\<lparr>Jitter := False\<rparr>) n)"
proof -
  have "raw_delay oob (p\<lparr>Jitter := False\<rparr>) n = raw_delay oob p n"
    by (simp add: raw_delay_def split: strategy.split)
  then show ?thesis using assms by (simp add: Delay_def Let_def split: if_splits)
qed

text \<open>
  C39. Jitter, for every strategy, random number and machine, if the delay \<open>D\<close> without jitter is positive and
  \<open>MaxBackoff\<close>, which bounds it, lies below \<open>2 ^ 50\<close> ns (about 13 days): then the delay with jitter is within a quarter
  of \<open>D\<close>, up to two nanoseconds of rounding, and not negative; but it may exceed \<open>MaxBackoff\<close>. Where \<open>D\<close> itself is negative,
  as after an overflow, nothing is said.
\<close>

theorem Delay_jitter_bounds:
  assumes "Jitter p" and "0 \<le> p_MaxBackoff p" and "p_MaxBackoff p < 2 ^ 50"
    and "D = Delay oob (Fin q) (p\<lparr>Jitter := False\<rparr>) n" and "0 < D" and "0 \<le> q" and "q < 1"
  shows "D \<le> p_MaxBackoff p \<and> 0 \<le> Delay oob (Fin q) p n \<and>
         3 * D - 6 \<le> 4 * Delay oob (Fin q) p n \<and> 4 * Delay oob (Fin q) p n \<le> 5 * D + 6"
proof -
  have cap: "D \<le> p_MaxBackoff p"
    using Delay_no_jitter_cap [of "p\<lparr>Jitter := False\<rparr>" oob "Fin q" n] assms(2) by (simp add: assms(4))
  moreover have "D < 2 ^ 50" using cap assms(3) by (rule le_less_trans)
  moreover have "Delay oob (Fin q) p n = add_jitter oob (Fin q) D"
    using Delay_jitter [OF assms(1)] assms(5) by (simp add: assms(4))
  ultimately show ?thesis
    using add_jitter_bounds [OF assms(5) _ assms(6,7)] by simp
qed

section \<open>What the retry loop does\<close>

text \<open>
  \<open>goes_on w p oob k\<close>: the loop gets past attempt \<open>k\<close>, as its wait is not cancelled, its call fails
  and the policy retries.
\<close>

definition wait_done :: "(f64 \<Rightarrow> int) \<Rightarrow> do_world \<Rightarrow> policy \<Rightarrow> nat \<Rightarrow> err option" where
  "wait_done oob w p k =
     (if k = 0 then None else w_done w k (Delay oob (w_rand w k) p (int k - 1)))"

definition goes_on :: "(f64 \<Rightarrow> int) \<Rightarrow> do_world \<Rightarrow> policy \<Rightarrow> nat \<Rightarrow> bool" where
  "goes_on oob w p k \<longleftrightarrow>
     wait_done oob w p k = None \<and> w_fn w k \<noteq> None \<and> ShouldRetry p (int k) (w_fn w k)"

text \<open>The delays before attempts \<open>1..k\<close>.\<close>

definition waited :: "(f64 \<Rightarrow> int) \<Rightarrow> do_world \<Rightarrow> policy \<Rightarrow> nat \<Rightarrow> duration list" where
  "waited oob w p k = map (\<lambda>j. Delay oob (w_rand w j) p (int j - 1)) [1..<k + 1]"

lemma waited_step:
  "0 < k \<Longrightarrow> waited oob w p (k - Suc 0) @ [Delay oob (w_rand w k) p (int k - 1)] = waited oob w p k"
  by (cases k) (simp_all add: waited_def)

lemma do_loop_stop:
  assumes "\<not> goes_on oob w p k" "int k \<le> p_MaxRetries p"
  shows "do_loop oob w p k e (waited oob w p (k - 1)) =
    (if wait_done oob w p k \<noteq> None
     then \<lparr>r_err = wait_done oob w p k, r_calls = k, r_delays = waited oob w p k\<rparr>
     else if w_fn w k = None
     then \<lparr>r_err = None, r_calls = k + 1, r_delays = waited oob w p k\<rparr>
     else \<lparr>r_err = Some (exhausted p (w_fn w k)), r_calls = k + 1, r_delays = waited oob w p k\<rparr>)"
  using assms
  by (subst do_loop.simps) (auto simp: Let_def goes_on_def wait_done_def waited_step)

lemma do_loop_step:
  assumes "goes_on oob w p k" "int k \<le> p_MaxRetries p"
  shows "do_loop oob w p k e (waited oob w p (k - 1)) =
    do_loop oob w p (k + 1) (w_fn w k) (waited oob w p k)"
  using assms
  by (subst do_loop.simps) (auto simp: Let_def goes_on_def wait_done_def waited_step)

lemma do_loop_skip:
  "(\<And>j. j < k \<Longrightarrow> goes_on oob w p j) \<Longrightarrow> int k \<le> p_MaxRetries p + 1 \<Longrightarrow>
     \<exists>e. Do oob w p = do_loop oob w p k e (waited oob w p (k - 1))"
proof (induction k)
  case 0
  then show ?case by (auto simp: Do_def waited_def)
next
  case (Suc k)
  then obtain e where "Do oob w p = do_loop oob w p k e (waited oob w p (k - 1))" by auto
  also have "\<dots> = do_loop oob w p (k + 1) (w_fn w k) (waited oob w p k)"
    using Suc.prems by (intro do_loop_step) auto
  finally show ?case by auto
qed

text \<open>The last allowed attempt never goes on.\<close>

lemma not_goes_on_last: "p_MaxRetries p \<le> int k \<Longrightarrow> \<not> goes_on oob w p k"
  by (simp add: goes_on_def ShouldRetry_def)

lemma first_stop:
  assumes "0 \<le> p_MaxRetries p"
  shows "\<exists>k. int k \<le> p_MaxRetries p \<and> \<not> goes_on oob w p k \<and> (\<forall>j < k. goes_on oob w p j)"
proof -
  have "\<not> goes_on oob w p (nat (p_MaxRetries p))" using assms by (intro not_goes_on_last) simp
  then have "\<exists>k \<le> nat (p_MaxRetries p). \<not> goes_on oob w p k \<and> (\<forall>j < k. goes_on oob w p j)"
    using ex_least_nat_le [of "\<lambda>k. \<not> goes_on oob w p k" "nat (p_MaxRetries p)"] by auto
  then show ?thesis using assms by (auto simp: le_nat_iff)
qed

lemma Do_spec:
  assumes "int k \<le> p_MaxRetries p" "\<not> goes_on oob w p k" "\<And>j. j < k \<Longrightarrow> goes_on oob w p j"
  shows "Do oob w p =
    (if wait_done oob w p k \<noteq> None
     then \<lparr>r_err = wait_done oob w p k, r_calls = k, r_delays = waited oob w p k\<rparr>
     else if w_fn w k = None
     then \<lparr>r_err = None, r_calls = k + 1, r_delays = waited oob w p k\<rparr>
     else \<lparr>r_err = Some (exhausted p (w_fn w k)), r_calls = k + 1, r_delays = waited oob w p k\<rparr>)"
  using do_loop_skip [OF assms(3)] do_loop_stop [OF assms(2,1)] assms(1) by fastforce

text \<open>
  C25. \<open>Do\<close>, for a policy that allows retries: there is a last attempt \<open>k \<le> MaxRetries\<close>, all
  attempts before it having failed, been retried and been waited for with the delays of the
  policy, in order. If the wait before it is cancelled, the context's error comes back after \<open>k\<close>
  calls; otherwise it is nil exactly when call \<open>k\<close> succeeds, and else the wrapped error of call
  \<open>k\<close>, after \<open>k + 1\<close> calls. A policy with a negative \<open>MaxRetries\<close> fails without one call.
\<close>

theorem Do_correct:
  "(0 \<le> p_MaxRetries p \<longrightarrow>
     (\<exists>k. int k \<le> p_MaxRetries p \<and>
       (\<forall>j < k. wait_done oob w p j = None \<and> w_fn w j \<noteq> None \<and> ShouldRetry p (int j) (w_fn w j)) \<and>
       r_delays (Do oob w p) = waited oob w p k \<and>
       (case wait_done oob w p k of
          Some e \<Rightarrow> r_err (Do oob w p) = Some e \<and> r_calls (Do oob w p) = k
        | None \<Rightarrow> r_calls (Do oob w p) = k + 1 \<and>
            (case w_fn w k of
               None \<Rightarrow> r_err (Do oob w p) = None
             | Some e \<Rightarrow> r_err (Do oob w p) = Some (exhausted p (Some e)) \<and>
                 \<not> ShouldRetry p (int k) (Some e))))) \<and>
   (p_MaxRetries p < 0 \<longrightarrow>
      Do oob w p = \<lparr>r_err = Some (exhausted p None), r_calls = 0, r_delays = []\<rparr>)"
proof (intro conjI impI)
  assume "0 \<le> p_MaxRetries p"
  then obtain k where k: "int k \<le> p_MaxRetries p" "\<not> goes_on oob w p k" "\<forall>j < k. goes_on oob w p j"
    using first_stop by blast
  note spec = Do_spec [OF k(1,2)]
  show "\<exists>k. int k \<le> p_MaxRetries p \<and>
       (\<forall>j < k. wait_done oob w p j = None \<and> w_fn w j \<noteq> None \<and> ShouldRetry p (int j) (w_fn w j)) \<and>
       r_delays (Do oob w p) = waited oob w p k \<and>
       (case wait_done oob w p k of
          Some e \<Rightarrow> r_err (Do oob w p) = Some e \<and> r_calls (Do oob w p) = k
        | None \<Rightarrow> r_calls (Do oob w p) = k + 1 \<and>
            (case w_fn w k of
               None \<Rightarrow> r_err (Do oob w p) = None
             | Some e \<Rightarrow> r_err (Do oob w p) = Some (exhausted p (Some e)) \<and>
                 \<not> ShouldRetry p (int k) (Some e)))"
    using k by (intro exI [of _ k]) (auto simp: spec goes_on_def split: option.splits)
qed (simp add: Do_def do_loop.simps)

section \<open>The dead letter queue is an evicting queue\<close>

definition dlq_inv :: "dead_letter_queue \<Rightarrow> bool" where
  "dlq_inv q \<longleftrightarrow> 0 < maxSize q \<and> int (length (entries q)) \<le> maxSize q"

definition dlq_cap :: "dead_letter_queue \<Rightarrow> nat" where
  "dlq_cap q = nat (maxSize q)"

interpretation dlq: evicting_queue List_entries dlq_inv dlq_cap Pop
  "\<lambda>(now, e). Push now e" "\<lambda>(now, e). stamp now e"
  by unfold_locales
     (auto simp: List_entries_def dlq_inv_def dlq_cap_def Pop_def Push_def Let_def split: list.splits)

definition new_cap :: "int \<Rightarrow> nat" where
  "new_cap n = (if n \<le> 0 then 10000 else nat n)"

lemma NewDeadLetterQueue_simps [simp]:
  "dlq_inv (NewDeadLetterQueue n)" "List_entries (NewDeadLetterQueue n) = []"
  "dlq_cap (NewDeadLetterQueue n) = new_cap n"
  by (simp_all add: NewDeadLetterQueue_def dlq_inv_def List_entries_def dlq_cap_def new_cap_def)

fun Push_all :: "(time \<times> DLQEntry) list \<Rightarrow> dead_letter_queue \<Rightarrow> dead_letter_queue outcome" where
  "Push_all [] q = Ret q"
| "Push_all ((now, e) # es) q = bind_outcome (Push now e q) (Push_all es)"

lemma Push_all_eq: "Push_all es q = dlq.push_all es q"
  by (induction es q rule: Push_all.induct) (auto cong: bind_outcome_cong)

text \<open>
  After any pushes into a new queue, the queue holds the newest entries, in the order they
  came and with their times set, as many as it has room for (10000 for a size that is not
  positive); and popping returns them oldest first.
\<close>

theorem DLQ_keeps_newest:
  "\<exists>q. Push_all es (NewDeadLetterQueue n) = Ret q \<and>
     List_entries q = drop (length es - new_cap n) (map (\<lambda>(now, e). stamp now e) es) \<and>
     fst (dlq.drain (length es) q) = List_entries q"
proof -
  obtain q where q: "Push_all es (NewDeadLetterQueue n) = Ret q" "dlq_inv q"
      "List_entries q = drop (length es - new_cap n) (map (\<lambda>(now, e). stamp now e) es)"
    using dlq.push_all_latest [of "NewDeadLetterQueue n" es] by (auto simp: Push_all_eq)
  moreover obtain q' where "dlq.drain (length es) q = (take (length es) (List_entries q), q')"
    using dlq.drain_order [OF q(2), of "length es"] by blast
  ultimately show ?thesis by auto
qed

text \<open>A history of calls: what was pushed so far (with its time) and what was popped.\<close>

inductive dlq_history ::
  "int \<Rightarrow> dead_letter_queue \<Rightarrow> DLQEntry list \<Rightarrow> DLQEntry list \<Rightarrow> bool" for n where
  new: "dlq_history n (NewDeadLetterQueue n) [] []"
| push: "dlq_history n q pushed popped \<Longrightarrow> Push now e q = Ret q' \<Longrightarrow>
     dlq_history n q' (pushed @ [stamp now e]) popped"
| pop: "dlq_history n q pushed popped \<Longrightarrow> Pop q = Some (e, q') \<Longrightarrow>
     dlq_history n q' pushed (popped @ [e])"
| clear: "dlq_history n q pushed popped \<Longrightarrow> dlq_history n (Clear q) pushed popped"

lemma Clear_simps [simp]:
  "List_entries (Clear q) = []" "dlq_inv q \<Longrightarrow> dlq_inv (Clear q)" "dlq_cap (Clear q) = dlq_cap q"
  by (simp_all add: Clear_def List_entries_def dlq_inv_def dlq_cap_def)

lemma dlq_history_window:
  "dlq_history n q pushed popped \<Longrightarrow> dlq_inv q \<and> dlq_cap q = new_cap n \<and>
     (\<exists>gone. pushed = gone @ List_entries q \<and> subseq popped gone)"
proof (induction rule: dlq_history.induct)
  case (push q pushed popped now e q')
  then obtain gone where gone: "pushed = gone @ List_entries q" "subseq popped gone" by blast
  have q': "dlq_inv q'" "dlq_cap q' = dlq_cap q"
    "List_entries q' =
      (if dlq_cap q \<le> length (List_entries q) then tl (List_entries q) else List_entries q) @ [stamp now e]"
    using dlq.push [of q "(now, e)"] push by auto
  have "\<exists>d. List_entries q = d @ (if dlq_cap q \<le> length (List_entries q) then tl (List_entries q)
      else List_entries q)"
    by (cases "List_entries q") (auto intro: exI [of _ "[]"] exI [of _ "[_]"])
  then obtain d where "pushed @ [stamp now e] = (gone @ d) @ List_entries q'"
    using gone(1) q'(3) by (metis append.assoc)
  moreover have "subseq popped (gone @ d)" using gone(2) by (metis append_Nil2 list_emb_append_mono list_emb_Nil)
  ultimately show ?case using q' push.IH by auto
next
  case (pop q pushed popped e q')
  then obtain gone where gone: "pushed = gone @ List_entries q" "subseq popped gone" by blast
  have "List_entries q = e # List_entries q'" "dlq_inv q'" "dlq_cap q' = dlq_cap q"
    using pop by (auto simp: Pop_def List_entries_def dlq_inv_def dlq_cap_def split: list.splits)
  then show ?case using gone pop.IH
    by (auto intro!: exI [of _ "gone @ [e]"] simp: list_emb_append_mono)
next
  case (clear q pushed popped)
  then show ?case by auto
qed simp

text \<open>
  C26. Whatever sequence of \<open>Push\<close>, \<open>Pop\<close> and \<open>Clear\<close> is applied to a new queue: it holds a
  final stretch of what was pushed, in that order and never more than its capacity; what was
  popped came out in the order it went in; the next \<open>Push\<close> does not panic; and \<open>Peek\<close> and
  \<open>Len\<close> show what \<open>Pop\<close> and \<open>List\<close> return.
\<close>

theorem dlq_history_correct:
  assumes "dlq_history n q pushed popped"
  shows "\<exists>gone. pushed = gone @ List_entries q \<and> subseq popped gone \<and>
    length (List_entries q) \<le> new_cap n \<and> (\<exists>q'. Push now e q = Ret q') \<and>
    Peek q = map_option fst (Pop q) \<and> Len q = int (length (List_entries q))"
proof -
  have "\<exists>q'. Push now e q = Ret q'" "length (List_entries q) \<le> dlq_cap q"
    using dlq_history_window [OF assms] dlq.push [of q "(now, e)"] dlq.bounded [of q] by auto
  then show ?thesis
    using dlq_history_window [OF assms]
    by (auto simp: Peek_def Pop_def Len_def List_entries_def split: list.splits)
qed

section \<open>Examples\<close>

definition steady_policy :: policy where
  "steady_policy = DefaultPolicy\<lparr>Jitter := False\<rparr>"

lemma Delay_exponential_exact_witness: "Delay (\<lambda>_. min_int64) (Fin 0) steady_policy (int 3) = 8000000000"
  by (subst Delay_exponential_exact) (simp_all add: steady_policy_def DefaultPolicy_def)

lemma Delay_exponential_overflow_witness:
  "Delay (\<lambda>_. min_int64) (Fin 0) DefaultPolicy (int 34) = min_int64"
  by (rule Delay_exponential_overflow) (simp_all add: DefaultPolicy_def)

lemma Delay_jitter_bounds_witness:
  "3 * 1000000000 - 6 \<le> 4 * Delay (\<lambda>_. min_int64) (Fin (1 / 3)) DefaultPolicy (int 0) \<and>
   4 * Delay (\<lambda>_. min_int64) (Fin (1 / 3)) DefaultPolicy (int 0) \<le> 5 * 1000000000 + 6"
proof -
  have "Delay (\<lambda>_. min_int64) (Fin (1 / 3)) steady_policy (int 0) = 1000000000"
    by (subst Delay_exponential_spec) (simp_all add: steady_policy_def DefaultPolicy_def)
  then show ?thesis
    using Delay_jitter_bounds [of DefaultPolicy 1000000000 "\<lambda>_. min_int64" "1 / 3" "int 0"]
    by (simp add: steady_policy_def) (simp add: DefaultPolicy_def)
qed

text \<open>A call that fails once.\<close>

definition flaky_world :: do_world where
  "flaky_world =
     \<lparr>w_fn = (\<lambda>k. if k = 0 then Some (Err ''timeout'' []) else None), w_rand = (\<lambda>_. Fin 0),
      w_done = (\<lambda>_ _. None)\<rparr>"

lemma Do_correct_witness:
  "r_calls (Do (\<lambda>_. min_int64) flaky_world DefaultPolicy) = 2 \<and>
   r_err (Do (\<lambda>_. min_int64) flaky_world DefaultPolicy) = None"
proof -
  let ?w = flaky_world and ?p = DefaultPolicy and ?oob = "\<lambda>_ :: f64. min_int64"
  have fn: "w_fn ?w 0 = Some (Err ''timeout'' [])" "\<And>k. k \<noteq> 0 \<Longrightarrow> w_fn ?w k = None"
    and w: "\<And>k. wait_done ?oob ?w ?p k = None"
    and sr: "ShouldRetry ?p 0 (Some (Err ''timeout'' []))" and p: "0 \<le> p_MaxRetries ?p"
    by (simp_all add: flaky_world_def wait_done_def ShouldRetry_def DefaultPolicy_def)
  obtain k where k: "\<forall>j < k. w_fn ?w j \<noteq> None"
      "r_calls (Do ?oob ?w ?p) = k + 1"
      "case w_fn ?w k of None \<Rightarrow> r_err (Do ?oob ?w ?p) = None
       | Some e \<Rightarrow> r_err (Do ?oob ?w ?p) = Some (exhausted ?p (Some e)) \<and> \<not> ShouldRetry ?p (int k) (Some e)"
    using Do_correct [of ?p ?oob ?w] p w by auto
  have "k \<le> 1" using k(1) fn(2) [of 1] by (metis leI less_one not_less_iff_gr_or_eq)
  moreover have "k \<noteq> 0"
  proof
    assume "k = 0"
    with k(3) fn(1) sr show False by simp
  qed
  ultimately have "k = 1" by simp
  then show ?thesis using k fn(2) by simp
qed

definition sample_entry :: "string \<Rightarrow> DLQEntry" where
  "sample_entry i = \<lparr>dlq_TaskID = i, dlq_RunID = ''run-1'', dlq_Error = None, dlq_Attempts = 4,
     dlq_CreatedAt = 7, dlq_Payload = fmempty\<rparr>"

lemma dlq_history_correct_witness:
  "Peek \<lparr>entries = [sample_entry ''a''], maxSize = 1\<rparr> =
   map_option fst (Pop \<lparr>entries = [sample_entry ''a''], maxSize = 1\<rparr>)"
proof -
  have "Push 9 (sample_entry ''a'') (NewDeadLetterQueue 1) = Ret \<lparr>entries = [sample_entry ''a''], maxSize = 1\<rparr>"
    by (simp add: Push_def NewDeadLetterQueue_def stamp_def sample_entry_def)
  from dlq_history_correct [OF dlq_history.push [OF dlq_history.new this]]
  show ?thesis by blast
qed

end
