(* ===== verification/Worker.thy ===== *)
theory Worker
  imports Executor Retry Store Queues
begin

text \<open>
  \<^verbatim>\<open>internal/worker/worker.go\<close>: a worker takes task instances from a buffered channel, executes
  them with retries and writes their status to the store; a pool hands instances to the first
  worker whose channel has room. The worker functions take the operations of the store
  and pass the state of the store (\<open>'s\<close>) and of the executors (\<open>'x\<close>). Logging is left out. The instance that
  the code updates through a pointer is returned.
\<close>

section \<open>Buffered channels\<close>

record 'a chan =
  ch_buf :: "'a list"
  ch_cap :: int

text \<open>
  \<^verbatim>\<open>make(chan T, n)\<close> for a pointer type panics when the size is negative or its buffer would exceed
  the address space (amd64).
\<close>

definition make_chan :: "int \<Rightarrow> 'a chan outcome" where
  "make_chan n = (if n < 0 \<or> 2 ^ 48 - 96 < 8 * n then Panic else Ret \<lparr>ch_buf = [], ch_cap = n\<rparr>)"

text \<open>\<^verbatim>\<open>select { case ch <- x: ... default: ... }\<close> without a waiting receiver.\<close>

definition try_send :: "'a \<Rightarrow> 'a chan \<Rightarrow> 'a chan option" where
  "try_send x ch = (if int (length (ch_buf ch)) < ch_cap ch then Some (ch\<lparr>ch_buf := ch_buf ch @ [x]\<rparr>) else None)"

text \<open>A receive; \<open>None\<close> blocks.\<close>

definition receive :: "'a chan \<Rightarrow> ('a \<times> 'a chan) option" where
  "receive ch = (case ch_buf ch of [] \<Rightarrow> None | x # xs \<Rightarrow> Some (x, ch\<lparr>ch_buf := xs\<rparr>))"

definition chan_ok :: "'a chan \<Rightarrow> bool" where
  "chan_ok ch \<longleftrightarrow> int (length (ch_buf ch)) \<le> ch_cap ch"

interpretation channel: rejecting_queue ch_buf chan_ok "\<lambda>ch. nat (ch_cap ch)" receive try_send
  by unfold_locales (auto simp: chan_ok_def receive_def try_send_def split: list.splits)

section \<open>Workers\<close>

record worker_config =
  wc_ID :: string
  wc_ServerAddr :: string
  wc_Concurrency :: int
  wc_HeartbeatInterval :: duration

record 'x worker =
  wk_config :: worker_config
  wk_id :: string
  wk_registry :: "'x registry"
  wk_dlq :: dead_letter_queue
  wk_stopped :: bool
  wk_taskCh :: "task_instance chan"

text \<open>\<open>uuid\<close> is the text of a new UUID and \<open>setup\<close> the error of setting up observability, if any.\<close>

definition New :: "string \<Rightarrow> err option \<Rightarrow> worker_config \<Rightarrow> 'x registry \<Rightarrow> (err + 'x worker) outcome" where
  "New uuid setup cfg reg =
     (let cfg = (if wc_ID cfg = '''' then cfg\<lparr>wc_ID := ''worker-'' @ take 8 uuid\<rparr> else cfg);
          cfg = (if wc_Concurrency cfg \<le> 0 then cfg\<lparr>wc_Concurrency := 4\<rparr> else cfg);
          cfg = (if wc_HeartbeatInterval cfg = 0 then cfg\<lparr>wc_HeartbeatInterval := 10 * 1000000000\<rparr>
                 else cfg)
      in case setup of
           Some e \<Rightarrow> Ret (Inl (Err ''setup observability: %w'' [FErr e]))
         | None \<Rightarrow>
             bind_outcome (make_chan (wrap64 (wc_Concurrency cfg * 2))) (\<lambda>ch.
               Ret (Inr \<lparr>wk_config = cfg, wk_id = wc_ID cfg, wk_registry = reg,
                 wk_dlq = NewDeadLetterQueue 1000, wk_stopped = False, wk_taskCh = ch\<rparr>)))"

text \<open>Closing a closed channel panics.\<close>

definition worker_Stop :: "'x worker \<Rightarrow> 'x worker outcome" where
  "worker_Stop w = (if wk_stopped w then Panic else Ret (w\<lparr>wk_stopped := True\<rparr>))"

definition worker_Submit :: "task_instance \<Rightarrow> 'x worker \<Rightarrow> err option \<times> 'x worker" where
  "worker_Submit ti w =
     (case try_send ti (wk_taskCh w) of
        Some ch \<Rightarrow> (None, w\<lparr>wk_taskCh := ch\<rparr>)
      | None \<Rightarrow> (Some (Err ''worker %s task queue full'' [FStr (wk_id w)]), w))"

section \<open>Executing a task\<close>

text \<open>
  What one call of \<open>executeTask\<close> reads from outside: the times at which it starts and ends, the
  random number of the \<open>k\<close>-th delay, whether the context is done before a given attempt and delay
  are over, and the time of a push to the dead letter queue.
\<close>

record exec_world =
  ew_start :: time
  ew_end :: time
  ew_rand :: "nat \<Rightarrow> f64"
  ew_done :: "nat \<Rightarrow> duration \<Rightarrow> bool"
  ew_push :: time

definition retry_delay :: "(f64 \<Rightarrow> int) \<Rightarrow> f64 \<Rightarrow> retry_policy option \<Rightarrow> int \<Rightarrow> duration" where
  "retry_delay oob r rp attempt =
     (case rp of
        None \<Rightarrow> 0
      | Some p \<Rightarrow>
          Delay oob r
            \<lparr>p_MaxRetries = 0, p_InitialBackoff = InitialBackoff p, p_MaxBackoff = MaxBackoff p,
             p_BackoffFactor = BackoffFactor p, Strategy = StrategyExponential, Jitter = True,
             RetryableCheck = None\<rparr> (attempt - 1))"

definition max_attempts :: "retry_policy option \<Rightarrow> int" where
  "max_attempts rp = (case rp of None \<Rightarrow> 1 | Some p \<Rightarrow> wrap64 (MaxRetries p + 1))"

text \<open>
  The variables of the loop: the instance, \<^verbatim>\<open>result\<close> and \<^verbatim>\<open>err\<close>, and how often the executor was called.
  The loop ends by running through (\<open>False\<close>) or by a context that is done (\<open>True\<close>).
\<close>

record loop_state =
  ls_ti :: task_instance
  ls_result :: "exec_result option"
  ls_err :: "err option"
  ls_calls :: nat

function attempt_loop ::
  "(f64 \<Rightarrow> int) \<Rightarrow> exec_world \<Rightarrow> 'x executor \<Rightarrow> task \<Rightarrow> nat \<Rightarrow> loop_state \<Rightarrow> 'x \<Rightarrow>
     (bool \<times> loop_state \<times> 'x) outcome" where
  "attempt_loop oob w e t attempt st x =
     (if max_attempts (RetryPolicy t) \<le> int attempt then Ret (False, st, x)
      else if 0 < attempt \<and>
              ew_done w attempt (retry_delay oob (ew_rand w attempt) (RetryPolicy t) (int attempt))
      then Ret (True, st, x)
      else
        let ti = (if 0 < attempt then (ls_ti st)\<lparr>Attempt := int attempt + 1\<rparr> else ls_ti st)
        in bind_outcome (ex_Execute e t fmempty x) (\<lambda>((result, er), x').
             let st' = \<lparr>ls_ti = ti, ls_result = result, ls_err = er, ls_calls = ls_calls st + 1\<rparr>
             in case er of
                  None \<Rightarrow>
                    (case result of
                       None \<Rightarrow> Panic
                     | Some r \<Rightarrow>
                         if res_Status r = StatusSuccess then Ret (False, st', x')
                         else attempt_loop oob w e t (attempt + 1) st' x')
                | Some _ \<Rightarrow> attempt_loop oob w e t (attempt + 1) st' x'))"
  by pat_completeness auto
termination
  by (relation "measure (\<lambda>(oob, w, e, t, attempt, st, x). nat (max_attempts (RetryPolicy t) - int attempt))") auto

declare attempt_loop.simps [simp del]

definition failTask ::
  "'s store_ops \<Rightarrow> exec_world \<Rightarrow> task_instance \<Rightarrow> string \<Rightarrow> 's \<Rightarrow> task_instance \<times> 's" where
  "failTask ops w ti errMsg s =
     (let ti = ti\<lparr>ti_Status := StatusFailed, ti_Error := errMsg, ti_EndTime := ew_end w\<rparr>
      in (ti, case op_UpdateTaskInstance ops ti s of Inl e \<Rightarrow> s | Inr s' \<Rightarrow> s'))"

text \<open>The status after the loop.\<close>

definition final_instance :: "exec_world \<Rightarrow> loop_state \<Rightarrow> task_instance" where
  "final_instance w st =
     (let ti = (ls_ti st)\<lparr>ti_EndTime := ew_end w\<rparr> in
      case ls_result st of
        Some r \<Rightarrow>
          (let ti = ti\<lparr>ti_Status := res_Status r, ti_Output := res_Output r\<rparr>
           in case res_Error r of Some e \<Rightarrow> ti\<lparr>ti_Error := err_Error e\<rparr> | None \<Rightarrow> ti)
      | None \<Rightarrow>
          (case ls_err st of
             Some e \<Rightarrow> ti\<lparr>ti_Status := StatusFailed, ti_Error := err_Error e\<rparr>
           | None \<Rightarrow> ti))"

definition dead_letter :: "task_instance \<Rightarrow> DLQEntry" where
  "dead_letter ti =
     \<lparr>dlq_TaskID = ti_TaskID ti, dlq_RunID = ti_RunID ti,
      dlq_Error = Some (Err ''%s'' [FStr (ti_Error ti)]), dlq_Attempts = Attempt ti,
      dlq_CreatedAt = 0, dlq_Payload = fmempty\<rparr>"

definition finish_task ::
  "'s store_ops \<Rightarrow> exec_world \<Rightarrow> loop_state \<Rightarrow> 'x worker \<Rightarrow> 's \<Rightarrow>
     (task_instance \<times> 'x worker \<times> 's) outcome" where
  "finish_task ops w st wk s =
     (let ti = final_instance w st;
          s = (case op_UpdateTaskInstance ops ti s of Inl e \<Rightarrow> s | Inr s' \<Rightarrow> s')
      in if ti_Status ti = StatusFailed
         then bind_outcome (Push (ew_push w) (dead_letter ti) (wk_dlq wk)) (\<lambda>q.
                Ret (ti, wk\<lparr>wk_dlq := q\<rparr>, s))
         else Ret (ti, wk, s))"

definition executeTask ::
  "'s store_ops \<Rightarrow> (f64 \<Rightarrow> int) \<Rightarrow> exec_world \<Rightarrow> task_instance \<Rightarrow> 'x worker \<times> 's \<times> 'x \<Rightarrow>
     (task_instance \<times> 'x worker \<times> 's \<times> 'x) outcome" where
  "executeTask ops oob w ti st =
     (let (wk, s, x) = st;
          ti = ti\<lparr>ti_Status := StatusRunning, WorkerID := wk_id wk, ti_StartTime := ew_start w\<rparr>
      in case op_UpdateTaskInstance ops ti s of
        Inl e \<Rightarrow> Ret (ti, wk, s, x)
      | Inr s \<Rightarrow>
          (let failed = (\<lambda>msg. let (ti', s') = failTask ops w ti msg s in Ret (ti', wk, s', x)) in
           case op_GetDAG ops (ti_DAGID ti) s of
             Inl e \<Rightarrow> failed (''get DAG: '' @ err_Error e)
           | Inr d \<Rightarrow>
               (case fmlookup (Tasks d) (ti_TaskID ti) of
                  None \<Rightarrow> failed (''task '' @ ti_TaskID ti @ '' not found in DAG'')
                | Some t \<Rightarrow>
                    (case Get (Executor t) (wk_registry wk) of
                       Inl e \<Rightarrow> failed (''get executor: '' @ err_Error e)
                     | Inr e \<Rightarrow>
                         bind_outcome
                           (attempt_loop oob w e t 0
                              \<lparr>ls_ti = ti, ls_result = None, ls_err = None, ls_calls = 0\<rparr> x)
                           (\<lambda>(cancelled, ls, x').
                              if cancelled
                              then let (ti', s') = failTask ops w (ls_ti ls)
                                         ''context cancelled during retry'' s
                                   in Ret (ti', wk, s', x')
                              else bind_outcome (finish_task ops w ls wk s) (\<lambda>(ti', wk', s').
                                     Ret (ti', wk', s', x')))))))"

section \<open>The loop of a worker\<close>

text \<open>
  The choices of the \<^verbatim>\<open>select\<close> in \<open>executionLoop\<close>, one per iteration. A choice whose channel is not
  ready is no choice: the loop waits on. A finished list leaves the loop waiting.
\<close>

datatype pick = PickDone | PickStop | PickTask exec_world

fun executionLoop ::
  "'s store_ops \<Rightarrow> (f64 \<Rightarrow> int) \<Rightarrow> pick list \<Rightarrow> 'x worker \<times> 's \<times> 'x \<Rightarrow> ('x worker \<times> 's \<times> 'x) outcome"
where
  "executionLoop ops oob [] st = Ret st"
| "executionLoop ops oob (PickDone # ps) st = Ret st"
| "executionLoop ops oob (PickStop # ps) st =
     (if wk_stopped (fst st) then Ret st else executionLoop ops oob ps st)"
| "executionLoop ops oob (PickTask w # ps) st =
     (let (wk, s, x) = st in
      case receive (wk_taskCh wk) of
        None \<Rightarrow> executionLoop ops oob ps st
      | Some (ti, ch) \<Rightarrow>
          bind_outcome (executeTask ops oob w ti (wk\<lparr>wk_taskCh := ch\<rparr>, s, x)) (\<lambda>(ti', st').
            executionLoop ops oob ps st'))"

section \<open>Pools\<close>

text \<open>The workers of a pool, each added once.\<close>

record 'x pool =
  workers :: "'x worker list"

definition NewPool :: "'x pool" where
  "NewPool = \<lparr>workers = []\<rparr>"

definition Add :: "'x worker \<Rightarrow> 'x pool \<Rightarrow> 'x pool" where
  "Add w p = p\<lparr>workers := workers p @ [w]\<rparr>"

definition Size :: "'x pool \<Rightarrow> int" where
  "Size p = int (length (workers p))"

text \<open>\<open>Stop\<close> of a worker has no error to log; it may panic.\<close>

fun stop_all :: "'x worker list \<Rightarrow> 'x worker list outcome" where
  "stop_all [] = Ret []"
| "stop_all (w # ws) =
     bind_outcome (worker_Stop w) (\<lambda>w'. bind_outcome (stop_all ws) (\<lambda>ws'. Ret (w' # ws')))"

definition pool_Stop :: "'x pool \<Rightarrow> 'x pool outcome" where
  "pool_Stop p = bind_outcome (stop_all (workers p)) (\<lambda>ws. Ret (p\<lparr>workers := ws\<rparr>))"

fun dispatch_loop :: "task_instance \<Rightarrow> 'x worker list \<Rightarrow> bool \<times> 'x worker list" where
  "dispatch_loop ti [] = (False, [])"
| "dispatch_loop ti (w # ws) =
     (case worker_Submit ti w of
        (None, w') \<Rightarrow> (True, w' # ws)
      | (Some e, w') \<Rightarrow> (let (sent, ws') = dispatch_loop ti ws in (sent, w' # ws')))"

definition Dispatch :: "task_instance \<Rightarrow> 'x pool \<Rightarrow> err option \<times> 'x pool" where
  "Dispatch ti p =
     (if length (workers p) = 0 then (Some (Err ''no workers available'' []), p)
      else let (sent, ws) = dispatch_loop ti (workers p)
           in (if sent then None else Some (Err ''all workers are busy'' []), p\<lparr>workers := ws\<rparr>))"

section \<open>Runs of the executor\<close>

text \<open>The results of executing a task again and again, and the state that leaves.\<close>

fun exec_trace ::
  "'x executor \<Rightarrow> task \<Rightarrow> 'x \<Rightarrow> (exec_result option \<times> err option) list \<Rightarrow> 'x \<Rightarrow> bool" where
  "exec_trace e t x [] x' \<longleftrightarrow> x' = x"
| "exec_trace e t x (r # rs) x' \<longleftrightarrow>
     (case ex_Execute e t fmempty x of Ret (r', y) \<Rightarrow> r' = r \<and> exec_trace e t y rs x' | _ \<Rightarrow> False)"

fun succeeded :: "exec_result option \<times> err option \<Rightarrow> bool" where
  "succeeded (Some r, None) \<longleftrightarrow> res_Status r = StatusSuccess"
| "succeeded _ \<longleftrightarrow> False"

text \<open>An executor that returns, and never with both a nil result and a nil error.\<close>

definition returns :: "'x executor \<Rightarrow> task \<Rightarrow> bool" where
  "returns e t \<longleftrightarrow> (\<forall>x. \<exists>r y. ex_Execute e t fmempty x = Ret (r, y) \<and> r \<noteq> (None, None))"

lemma exec_trace_returns: "returns e t \<Longrightarrow> exec_trace e t x rs x' \<Longrightarrow> (None, None) \<notin> set rs"
proof (induction rs arbitrary: x)
  case (Cons r rs)
  obtain r' y where r': "ex_Execute e t fmempty x = Ret (r', y)" "r' \<noteq> (None, None)"
    using Cons.prems(1) unfolding returns_def by blast
  then show ?case using Cons.IH [OF Cons.prems(1), of y] Cons.prems(2) by auto
qed simp

text \<open>What the executor is called for, and with what effect, when the context is never done.\<close>

definition retried ::
  "'x executor \<Rightarrow> task \<Rightarrow> int \<Rightarrow> 'x \<Rightarrow> (exec_result option \<times> err option) list \<Rightarrow> 'x \<Rightarrow> bool" where
  "retried e t n x rs x' \<longleftrightarrow> exec_trace e t x rs x' \<and> rs \<noteq> [] \<and> int (length rs) \<le> n \<and>
     (\<forall>r \<in> set (butlast rs). \<not> succeeded r) \<and> (succeeded (last rs) \<or> int (length rs) = n)"

definition attempted :: "nat \<Rightarrow> task_instance \<Rightarrow> task_instance" where
  "attempted n ti = (if n \<le> 1 then ti else ti\<lparr>Attempt := int n\<rparr>)"

lemma attempted_simps [simp]:
  "attempted n (attempted m ti) = (if n \<le> 1 then attempted m ti else attempted n ti)"
  "ti_ID (attempted n ti) = ti_ID ti" "ti_TaskID (attempted n ti) = ti_TaskID ti"
  "ti_RunID (attempted n ti) = ti_RunID ti" "ti_Status (attempted n ti) = ti_Status ti"
  "Attempt (attempted n ti) = (if n \<le> 1 then Attempt ti else int n)"
  by (simp_all add: attempted_def)

lemma attempt_loop_spec:
  assumes "returns e t" and "\<forall>k dl. \<not> ew_done w k dl" and "int k < max_attempts (RetryPolicy t)"
  shows "\<exists>rs x'. attempt_loop oob w e t k st x =
      Ret (False, \<lparr>ls_ti = attempted (k + length rs) (ls_ti st), ls_result = fst (last rs),
                   ls_err = snd (last rs), ls_calls = ls_calls st + length rs\<rparr>, x') \<and>
    retried e t (max_attempts (RetryPolicy t) - int k) x rs x'"
  using assms(3)
proof (induction "nat (max_attempts (RetryPolicy t) - int k)" arbitrary: k st x rule: less_induct)
  case less
  let ?n = "max_attempts (RetryPolicy t)"
  obtain res er y where run: "ex_Execute e t fmempty x = Ret ((res, er), y)" "(res, er) \<noteq> (None, None)"
    using assms(1) unfolding returns_def by (metis prod.exhaust)
  define st' where "st' = \<lparr>ls_ti = attempted (k + 1) (ls_ti st), ls_result = res, ls_err = er,
      ls_calls = ls_calls st + 1\<rparr>"
  have step: "attempt_loop oob w e t k st x =
      (if succeeded (res, er) then Ret (False, st', y) else attempt_loop oob w e t (k + 1) st' y)"
    using assms(2) less.prems run
    by (subst attempt_loop.simps)
       (cases res; cases er; simp add: st'_def attempted_def Let_def add.commute)
  show ?case
  proof (cases "succeeded (res, er) \<or> ?n \<le> int (k + 1)")
    case True
    have "attempt_loop oob w e t k st x = Ret (False, st', y)"
      using step True by (auto simp: attempt_loop.simps [of _ _ _ _ "Suc k"])
    moreover have "retried e t (?n - int k) x [(res, er)] y"
      using True run less.prems by (auto simp: retried_def)
    ultimately show ?thesis by (intro exI [of _ "[(res, er)]"] exI [of _ y]) (simp add: st'_def)
  next
    case False
    then obtain rs x' where ih: "attempt_loop oob w e t (k + 1) st' y =
        Ret (False, \<lparr>ls_ti = attempted (k + 1 + length rs) (ls_ti st'), ls_result = fst (last rs),
                     ls_err = snd (last rs), ls_calls = ls_calls st' + length rs\<rparr>, x')"
      and tr: "retried e t (?n - int (k + 1)) y rs x'"
      using less.hyps [of "k + 1" st' y] less.prems by auto
    have "rs \<noteq> []" using tr by (simp add: retried_def)
    moreover have "retried e t (?n - int k) x ((res, er) # rs) x'"
      using tr False run by (auto simp: retried_def)
    ultimately show ?thesis using step False ih
      by (intro exI [of _ "(res, er) # rs"] exI [of _ x']) (simp add: st'_def)
  qed
qed

section \<open>What executing a task does\<close>

text \<open>The status that the last result of the executor stands for.\<close>

fun final_status :: "exec_result option \<times> err option \<Rightarrow> status" where
  "final_status (Some r, e) = res_Status r"
| "final_status (None, e) = StatusFailed"

lemma final_instance_simps [simp]:
  "ti_ID (final_instance w st) = ti_ID (ls_ti st)" "ti_TaskID (final_instance w st) = ti_TaskID (ls_ti st)"
  "ti_RunID (final_instance w st) = ti_RunID (ls_ti st)" "Attempt (final_instance w st) = Attempt (ls_ti st)"
  "WorkerID (final_instance w st) = WorkerID (ls_ti st)" "ti_EndTime (final_instance w st) = ew_end w"
  by (simp_all add: final_instance_def Let_def split: option.split)

lemma final_instance_status:
  "(ls_result st, ls_err st) \<noteq> (None, None) \<Longrightarrow>
     ti_Status (final_instance w st) = final_status (ls_result st, ls_err st)"
  "ls_result st = None \<Longrightarrow> ls_err st = None \<Longrightarrow> ti_Status (final_instance w st) = ti_Status (ls_ti st)"
  by (auto simp: final_instance_def Let_def split: option.split)

lemma bind_outcome_Panic: "bind_outcome x f = Panic \<longleftrightarrow> x = Panic \<or> (\<exists>a. x = Ret a \<and> f a = Panic)"
  by (cases x) auto

lemma bind_Diverge: "bind_outcome m f = Diverge \<longleftrightarrow> m = Diverge \<or> (\<exists>a. m = Ret a \<and> f a = Diverge)"
  by (cases m) auto

text \<open>
  The retry loop goes on for ever only if a call of the executor does, and panics only if a call does or gives
  neither a result nor an error.
\<close>

lemma attempt_loop_Panic:
  "\<forall>y. ex_Execute e t fmempty y \<noteq> Panic \<and> (\<forall>y'. ex_Execute e t fmempty y \<noteq> Ret ((None, None), y')) \<Longrightarrow>
     attempt_loop oob w e t k st x \<noteq> Panic"
proof (induction oob w e t k st x rule: attempt_loop.induct)
  case (1 oob w e t k st x)
  then show ?case
    by (subst attempt_loop.simps) (auto simp: bind_outcome_Panic Let_def split: option.splits prod.splits)
qed

lemma attempt_loop_Diverge: "\<forall>y. ex_Execute e t fmempty y \<noteq> Diverge \<Longrightarrow> attempt_loop oob w e t k st x \<noteq> Diverge"
proof (induction oob w e t k st x rule: attempt_loop.induct)
  case (1 oob w e t k st x)
  then show ?case
    by (subst attempt_loop.simps) (auto simp: bind_Diverge Let_def split: option.splits prod.splits)
qed

definition started :: "exec_world \<Rightarrow> 'x worker \<Rightarrow> task_instance \<Rightarrow> task_instance" where
  "started w wk ti = ti\<lparr>ti_Status := StatusRunning, WorkerID := wk_id wk, ti_StartTime := ew_start w\<rparr>"

lemma started_simps [simp]:
  "ti_ID (started w wk ti) = ti_ID ti" "ti_TaskID (started w wk ti) = ti_TaskID ti"
  "ti_RunID (started w wk ti) = ti_RunID ti" "ti_DAGID (started w wk ti) = ti_DAGID ti"
  "ti_Status (started w wk ti) = StatusRunning" "Attempt (started w wk ti) = Attempt ti"
  "WorkerID (started w wk ti) = wk_id wk"
  by (simp_all add: started_def)

text \<open>Where the executor of an instance is found: the DAG, the task, the executor.\<close>

definition executor_of ::
  "(string, dag) fmap \<Rightarrow> 'x registry \<Rightarrow> task_instance \<Rightarrow> (task \<times> 'x executor) option" where
  "executor_of ds reg ti =
     (case fmlookup ds (ti_DAGID ti) of
        None \<Rightarrow> None
      | Some d \<Rightarrow>
          (case fmlookup (Tasks d) (ti_TaskID ti) of
             None \<Rightarrow> None
           | Some t \<Rightarrow> map_option (Pair t) (fmlookup (executors reg) (Executor t))))"

context store_contract
begin

lemma get_dag_none: "inv s \<Longrightarrow> fmlookup (dag_map s) i = None \<Longrightarrow> \<exists>e. op_GetDAG ops i s = Inl e"
  using get_dag [of s i] by (cases "op_GetDAG ops i s") auto

lemma update_again:
  assumes "inv s" "fmlookup (ti_map s) (ti_ID ti) \<noteq> None"
  obtains s' where "op_UpdateTaskInstance ops ti s = Inr s'" "inv s'"
    "ti_map s' = fmupd (ti_ID ti) ti (ti_map s)" "dag_map s' = dag_map s" "run_map s' = run_map s"
  using update_ti [OF assms] by blast

lemma failTask_spec:
  assumes "inv s" "fmlookup (ti_map s) (ti_ID ti) \<noteq> None"
  shows "\<exists>ti' s'. failTask ops w ti msg s = (ti', s') \<and> inv s' \<and>
    ti' = ti\<lparr>ti_Status := StatusFailed, ti_Error := msg, ti_EndTime := ew_end w\<rparr> \<and>
    ti_map s' = fmupd (ti_ID ti) ti' (ti_map s) \<and> dag_map s' = dag_map s \<and> run_map s' = run_map s"
  using update_ti [OF assms(1), of "ti\<lparr>ti_Status := StatusFailed, ti_Error := msg, ti_EndTime := ew_end w\<rparr>"]
    assms(2) by (auto simp: failTask_def Let_def)

text \<open>What is in the store when the executor is about to be looked up.\<close>

lemma executeTask_started:
  assumes "inv s" "fmlookup (ti_map s) (ti_ID ti) \<noteq> None"
  obtains s1 where "op_UpdateTaskInstance ops (started w wk ti) s = Inr s1" "inv s1"
    "ti_map s1 = fmupd (ti_ID ti) (started w wk ti) (ti_map s)" "dag_map s1 = dag_map s" "run_map s1 = run_map s"
  using update_again [OF assms(1), of "started w wk ti"] assms(2) by auto

lemma executeTask_unknown:
  assumes "inv s" "fmlookup (ti_map s) (ti_ID ti) \<noteq> None"
    and "executor_of (dag_map s) (wk_registry wk) ti = None"
  shows "\<exists>ti' s'. executeTask ops oob w ti (wk, s, x) = Ret (ti', wk, s', x) \<and> inv s' \<and>
    ti_Status ti' = StatusFailed \<and> ti_Error ti' \<noteq> '''' \<and> ti_ID ti' = ti_ID ti \<and>
    ti_map s' = fmupd (ti_ID ti) ti' (ti_map s) \<and> dag_map s' = dag_map s \<and> run_map s' = run_map s"
proof -
  obtain s1 where s1: "op_UpdateTaskInstance ops (started w wk ti) s = Inr s1" "inv s1"
    "ti_map s1 = fmupd (ti_ID ti) (started w wk ti) (ti_map s)" "dag_map s1 = dag_map s" "run_map s1 = run_map s"
    using assms(1,2) by (rule executeTask_started)
  have "\<exists>msg. executeTask ops oob w ti (wk, s, x) =
      (let (ti', s') = failTask ops w (started w wk ti) msg s1 in Ret (ti', wk, s', x)) \<and> msg \<noteq> ''''"
  proof (cases "fmlookup (dag_map s) (ti_DAGID ti)")
    case None
    then obtain e where "op_GetDAG ops (ti_DAGID ti) s1 = Inl e"
      using get_dag_none [OF s1(2)] s1(4) by auto
    then show ?thesis using s1(1) by (auto simp: executeTask_def started_def Let_def)
  next
    case (Some d)
    then have "op_GetDAG ops (ti_DAGID ti) s1 = Inr d" using get_dag [OF s1(2)] s1(4) by simp
    then show ?thesis using s1(1) assms(3) Some
      by (auto simp: executeTask_def started_def Let_def executor_of_def Get_def split: option.splits)
  qed
  then obtain msg where msg: "msg \<noteq> ''''" "executeTask ops oob w ti (wk, s, x) =
      (let (ti', s') = failTask ops w (started w wk ti) msg s1 in Ret (ti', wk, s', x))" by blast
  obtain ti' s' where "failTask ops w (started w wk ti) msg s1 = (ti', s')" "inv s'"
      "ti' = (started w wk ti)\<lparr>ti_Status := StatusFailed, ti_Error := msg, ti_EndTime := ew_end w\<rparr>"
      "ti_map s' = fmupd (ti_ID ti) ti' (ti_map s1)" "dag_map s' = dag_map s1" "run_map s' = run_map s1"
    using failTask_spec [OF s1(2), of "started w wk ti" w msg] s1(3) by auto
  then show ?thesis using msg s1(3-5) by (intro exI [of _ ti'] exI [of _ s']) simp
qed

lemma executeTask_known:
  assumes "inv s" "fmlookup (ti_map s) (ti_ID ti) \<noteq> None"
    and "executor_of (dag_map s) (wk_registry wk) ti = Some (t, e)"
    and "attempt_loop oob w e t 0 \<lparr>ls_ti = started w wk ti, ls_result = None, ls_err = None, ls_calls = 0\<rparr> x =
           Ret (False, ls, x')"
    and "ti_ID (ls_ti ls) = ti_ID ti" and "dlq_inv (wk_dlq wk)"
  shows "\<exists>q s'. executeTask ops oob w ti (wk, s, x) = Ret (final_instance w ls, wk\<lparr>wk_dlq := q\<rparr>, s', x') \<and>
    inv s' \<and> ti_map s' = fmupd (ti_ID ti) (final_instance w ls) (ti_map s) \<and>
    dag_map s' = dag_map s \<and> run_map s' = run_map s \<and> dlq_inv q \<and>
    (if ti_Status (final_instance w ls) = StatusFailed
     then Push (ew_push w) (dead_letter (final_instance w ls)) (wk_dlq wk) = Ret q
     else q = wk_dlq wk)"
proof -
  let ?ti = "final_instance w ls"
  obtain s1 where s1: "op_UpdateTaskInstance ops (started w wk ti) s = Inr s1" "inv s1"
    "ti_map s1 = fmupd (ti_ID ti) (started w wk ti) (ti_map s)" "dag_map s1 = dag_map s" "run_map s1 = run_map s"
    using assms(1,2) by (rule executeTask_started)
  obtain s2 where s2: "op_UpdateTaskInstance ops ?ti s1 = Inr s2" "inv s2"
    "ti_map s2 = fmupd (ti_ID ti) ?ti (ti_map s1)" "dag_map s2 = dag_map s1" "run_map s2 = run_map s1"
    using update_again [OF s1(2), of ?ti] s1(3) assms(5) by auto
  obtain q where q: "Push (ew_push w) (dead_letter ?ti) (wk_dlq wk) = Ret q" "dlq_inv q"
    using dlq.push [OF assms(6), of "(ew_push w, dead_letter ?ti)"] by auto
  obtain d where d: "op_GetDAG ops (ti_DAGID ti) s1 = Inr d" "fmlookup (Tasks d) (ti_TaskID ti) = Some t"
      "Get (Executor t) (wk_registry wk) = Inr e"
    using assms(3) s1(4) get_dag [OF s1(2)] by (auto simp: executor_of_def Get_def split: option.splits)
  have step: "executeTask ops oob w ti (wk, s, x) =
      bind_outcome (finish_task ops w ls wk s1) (\<lambda>(ti', wk', s'). Ret (ti', wk', s', x'))"
    using s1(1) d assms(4) by (simp add: executeTask_def Let_def flip: started_def)
  show ?thesis
  proof (cases "ti_Status ?ti = StatusFailed")
    case True
    then show ?thesis using step s1 s2 q
      by (intro exI [of _ q] exI [of _ s2]) (simp add: finish_task_def)
  next
    case False
    then show ?thesis using step s1 s2 assms(6)
      by (intro exI [of _ "wk_dlq wk"] exI [of _ s2]) (simp add: finish_task_def)
  qed
qed

end

text \<open>
  The instance after its last attempt: the output is that of the last result, the error text that of the error in
  it or, without a result, that of the error of the call. Without one of them, the old text stays.
\<close>

definition last_output :: "exec_result option \<times> err option \<Rightarrow> string \<Rightarrow> string" where
  "last_output last_try old = (case last_try of (Some r, _) \<Rightarrow> res_Output r | (None, _) \<Rightarrow> old)"

definition last_error :: "exec_result option \<times> err option \<Rightarrow> string \<Rightarrow> string" where
  "last_error last_try old =
     (case last_try of
        (Some r, _) \<Rightarrow> (case res_Error r of Some e \<Rightarrow> err_Error e | None \<Rightarrow> old)
      | (None, Some e) \<Rightarrow> err_Error e
      | (None, None) \<Rightarrow> old)"

lemma final_instance_fields:
  "(ls_result st, ls_err st) \<noteq> (None, None) \<Longrightarrow> final_instance w st = (ls_ti st)
     \<lparr>ti_Status := final_status (ls_result st, ls_err st), ti_Output := last_output (ls_result st, ls_err st) (ti_Output (ls_ti st)),
      ti_Error := last_error (ls_result st, ls_err st) (ti_Error (ls_ti st)), ti_EndTime := ew_end w\<rparr>"
  by (rule task_instance.equality)
     (auto simp: final_instance_def last_output_def last_error_def Let_def split: option.split)

text \<open>
  C4. Executing a task whose DAG, task and executor are known, with a context that is never done, an executor that
  always returns and a policy that allows an attempt: the
  executor is called until it succeeds or \<open>MaxRetries + 1\<close> calls are used up (one without a
  policy), and the store then holds the instance with the worker, the number of the last attempt,
  the times of start and end, and the status, the output and the error text of the last result (failed, with
  the text of the error, if that was an error without a result). No other field of the instance and nothing else in the
  store changes. The dead letter queue gets an entry exactly when that status is failed, with the task, the
  run, the error text and the number of the attempt.
\<close>

theorem executeTask_correct:
  assumes "mem_inv mw s" and "fmlookup (taskInstances s) (ti_ID ti) \<noteq> None"
    and "executor_of (dags s) (wk_registry wk) ti = Some (t, e)" and "returns e t"
    and "\<forall>k dl. \<not> ew_done w k dl" and "0 < max_attempts (RetryPolicy t)" and "dlq_inv (wk_dlq wk)"
  shows "\<exists>rs x' ti' q s'. executeTask (memory_ops mw) oob w ti (wk, s, x) = Ret (ti', wk\<lparr>wk_dlq := q\<rparr>, s', x') \<and>
    retried e t (max_attempts (RetryPolicy t)) x rs x' \<and>
    ti' = ti\<lparr>ti_Status := final_status (last rs), WorkerID := wk_id wk,
      Attempt := (if length rs = 1 then Attempt ti else int (length rs)),
      ti_Output := last_output (last rs) (ti_Output ti), ti_Error := last_error (last rs) (ti_Error ti),
      ti_StartTime := ew_start w, ti_EndTime := ew_end w\<rparr> \<and>
    taskInstances s' = fmupd (ti_ID ti) ti' (taskInstances s) \<and> dags s' = dags s \<and> runs s' = runs s \<and>
    mem_inv mw s' \<and> dlq_inv q \<and>
    (if final_status (last rs) = StatusFailed
     then Push (ew_push w) \<lparr>dlq_TaskID = ti_TaskID ti, dlq_RunID = ti_RunID ti,
            dlq_Error = Some (Err ''%s'' [FStr (last_error (last rs) (ti_Error ti))]),
            dlq_Attempts = (if length rs = 1 then Attempt ti else int (length rs)),
            dlq_CreatedAt = 0, dlq_Payload = fmempty\<rparr> (wk_dlq wk) = Ret q
     else q = wk_dlq wk)"
proof -
  let ?st = "\<lparr>ls_ti = started w wk ti, ls_result = None, ls_err = None, ls_calls = 0\<rparr>"
  obtain rs x' where loop: "attempt_loop oob w e t 0 ?st x = Ret (False,
        \<lparr>ls_ti = attempted (length rs) (started w wk ti), ls_result = fst (last rs),
         ls_err = snd (last rs), ls_calls = length rs\<rparr>, x')" (is "_ = Ret (False, ?ls, x')")
    and tr: "retried e t (max_attempts (RetryPolicy t)) x rs x'"
    using attempt_loop_spec [OF assms(4,5), of 0 oob ?st x] assms(6) by auto
  define n where "n = (if length rs = 1 then Attempt ti else int (length rs))"
  have rs: "rs \<noteq> []" "0 < length rs" using tr by (auto simp: retried_def)
  have "last rs \<noteq> (None, None)"
    using exec_trace_returns [OF assms(4)] tr rs(1) by (metis last_in_set retried_def)
  then have fin: "final_instance w ?ls = ti\<lparr>ti_Status := final_status (last rs), WorkerID := wk_id wk, Attempt := n,
      ti_Output := last_output (last rs) (ti_Output ti), ti_Error := last_error (last rs) (ti_Error ti),
      ti_StartTime := ew_start w, ti_EndTime := ew_end w\<rparr>" (is "_ = ?ti")
    using rs(2) final_instance_fields [of ?ls w]
    by (auto simp: attempted_def started_def le_Suc_eq n_def)
  obtain q s' where "executeTask (memory_ops mw) oob w ti (wk, s, x) = Ret (?ti, wk\<lparr>wk_dlq := q\<rparr>, s', x')"
    "mem_inv mw s'" "taskInstances s' = fmupd (ti_ID ti) ?ti (taskInstances s)"
    "dags s' = dags s" "runs s' = runs s" "dlq_inv q"
    "if ti_Status ?ti = StatusFailed then Push (ew_push w) (dead_letter ?ti) (wk_dlq wk) = Ret q else q = wk_dlq wk"
    using mem.executeTask_known [OF assms(1-3) loop _ assms(7), unfolded fin] by auto
  then show ?thesis using tr
    by (intro exI [of _ rs] exI [of _ x'] exI [of _ ?ti] exI [of _ q] exI [of _ s'], unfold n_def [symmetric])
       (simp add: dead_letter_def cong: if_cong)
qed

text \<open>
  If the DAG is not in the store, the task is not in the DAG or no executor is registered for it, the
  instance is failed with a message, no executor runs, and the failure does not reach the dead letter
  queue. An instance that the store does not know is left alone altogether.
\<close>

theorem executeTask_rejects:
  assumes "mem_inv mw s" and "executor_of (dags s) (wk_registry wk) ti = None"
  shows "\<exists>ti' s'. executeTask (memory_ops mw) oob w ti (wk, s, x) = Ret (ti', wk, s', x) \<and>
    dags s' = dags s \<and> runs s' = runs s \<and>
    (case fmlookup (taskInstances s) (ti_ID ti) of
       None \<Rightarrow> s' = s
     | Some _ \<Rightarrow> ti_Status ti' = StatusFailed \<and> ti_Error ti' \<noteq> '''' \<and>
                 taskInstances s' = fmupd (ti_ID ti) ti' (taskInstances s))"
proof (cases "fmlookup (taskInstances s) (ti_ID ti)")
  case None
  then have "executeTask (memory_ops mw) oob w ti (wk, s, x) = Ret (started w wk ti, wk, s, x)"
    by (simp add: executeTask_def memory_ops_def UpdateTaskInstance_def started_def)
  then show ?thesis using None by simp
next
  case (Some ti0)
  then show ?thesis using mem.executeTask_unknown [OF assms(1) _ assms(2), of oob w x] by auto
qed

text \<open>
  C40. A retry policy with a negative number of retries, or with the largest 64-bit number, whose successor
  wraps around, allows no attempt at all: the executor never runs, yet the instance stays in the
  store as running, and nothing reports it as failed.
\<close>

theorem executeTask_no_attempts:
  assumes "mem_inv mw s" and "fmlookup (taskInstances s) (ti_ID ti) \<noteq> None"
    and "executor_of (dags s) (wk_registry wk) ti = Some (t, e)" and "RetryPolicy t = Some p"
    and "in_int64 (MaxRetries p)" and "MaxRetries p < 0 \<or> MaxRetries p = max_int64"
    and "dlq_inv (wk_dlq wk)"
  shows "\<exists>ti' s'. executeTask (memory_ops mw) oob w ti (wk, s, x) = Ret (ti', wk, s', x) \<and>
    fmlookup (taskInstances s') (ti_ID ti) = Some ti' \<and> ti_Status ti' = StatusRunning \<and>
    ti_EndTime ti' = ew_end w"
proof -
  let ?st = "\<lparr>ls_ti = started w wk ti, ls_result = None, ls_err = None, ls_calls = 0\<rparr>"
  have "max_attempts (RetryPolicy t) \<le> 0"
  proof (cases "MaxRetries p = max_int64")
    case True
    then have "wrap64 (MaxRetries p + 1) < 0" by (simp add: wrap64_def max_int64_def)
    then show ?thesis using assms(4) by (simp add: max_attempts_def)
  next
    case False
    then have "in_int64 (MaxRetries p + 1)" "MaxRetries p + 1 \<le> 0"
      using assms(5,6) by (auto simp: in_int64_def min_int64_def max_int64_def)
    then show ?thesis using assms(4) by (simp add: max_attempts_def wrap64_id)
  qed
  then have loop: "attempt_loop oob w e t 0 ?st x = Ret (False, ?st, x)"
    by (simp add: attempt_loop.simps)
  have st: "ti_Status (final_instance w ?st) = StatusRunning"
    using final_instance_status(2) [of ?st w] by simp
  show ?thesis
    using mem.executeTask_known [OF assms(1-3) loop _ assms(7)] st by auto
qed

section \<open>The queue of a worker and its dead letters\<close>

lemma finish_task_worker:
  assumes "finish_task ops w st wk s = Ret (ti, wk', s')"
  shows "wk' = wk \<or> (\<exists>q e. Push (ew_push w) e (wk_dlq wk) = Ret q \<and> wk' = wk\<lparr>wk_dlq := q\<rparr>)"
  using assms by (auto simp: finish_task_def Let_def split: if_splits)

lemma executeTask_worker:
  assumes "executeTask ops oob w ti (wk, s, x) = Ret (ti', wk', s', x')"
  shows "wk' = wk \<or> (\<exists>q e. Push (ew_push w) e (wk_dlq wk) = Ret q \<and> wk' = wk\<lparr>wk_dlq := q\<rparr>)"
  using assms
  by (auto simp: executeTask_def Let_def dest!: finish_task_worker split: sum.splits option.splits prod.splits if_splits)

text \<open>
  The life of a worker, with what its channel has accepted and what has been taken out of it. \<open>iterate\<close> is
  one iteration of a goroutine's \<open>executionLoop\<close>; several of them take turns.
\<close>

inductive worker_life ::
  "'s store_ops \<Rightarrow> (f64 \<Rightarrow> int) \<Rightarrow> worker_config \<Rightarrow> 'x worker \<Rightarrow> task_instance list \<Rightarrow>
     task_instance list \<Rightarrow> bool"
  for ops oob cfg
where
  new: "New uuid setup cfg reg = Ret (Inr wk) \<Longrightarrow> worker_life ops oob cfg wk [] []"
| accept: "worker_life ops oob cfg wk acc tkn \<Longrightarrow> worker_Submit ti wk = (None, wk') \<Longrightarrow>
    worker_life ops oob cfg wk' (acc @ [ti]) tkn"
| refuse: "worker_life ops oob cfg wk acc tkn \<Longrightarrow> worker_Submit ti wk = (Some e, wk') \<Longrightarrow>
    worker_life ops oob cfg wk' acc tkn"
| iterate: "worker_life ops oob cfg wk acc tkn \<Longrightarrow> receive (wk_taskCh wk) = Some (ti, ch) \<Longrightarrow>
    executeTask ops oob w ti (wk\<lparr>wk_taskCh := ch\<rparr>, s, x) = Ret (ti', wk', s', x') \<Longrightarrow>
    worker_life ops oob cfg wk' acc (tkn @ [ti])"
| stop: "worker_life ops oob cfg wk acc tkn \<Longrightarrow> worker_Stop wk = Ret wk' \<Longrightarrow>
    worker_life ops oob cfg wk' acc tkn"

definition worker_inv ::
  "worker_config \<Rightarrow> 'x worker \<Rightarrow> task_instance list \<Rightarrow> task_instance list \<Rightarrow> bool" where
  "worker_inv cfg wk acc tkn \<longleftrightarrow>
     acc = tkn @ ch_buf (wk_taskCh wk) \<and> chan_ok (wk_taskCh wk) \<and>
     ch_cap (wk_taskCh wk) = 2 * (if wc_Concurrency cfg \<le> 0 then 4 else wc_Concurrency cfg) \<and>
     dlq_inv (wk_dlq wk) \<and> maxSize (wk_dlq wk) = 1000"

lemma New_fields:
  "New uuid oerr cfg reg = Ret (Inr wk) \<Longrightarrow>
     make_chan (wrap64 (2 * (if wc_Concurrency cfg \<le> 0 then 4 else wc_Concurrency cfg))) = Ret (wk_taskCh wk) \<and>
     wk_dlq wk = NewDeadLetterQueue 1000"
  by (auto simp: New_def Let_def mult.commute split: option.splits if_splits)

lemma New_Inr:
  assumes "New uuid setup cfg reg = Ret (Inr wk)" "in_int64 (wc_Concurrency cfg)"
  shows "worker_inv cfg wk [] []"
proof -
  have "wrap64 (2 * c) = 2 * c \<or> wrap64 (2 * c) < 0" if "0 < c" "in_int64 c" for c
  proof (cases "c < 2 ^ 62")
    case False
    then have "wrap64 (2 * c) = 2 * c - 2 ^ 64"
      using that minus_mod_self2 [of "2 * c + 2 ^ 63" "2 ^ 64 :: int", symmetric]
      by (simp add: wrap64_def in_int64_def max_int64_def)
    then show ?thesis using that by (simp add: in_int64_def max_int64_def)
  qed (use that in \<open>simp add: wrap64_id in_int64_def min_int64_def max_int64_def\<close>)
  moreover have "in_int64 4" by (simp add: in_int64_def min_int64_def max_int64_def)
  moreover define n where "n = (if wc_Concurrency cfg \<le> 0 then 4 else wc_Concurrency cfg)"
  ultimately have "wrap64 (2 * n) = 2 * n \<or> wrap64 (2 * n) < 0" "0 < n" using assms(2) by auto
  moreover have "make_chan (wrap64 (2 * n)) = Ret (wk_taskCh wk)" "wk_dlq wk = NewDeadLetterQueue 1000"
    using New_fields [OF assms(1)] by (simp_all add: n_def)
  ultimately have "wk_taskCh wk = \<lparr>ch_buf = [], ch_cap = 2 * n\<rparr> \<and> 0 < n"
    by (auto simp: make_chan_def split: if_splits)
  then show ?thesis using \<open>wk_dlq wk = _\<close>
    by (simp add: worker_inv_def chan_ok_def n_def NewDeadLetterQueue_def dlq_inv_def)
qed

lemma Push_inv: "dlq_inv q \<Longrightarrow> Push now e q = Ret q' \<Longrightarrow> dlq_inv q' \<and> maxSize q' = maxSize q"
  by (auto simp: Push_def Let_def dlq_inv_def split: if_splits list.splits)

lemma worker_life_inv:
  assumes "worker_life ops oob cfg wk acc tkn" "in_int64 (wc_Concurrency cfg)"
  shows "worker_inv cfg wk acc tkn"
  using assms
proof (induction rule: worker_life.induct)
  case (new uuid oerr reg wk)
  then show ?case by (rule New_Inr)
next
  case (accept wk acc tkn ti wk')
  then have i: "worker_inv cfg wk acc tkn" by simp
  obtain ch where ch: "try_send ti (wk_taskCh wk) = Some ch" "wk' = wk\<lparr>wk_taskCh := ch\<rparr>"
    using accept.hyps(2) by (auto simp: worker_Submit_def split: option.splits)
  have "ch_buf ch = ch_buf (wk_taskCh wk) @ [ti]" "chan_ok ch" "ch_cap ch = ch_cap (wk_taskCh wk)"
    using channel.offer_items [OF _ ch(1)] i ch(1) by (auto simp: worker_inv_def try_send_def split: if_splits)
  then show ?case using i ch(2) by (simp add: worker_inv_def)
next
  case (refuse wk acc tkn ti e wk')
  then show ?case by (auto simp: worker_Submit_def split: option.splits)
next
  case (iterate wk acc tkn ti ch w s x ti' wk' s' x')
  then have i: "worker_inv cfg wk acc tkn" by simp
  have ch: "ch_buf (wk_taskCh wk) = ti # ch_buf ch" "ch_cap ch = ch_cap (wk_taskCh wk)"
    using iterate.hyps(2) by (auto simp: receive_def split: list.splits)
  then have j: "worker_inv cfg (wk\<lparr>wk_taskCh := ch\<rparr>) acc (tkn @ [ti])"
    using i by (auto simp: worker_inv_def chan_ok_def)
  show ?case using executeTask_worker [OF iterate.hyps(3)] j by (auto simp: worker_inv_def dest: Push_inv)
next
  case (stop wk acc tkn wk')
  then show ?case by (auto simp: worker_Stop_def worker_inv_def split: if_splits)
qed

text \<open>
  Whatever is submitted to a worker and however its goroutines take turns: the instances that it
  accepted are, in this order, those that were taken out and executed, followed by those that wait. No
  more than twice the concurrency wait (8 by default), and the dead letter queue holds at most 1000.
\<close>

theorem worker_fifo:
  assumes "worker_life ops oob cfg wk acc tkn" and "in_int64 (wc_Concurrency cfg)"
  shows "acc = tkn @ ch_buf (wk_taskCh wk) \<and>
    int (length (ch_buf (wk_taskCh wk))) \<le> 2 * (if wc_Concurrency cfg \<le> 0 then 4 else wc_Concurrency cfg) \<and>
    length (entries (wk_dlq wk)) \<le> 1000"
  using worker_life_inv [OF assms] by (auto simp: worker_inv_def chan_ok_def dlq_inv_def)

section \<open>Dispatching\<close>

definition has_room :: "'x worker \<Rightarrow> bool" where
  "has_room w \<longleftrightarrow> int (length (ch_buf (wk_taskCh w))) < ch_cap (wk_taskCh w)"

definition enqueued :: "task_instance \<Rightarrow> 'x worker \<Rightarrow> 'x worker" where
  "enqueued ti w = w\<lparr>wk_taskCh := (wk_taskCh w)\<lparr>ch_buf := ch_buf (wk_taskCh w) @ [ti]\<rparr>\<rparr>"

lemma worker_Submit_cases:
  "has_room w \<Longrightarrow> worker_Submit ti w = (None, enqueued ti w)"
  "\<not> has_room w \<Longrightarrow> worker_Submit ti w = (Some (Err ''worker %s task queue full'' [FStr (wk_id w)]), w)"
  by (simp_all add: worker_Submit_def try_send_def has_room_def enqueued_def)

lemma dispatch_loop_full: "\<forall>w \<in> set ws. \<not> has_room w \<Longrightarrow> dispatch_loop ti ws = (False, ws)"
  by (induction ws) (auto simp: worker_Submit_cases)

lemma dispatch_loop_first:
  "\<forall>v \<in> set pre. \<not> has_room v \<Longrightarrow> has_room w \<Longrightarrow>
     dispatch_loop ti (pre @ w # post) = (True, pre @ enqueued ti w # post)"
  by (induction pre) (auto simp: worker_Submit_cases)

text \<open>
  \<open>Dispatch\<close> refuses an instance exactly when no worker of the pool has room, and then changes nothing;
  otherwise it appends the instance to the queue of the first worker that has room and to no other.
\<close>

theorem Dispatch_first_fit:
  "(fst (Dispatch ti p) \<noteq> None \<longleftrightarrow> (\<forall>w \<in> set (workers p). \<not> has_room w)) \<and>
   (fst (Dispatch ti p) \<noteq> None \<longrightarrow> snd (Dispatch ti p) = p) \<and>
   (\<forall>pre w post. workers p = pre @ w # post \<longrightarrow> (\<forall>v \<in> set pre. \<not> has_room v) \<longrightarrow> has_room w \<longrightarrow>
      Dispatch ti p = (None, p\<lparr>workers := pre @ enqueued ti w # post\<rparr>))"
proof -
  have full: "Dispatch ti p = (Some (if workers p = [] then Err ''no workers available'' []
        else Err ''all workers are busy'' []), p)" if "\<forall>w \<in> set (workers p). \<not> has_room w"
    using that dispatch_loop_full [of "workers p" ti] by (auto simp: Dispatch_def)
  have first: "Dispatch ti p = (None, p\<lparr>workers := pre @ enqueued ti w # post\<rparr>)"
    if "workers p = pre @ w # post" "\<forall>v \<in> set pre. \<not> has_room v" "has_room w" for pre w post
    using that dispatch_loop_first [OF that(2,3), of ti post] by (auto simp: Dispatch_def)
  show ?thesis
  proof (cases "\<forall>w \<in> set (workers p). \<not> has_room w")
    case True
    then show ?thesis using full by auto
  next
    case False
    then obtain pre w post where "workers p = pre @ w # post" "has_room w" "\<forall>v \<in> set pre. \<not> has_room v"
      using split_list_first_prop [of "workers p" has_room] by auto
    then show ?thesis using first False by auto
  qed
qed

section \<open>Examples\<close>

text \<open>An executor that fails twice and then succeeds; its state counts the calls.\<close>

definition flaky :: "nat executor" where
  "flaky = \<lparr>ex_Type = ''shell'', ex_Validate = (\<lambda>t. None),
     ex_Execute = (\<lambda>t p n. Ret ((Some ((new_result 0)\<lparr>res_Status :=
       (if n < 2 then StatusFailed else StatusSuccess)\<rparr>), None), n + 1)),
     ex_Cancel = (\<lambda>i n. (None, n))\<rparr>"

definition worker_task :: "string \<Rightarrow> string \<Rightarrow> int \<Rightarrow> task" where
  "worker_task i ex n = (plain_task i [])\<lparr>Executor := ex,
     RetryPolicy := Some (DefaultRetryPolicy\<lparr>MaxRetries := n\<rparr>)\<rparr>"

definition worker_dag :: dag where
  "worker_dag = (NewDAG 0 ''demo'' ''Demo'')\<lparr>Tasks := fmap_of_list
     [(''a'', worker_task ''a'' ''shell'' 3), (''b'', worker_task ''b'' ''other'' 3),
      (''c'', worker_task ''c'' ''shell'' (- 1))]\<rparr>"

definition queued_instance :: "string \<Rightarrow> task_instance" where
  "queued_instance i = \<lparr>ti_ID = i, ti_RunID = ''r'', ti_TaskID = i, ti_DAGID = ''demo'',
     ti_Status = StatusQueued, Attempt = 1, WorkerID = '''', ti_Output = '''', ti_Error = '''',
     ti_StartTime = 0, ti_EndTime = 0, QueuedAt = 1, IdempotencyKey = ''''\<rparr>"

definition worker_store :: memory_store where
  "worker_store = NewMemoryStore\<lparr>dags := fmap_of_list [(''demo'', worker_dag)],
     taskInstances := fmap_of_list (map (\<lambda>i. (i, queued_instance i)) [''a'', ''b'', ''c''])\<rparr>"

definition sample_config :: worker_config where
  "sample_config = \<lparr>wc_ID = ''w1'', wc_ServerAddr = '''', wc_Concurrency = 0, wc_HeartbeatInterval = 0\<rparr>"

definition sample_worker :: "nat worker" where
  "sample_worker = (case New '''' None sample_config (Register flaky NewRegistry) of
     Ret (Inr w) \<Rightarrow> w | _ \<Rightarrow> undefined)"

definition calm_world :: exec_world where
  "calm_world = \<lparr>ew_start = 10, ew_end = 20, ew_rand = (\<lambda>_. Fin 0), ew_done = (\<lambda>_ _. False), ew_push = 21\<rparr>"

lemma sample_worker_new: "New '''' None sample_config (Register flaky NewRegistry) = Ret (Inr sample_worker)"
  by (simp add: sample_worker_def New_def sample_config_def make_chan_def wrap64_def)

lemma sample_worker_simps:
  "wk_registry sample_worker = Register flaky NewRegistry" "dlq_inv (wk_dlq sample_worker)"
  "has_room sample_worker" "has_room (enqueued ti sample_worker)"
proof -
  have "\<exists>c i. \<lparr>wk_config = c, wk_id = i,
      wk_registry = Register flaky NewRegistry, wk_dlq = NewDeadLetterQueue 1000, wk_stopped = False,
      wk_taskCh = \<lparr>ch_buf = [], ch_cap = 8\<rparr>\<rparr> = sample_worker"
    using sample_worker_new by (auto simp: New_def sample_config_def make_chan_def wrap64_def)
  then obtain c i where e: "sample_worker = \<lparr>wk_config = c, wk_id = i,
      wk_registry = Register flaky NewRegistry, wk_dlq = NewDeadLetterQueue 1000, wk_stopped = False,
      wk_taskCh = \<lparr>ch_buf = [], ch_cap = 8\<rparr>\<rparr>" by metis
  show "wk_registry sample_worker = Register flaky NewRegistry" "dlq_inv (wk_dlq sample_worker)"
    "has_room sample_worker" "has_room (enqueued ti sample_worker)"
    unfolding e by (simp_all add: NewDeadLetterQueue_def dlq_inv_def has_room_def enqueued_def)
qed

lemma worker_store_ok: "mem_inv plain_mem worker_store"
proof -
  have "store_wf worker_store" by code_simp
  then show ?thesis by (simp add: mem_inv_def)
qed

lemma worker_lookups:
  "executor_of (dags worker_store) (wk_registry sample_worker) (queued_instance ''a'') =
     Some (worker_task ''a'' ''shell'' 3, flaky)"
  "executor_of (dags worker_store) (wk_registry sample_worker) (queued_instance ''b'') = None"
  "executor_of (dags worker_store) (wk_registry sample_worker) (queued_instance ''c'') =
     Some (worker_task ''c'' ''shell'' (- 1), flaky)"
  "fmlookup (taskInstances worker_store) (ti_ID (queued_instance ''a'')) \<noteq> None"
  "fmlookup (taskInstances worker_store) (ti_ID (queued_instance ''b'')) = Some (queued_instance ''b'')"
  "fmlookup (taskInstances worker_store) (ti_ID (queued_instance ''c'')) \<noteq> None"
  by (simp_all add: sample_worker_simps executor_of_def worker_store_def worker_dag_def worker_task_def
      queued_instance_def NewDAG_def NewMemoryStore_def Register_def NewRegistry_def flaky_def plain_task_def)

lemma worker_task_simps [simp]:
  "RetryPolicy (worker_task i ex n) = Some (DefaultRetryPolicy\<lparr>MaxRetries := n\<rparr>)"
  by (simp add: worker_task_def)

text \<open>The third attempt succeeds, and the dead letter queue stays empty.\<close>

lemma executeTask_correct_witness:
  "\<exists>q s' ti'. executeTask (memory_ops plain_mem) (\<lambda>_. 0) calm_world (queued_instance ''a'')
       (sample_worker, worker_store, 0) = Ret (ti', sample_worker\<lparr>wk_dlq := q\<rparr>, s', 3) \<and>
     ti' = queued_instance ''a''\<lparr>ti_Status := StatusSuccess, WorkerID := wk_id sample_worker, Attempt := 3,
       ti_StartTime := ew_start calm_world, ti_EndTime := ew_end calm_world\<rparr> \<and> q = wk_dlq sample_worker"
proof -
  have "returns flaky t" for t by (simp add: returns_def flaky_def)
  moreover have m: "max_attempts (RetryPolicy (worker_task ''a'' ''shell'' 3)) = 4"
    by (simp add: max_attempts_def wrap64_def)
  moreover have "\<forall>k dl. \<not> ew_done calm_world k dl" by (simp add: calm_world_def)
  ultimately obtain rs x' ti' q s' where r:
    "executeTask (memory_ops plain_mem) (\<lambda>_. 0) calm_world (queued_instance ''a'')
       (sample_worker, worker_store, 0) = Ret (ti', sample_worker\<lparr>wk_dlq := q\<rparr>, s', x')"
    "retried flaky (worker_task ''a'' ''shell'' 3) 4 0 rs x'"
    "ti' = queued_instance ''a''\<lparr>ti_Status := final_status (last rs), WorkerID := wk_id sample_worker,
       Attempt := (if length rs = 1 then Attempt (queued_instance ''a'') else int (length rs)),
       ti_Output := last_output (last rs) (ti_Output (queued_instance ''a'')),
       ti_Error := last_error (last rs) (ti_Error (queued_instance ''a'')),
       ti_StartTime := ew_start calm_world, ti_EndTime := ew_end calm_world\<rparr>"
    "final_status (last rs) \<noteq> StatusFailed \<Longrightarrow> q = wk_dlq sample_worker"
    using executeTask_correct [OF worker_store_ok worker_lookups(4,1), of calm_world "\<lambda>_. 0" 0]
      sample_worker_simps(2) by auto
  have rs: "length rs = 1 \<or> length rs = 2 \<or> length rs = 3 \<or> length rs = 4"
  proof -
    have "rs \<noteq> []" "int (length rs) \<le> 4" using r(2) by (simp_all add: retried_def)
    then have "0 < length rs" "length rs \<le> 4" by auto
    then show ?thesis by linarith
  qed
  then have "length rs = 3 \<and> x' = 3 \<and> last rs = (Some ((new_result 0)\<lparr>res_Status := StatusSuccess\<rparr>), None)"
    using r(2) by (auto simp: retried_def flaky_def length_Suc_conv numeral_eq_Suc split: if_splits)
  then show ?thesis using r
    by (intro exI [of _ q] exI [of _ s'] exI [of _ ti'])
       (simp add: last_output_def last_error_def new_result_def, simp add: queued_instance_def)
qed

lemma executeTask_rejects_witness:
  "\<exists>ti' s'. executeTask (memory_ops plain_mem) (\<lambda>_. 0) calm_world (queued_instance ''b'')
       (sample_worker, worker_store, 0) = Ret (ti', sample_worker, s', 0) \<and> ti_Status ti' = StatusFailed"
  using executeTask_rejects [OF worker_store_ok worker_lookups(2), of "\<lambda>_. 0" calm_world 0] worker_lookups(5)
  by auto

lemma executeTask_no_attempts_witness:
  "\<exists>ti' s'. executeTask (memory_ops plain_mem) (\<lambda>_. 0) calm_world (queued_instance ''c'')
       (sample_worker, worker_store, 0) = Ret (ti', sample_worker, s', 0) \<and> ti_Status ti' = StatusRunning"
  using executeTask_no_attempts [OF worker_store_ok worker_lookups(6,3), of _ "\<lambda>_. 0" calm_world 0]
    sample_worker_simps(2) by (auto simp: in_int64_def min_int64_def max_int64_def)

lemma worker_fifo_witness:
  "\<exists>wk :: nat worker. worker_life (memory_ops plain_mem) (\<lambda>_. 0) sample_config wk
       [queued_instance ''a'', queued_instance ''b''] [] \<and>
     [queued_instance ''a'', queued_instance ''b''] = [] @ ch_buf (wk_taskCh wk)"
proof -
  let ?w = "enqueued (queued_instance ''b'') (enqueued (queued_instance ''a'') sample_worker)"
  have "worker_life (memory_ops plain_mem) (\<lambda>_. 0) sample_config ?w ([] @ [queued_instance ''a''] @ [queued_instance ''b'']) []"
    unfolding append_assoc [symmetric]
    by (rule worker_life.accept, rule worker_life.accept, rule worker_life.new, rule sample_worker_new)
       (rule worker_Submit_cases sample_worker_simps)+
  then show ?thesis
    using worker_fifo [of "memory_ops plain_mem" "\<lambda>_. 0" sample_config ?w _ "[]"]
    by (intro exI [of _ ?w]) (simp add: sample_config_def in_int64_def min_int64_def max_int64_def)
qed

text \<open>Two instances in a row go to the same worker: the second worker of the pool stays idle.\<close>

lemma Dispatch_first_fit_witness:
  "workers (snd (Dispatch (queued_instance ''b'') (snd (Dispatch (queued_instance ''a'')
       \<lparr>workers = [sample_worker, sample_worker]\<rparr>)))) =
     [enqueued (queued_instance ''b'') (enqueued (queued_instance ''a'') sample_worker), sample_worker]"
proof -
  have "Dispatch ti \<lparr>workers = w # ws\<rparr> = (None, \<lparr>workers = enqueued ti w # ws\<rparr>)" if "has_room w" for ti ws and w :: "nat worker"
    using Dispatch_first_fit [of ti "\<lparr>workers = w # ws\<rparr>"] that by (metis append_Nil empty_iff list.set(1) pool.select_convs(1) pool.update_convs(1))
  then show ?thesis using sample_worker_simps by simp
qed

end
