(* ===== verification/Server.thy ===== *)
theory Server
  imports Scheduler Exec_Docker Worker
begin

text \<open>
  \<^verbatim>\<open>internal/server/server.go\<close>: the set-up of a server, the choice of its store, the HTTP handlers over
  an arbitrary store, and the shutdown. \<^verbatim>\<open>Service\<close> adds \<open>Start\<close> and the services that run.
\<close>

section \<open>Set-up\<close>

record server_config =
  GRPCAddr :: string
  HTTPAddr :: string
  MetricsAddr :: string
  srv_DataDir :: string
  StoreDSN :: string

text \<open>The store behind the interface: in memory, or the connection \<open>'p\<close> to PostgreSQL.\<close>

record ('p, 'x) server =
  srv_config :: server_config
  srv_scheduler :: sched
  srv_store :: "memory_store + 'p"
  srv_registry :: "'x registry"

definition choose_store ::
  "(string \<Rightarrow> int \<Rightarrow> err + 'p) \<Rightarrow> ('p \<Rightarrow> err option) \<Rightarrow> string \<Rightarrow> err + (memory_store + 'p)" where
  "choose_store connect migrate dsn =
     (if dsn \<noteq> []
      then (case connect dsn 20 of
              Inl e \<Rightarrow> Inr (Inl NewMemoryStore)
            | Inr pg \<Rightarrow>
                (case migrate pg of
                   Some e \<Rightarrow> Inl (Err ''migrate database: %w'' [FErr e])
                 | None \<Rightarrow> Inr (Inr pg)))
      else Inr (Inl NewMemoryStore))"

definition server_New ::
  "err option \<Rightarrow> (string \<Rightarrow> int \<Rightarrow> err + 'p) \<Rightarrow> ('p \<Rightarrow> err option) \<Rightarrow> 'x registry \<Rightarrow> server_config \<Rightarrow>
     err + ('p, 'x) server" where
  "server_New obs connect migrate reg cfg =
     (case obs of
        Some e \<Rightarrow> Inl (Err ''setup observability: %w'' [FErr e])
      | None \<Rightarrow>
          (case choose_store connect migrate (StoreDSN cfg) of
             Inl e \<Rightarrow> Inl e
           | Inr st \<Rightarrow> Inr \<lparr>srv_config = cfg, srv_scheduler = NewFIFOScheduler (5 * 1000000000),
                            srv_store = st, srv_registry = reg\<rparr>))"

text \<open>
  \<open>Shutdown\<close> stops the scheduler (whose second stop panics) and drops the errors of everything else
  that it stops or closes.
\<close>

definition Shutdown :: "('p, 'x) server \<Rightarrow> (err option \<times> ('p, 'x) server) outcome" where
  "Shutdown srv =
     bind_outcome (Stop (srv_scheduler srv)) (\<lambda>sch. Ret (None, srv\<lparr>srv_scheduler := sch\<rparr>))"

section \<open>Handlers\<close>

record http_reply =
  re_status :: int
  re_type :: string
  re_body :: string

text \<open>\<^verbatim>\<open>http.Error\<close>\<close>

definition http_Error :: "string \<Rightarrow> int \<Rightarrow> http_reply" where
  "http_Error msg code =
     \<lparr>re_status = code, re_type = ''text/plain; charset=utf-8'', re_body = msg @ [char_of (10 :: nat)]\<rparr>"

definition json_reply :: "string \<Rightarrow> http_reply" where
  "json_reply body = \<lparr>re_status = 200, re_type = ''application/json'', re_body = body\<rparr>"

definition status_json :: "string \<Rightarrow> string" where
  "status_json s = json_object [(''status'', json_string s)]"

definition handleHealthz :: "http_reply" where
  "handleHealthz = json_reply (status_json ''healthy'')"

definition handleReadyz :: "'s store_ops \<Rightarrow> 's \<Rightarrow> http_reply" where
  "handleReadyz ops s =
     (case op_Ping ops s of
        Some e \<Rightarrow> http_Error (status_json ''not ready'') 503
      | None \<Rightarrow> json_reply (status_json ''ready''))"

definition count_json :: "nat \<Rightarrow> string" where
  "count_json n = json_object [(''count'', nat_dec n)]"

definition handleDAGs :: "'s store_ops \<Rightarrow> string \<Rightarrow> 's \<Rightarrow> http_reply" where
  "handleDAGs ops meth s =
     (if meth = ''GET''
      then (case op_ListDAGs ops \<lparr>df_Tags = [], df_Owner = '''', df_Limit = 100\<rparr> s of
              Inl e \<Rightarrow> http_Error (err_Error e) 500
            | Inr ds \<Rightarrow> json_reply (count_json (length ds)))
      else http_Error ''method not allowed'' 405)"

definition handleRuns :: "'s store_ops \<Rightarrow> string \<Rightarrow> 's \<Rightarrow> http_reply" where
  "handleRuns ops meth s =
     (if meth = ''GET''
      then (case op_ListRuns ops \<lparr>rf_DAGID = '''', rf_Status = None, rf_Limit = 100, rf_Offset = 0\<rparr> s of
              Inl e \<Rightarrow> http_Error (err_Error e) 500
            | Inr rs \<Rightarrow> json_reply (count_json (length rs)))
      else http_Error ''method not allowed'' 405)"

text \<open>The multiplexer that \<open>Start\<close> builds: four exact paths, and the library's answer to any other.\<close>

definition serve :: "'s store_ops \<Rightarrow> string \<Rightarrow> string \<Rightarrow> 's \<Rightarrow> http_reply" where
  "serve ops path meth s =
     (if path = ''/healthz'' then handleHealthz
      else if path = ''/readyz'' then handleReadyz ops s
      else if path = ''/api/v1/dags'' then handleDAGs ops meth s
      else if path = ''/api/v1/runs'' then handleRuns ops meth s
      else http_Error ''404 page not found'' 404)"

text \<open>
  The interceptor of the gRPC server, between the times at which the handler begins and ends: the answer of
  the handler, and the method, the duration and the error that are logged.
\<close>

definition loggingInterceptor ::
  "time \<Rightarrow> time \<Rightarrow> string \<Rightarrow> ('q \<Rightarrow> 'a \<times> err option) \<Rightarrow> 'q \<Rightarrow>
     ('a \<times> err option) \<times> string \<times> duration \<times> err option" where
  "loggingInterceptor began ended meth handler req =
     (let (resp, er) = handler req; took = wrap64 (ended - began)
      in ((resp, er), meth, took, er))"

section \<open>What the service tells\<close>

lemma length_limit_to: "length (limit_to 100 xs) = min 100 (length xs)"
  by (simp add: limit_to_def)

lemma length_filed: "ranges ord m \<Longrightarrow> length (List.map_filter (fmlookup m) ord) = map_len m"
  using in_ranges_iff [of ord m] length_ranges [of ord m] by (simp add: List.map_filter_def)

lemma length_ListDAGs:
  "ranges ord (dags s) \<Longrightarrow>
     \<exists>ds. ListDAGs ord \<lparr>df_Tags = [], df_Owner = '''', df_Limit = 100\<rparr> s = Inr ds \<and> length ds = min 100 (map_len (dags s))"
  using length_filed [of ord "dags s"]
  by (simp add: ListDAGs_def dag_passes_def length_limit_to cong: filter_cong)

lemma length_ListRuns:
  "ranges ord (runs s) \<Longrightarrow>
     \<exists>rs. ListRuns ord \<lparr>rf_DAGID = '''', rf_Status = None, rf_Limit = 100, rf_Offset = 0\<rparr> s = Inr rs \<and>
       length rs = min 100 (map_len (runs s))"
  using length_filed [of ord "runs s"]
  by (simp add: ListRuns_def run_passes_def offset_by_def length_limit_to cong: filter_cong)

text \<open>
  A server over the in-memory store is always ready, and its two listings answer a GET with the
  number of DAGs or runs in the store, but never with more than 100: the number is that of one page.
  Any other method is refused, any other path is unknown, and no request changes the store.
\<close>

theorem serve_correct:
  assumes "mem_inv mw s"
  shows "serve (memory_ops mw) path meth s =
    (if path = ''/healthz'' then json_reply (status_json ''healthy'')
     else if path = ''/readyz'' then json_reply (status_json ''ready'')
     else if path \<in> {''/api/v1/dags'', ''/api/v1/runs''} \<and> meth \<noteq> ''GET''
     then http_Error ''method not allowed'' 405
     else if path = ''/api/v1/dags'' then json_reply (count_json (min 100 (map_len (dags s))))
     else if path = ''/api/v1/runs'' then json_reply (count_json (min 100 (map_len (runs s))))
     else http_Error ''404 page not found'' 404)"
proof -
  have orders: "ranges (mw_dags mw s) (dags s)" "ranges (mw_runs mw s) (runs s)"
    using assms by (simp_all add: mem_inv_def mem_world_ok_def)
  obtain ds where ds: "ListDAGs (mw_dags mw s) \<lparr>df_Tags = [], df_Owner = '''', df_Limit = 100\<rparr> s = Inr ds"
    "length ds = min 100 (map_len (dags s))" using length_ListDAGs [OF orders(1)] by blast
  obtain rs where rs:
    "ListRuns (mw_runs mw s) \<lparr>rf_DAGID = '''', rf_Status = None, rf_Limit = 100, rf_Offset = 0\<rparr> s = Inr rs"
    "length rs = min 100 (map_len (runs s))" using length_ListRuns [OF orders(2)] by blast
  have "handleDAGs (memory_ops mw) meth s =
      (if meth = ''GET'' then json_reply (count_json (min 100 (map_len (dags s))))
       else http_Error ''method not allowed'' 405)"
    using ds by (simp add: handleDAGs_def memory_ops_def)
  moreover have "handleRuns (memory_ops mw) meth s =
      (if meth = ''GET'' then json_reply (count_json (min 100 (map_len (runs s))))
       else http_Error ''method not allowed'' 405)"
    using rs by (simp add: handleRuns_def memory_ops_def)
  moreover have "handleReadyz (memory_ops mw) s = json_reply (status_json ''ready'')"
    by (simp add: handleReadyz_def memory_ops_def Ping_def)
  ultimately show ?thesis unfolding serve_def handleHealthz_def
    by (cases "meth = ''GET''") (simp_all split: if_split)
qed

lemma serve_correct_witness:
  "serve (memory_ops plain_mem) ''/api/v1/dags'' ''GET'' worker_store = json_reply (count_json 1) \<and>
   serve (memory_ops plain_mem) ''/api/v1/runs'' ''POST'' worker_store = http_Error ''method not allowed'' 405"
proof -
  have "map_len (dags worker_store) = 1" by code_simp
  then show ?thesis
    using serve_correct [OF worker_store_ok, of "''/api/v1/dags''" "''GET''"]
      serve_correct [OF worker_store_ok, of "''/api/v1/runs''" "''POST''"] by simp
qed

end
