(* ===== verification/Observability.thy ===== *)
theory Observability
  imports Prelude
begin

text \<open>
  \<^verbatim>\<open>pkg/observability/observability.go\<close>: the set-up of logging, tracing and metrics, their shutdown,
  and the instruments. The libraries are arguments: the calls that can fail give an error or a value of an
  arbitrary type, and a provider is modelled by what it was built from. What stays open after a failed set-up
  or shutdown is part of the result.
\<close>

section \<open>Setup\<close>

record obs_config =
  ServiceName :: string
  ServiceVersion :: string
  OTLPEndpoint :: string
  LogLevel :: int \<comment> \<open>\<^verbatim>\<open>slog.Level\<close>\<close>
  EnableTracing :: bool
  EnableMetrics :: bool

text \<open>
  A tracer provider exports what it samples in batches, or samples nothing; a meter provider has a
  reader or none.
\<close>

datatype ('r, 'e) tracer_provider = AlwaysSample 'r 'e duration | NeverSample 'r

datatype ('r, 'q) meter_provider = WithReader 'r 'q | NoReader 'r

text \<open>The providers that \<^verbatim>\<open>otel\<close> keeps for the process.\<close>

record ('r, 'e, 'q) globals =
  global_tracer :: "('r, 'e) tracer_provider option"
  global_meter :: "('r, 'q) meter_provider option"

text \<open>
  \<open>Tracer\<close> and \<open>Meter\<close> are taken by name from the providers of the process; \<open>Logger\<close> is the level and
  whether the position in the source is added. Every provider has a fresh \<^verbatim>\<open>Registry\<close>, which is a part
  of its reader here.
\<close>

record ('r, 'e, 'q) provider =
  TracerProvider :: "('r, 'e) tracer_provider option"
  MeterProvider :: "('r, 'q) meter_provider option"
  Logger :: "int \<times> bool"
  Tracer :: "string \<times> ('r, 'e) tracer_provider option"
  Meter :: "string \<times> ('r, 'q) meter_provider option"

record ('r, 'e, 'q) telemetry =
  tl_resource :: "string \<Rightarrow> string \<Rightarrow> err + 'r"
  tl_exporter :: "string \<Rightarrow> err + 'e"
  tl_prometheus :: "err + 'q"

definition obs_defaults :: "obs_config \<Rightarrow> obs_config" where
  "obs_defaults cfg =
     (let cfg = (if ServiceName cfg = '''' then cfg\<lparr>ServiceName := ''sparkflow''\<rparr> else cfg);
          cfg = (if ServiceVersion cfg = '''' then cfg\<lparr>ServiceVersion := ''dev''\<rparr> else cfg)
      in cfg)"

definition setup_tracing ::
  "('r, 'e, 'q) telemetry \<Rightarrow> obs_config \<Rightarrow> 'r \<Rightarrow> err + ('r, 'e) tracer_provider" where
  "setup_tracing lib cfg res =
     (if EnableTracing cfg \<and> OTLPEndpoint cfg \<noteq> ''''
      then (case tl_exporter lib (OTLPEndpoint cfg) of
              Inl e \<Rightarrow> Inl (Err ''create OTLP trace exporter: %w'' [FErr e])
            | Inr ex \<Rightarrow> Inr (AlwaysSample res ex (5 * 1000000000)))
      else Inr (NeverSample res))"

definition setup_metrics ::
  "('r, 'e, 'q) telemetry \<Rightarrow> obs_config \<Rightarrow> 'r \<Rightarrow> err + ('r, 'q) meter_provider" where
  "setup_metrics lib cfg res =
     (if EnableMetrics cfg
      then (case tl_prometheus lib of
              Inl e \<Rightarrow> Inl (Err ''create prometheus exporter: %w'' [FErr e])
            | Inr q \<Rightarrow> Inr (WithReader res q))
      else Inr (NoReader res))"

definition Setup ::
  "('r, 'e, 'q) telemetry \<Rightarrow> obs_config \<Rightarrow> ('r, 'e, 'q) globals \<Rightarrow>
     (err + ('r, 'e, 'q) provider) \<times> ('r, 'e, 'q) globals" where
  "Setup lib cfg g =
     (let cfg = obs_defaults cfg in
      case tl_resource lib (ServiceName cfg) (ServiceVersion cfg) of
        Inl e \<Rightarrow> (Inl (Err ''create resource: %w'' [FErr e]), g)
      | Inr res \<Rightarrow>
          (case setup_tracing lib cfg res of
             Inl e \<Rightarrow> (Inl e, g)
           | Inr tp \<Rightarrow>
               (let g = g\<lparr>global_tracer := Some tp\<rparr>;
                    tracer = (ServiceName cfg, global_tracer g)
                in case setup_metrics lib cfg res of
                     Inl e \<Rightarrow> (Inl e, g)
                   | Inr mp \<Rightarrow>
                       (let g = g\<lparr>global_meter := Some mp\<rparr>
                        in (Inr \<lparr>TracerProvider = Some tp, MeterProvider = Some mp,
                               Logger = (LogLevel cfg, True), Tracer = tracer,
                               Meter = (ServiceName cfg, global_meter g)\<rparr>, g)))))"

section \<open>Shutdown\<close>

text \<open>The providers that were shut down, in order; \<open>down\<close> gives the errors of their shutdown.\<close>

datatype signal_kind = Traces | Measurements

definition provider_Shutdown ::
  "(signal_kind \<Rightarrow> err option) \<Rightarrow> ('r, 'e, 'q) provider \<Rightarrow> err option \<times> signal_kind list" where
  "provider_Shutdown down p =
     (let (er, ended) =
        (if TracerProvider p \<noteq> None
         then (case down Traces of
                 Some e \<Rightarrow> (Some (Err ''shutdown tracer provider: %w'' [FErr e]), [])
               | None \<Rightarrow> (None, [Traces]))
         else (None, []))
      in if er \<noteq> None then (er, ended)
         else if MeterProvider p \<noteq> None
         then (case down Measurements of
                 Some e \<Rightarrow> (Some (Err ''shutdown meter provider: %w'' [FErr e]), ended)
               | None \<Rightarrow> (None, ended @ [Measurements]))
         else (None, ended))"

section \<open>Instruments\<close>

datatype instrument = Int64Counter | Float64Histogram | Int64UpDownCounter

record 'i metrics =
  TasksScheduled :: 'i
  TasksCompleted :: 'i
  TasksFailed :: 'i
  TaskDuration :: 'i
  DAGRunsStarted :: 'i
  DAGRunsCompleted :: 'i
  ActiveWorkers :: 'i
  QueueDepth :: 'i

text \<open>\<open>meter\<close> makes an instrument of a kind with a name and a description.\<close>

definition NewMetrics :: "(instrument \<Rightarrow> string \<Rightarrow> string \<Rightarrow> err + 'i) \<Rightarrow> err + 'i metrics" where
  "NewMetrics meter =
     (case meter Int64Counter ''sparkflow.tasks.scheduled'' ''Number of tasks scheduled for execution'' of
        Inl e \<Rightarrow> Inl e | Inr scheduled \<Rightarrow>
      (case meter Int64Counter ''sparkflow.tasks.completed'' ''Number of tasks completed successfully'' of
        Inl e \<Rightarrow> Inl e | Inr completed \<Rightarrow>
      (case meter Int64Counter ''sparkflow.tasks.failed'' ''Number of tasks that failed'' of
        Inl e \<Rightarrow> Inl e | Inr failed \<Rightarrow>
      (case meter Float64Histogram ''sparkflow.tasks.duration_ms'' ''Task execution duration in milliseconds'' of
        Inl e \<Rightarrow> Inl e | Inr took \<Rightarrow>
      (case meter Int64Counter ''sparkflow.dag_runs.started'' ''Number of DAG runs started'' of
        Inl e \<Rightarrow> Inl e | Inr begun \<Rightarrow>
      (case meter Int64Counter ''sparkflow.dag_runs.completed'' ''Number of DAG runs completed'' of
        Inl e \<Rightarrow> Inl e | Inr ended \<Rightarrow>
      (case meter Int64UpDownCounter ''sparkflow.workers.active'' ''Number of active workers'' of
        Inl e \<Rightarrow> Inl e | Inr active \<Rightarrow>
      (case meter Int64UpDownCounter ''sparkflow.queue.depth'' ''Number of tasks waiting in the queue'' of
        Inl e \<Rightarrow> Inl e | Inr depth \<Rightarrow>
          Inr \<lparr>TasksScheduled = scheduled, TasksCompleted = completed, TasksFailed = failed,
               TaskDuration = took, DAGRunsStarted = begun, DAGRunsCompleted = ended,
               ActiveWorkers = active, QueueDepth = depth\<rparr>))))))))"

section \<open>What a set-up leaves behind\<close>

text \<open>
  A set-up that fails may leave the tracer provider of the process replaced, with its exporter open,
  and nobody who could shut it down; one that succeeds hands out both providers of the process.
\<close>

lemma Setup_result:
  assumes "Setup lib cfg g = (r, g')"
  shows "case r of
      Inr p \<Rightarrow> TracerProvider p = global_tracer g' \<and> MeterProvider p = global_meter g' \<and>
        TracerProvider p \<noteq> None \<and> MeterProvider p \<noteq> None
    | Inl e \<Rightarrow> global_meter g' = global_meter g \<and>
        (global_tracer g' \<noteq> global_tracer g \<longrightarrow> EnableMetrics cfg \<and> \<not> is_ok (tl_prometheus lib))"
  using assms
  by (auto simp: Setup_def setup_metrics_def setup_tracing_def obs_defaults_def Let_def
      split: sum.splits if_splits)

text \<open>If the tracer provider cannot be shut down, the meter provider is not shut down either.\<close>

lemma provider_Shutdown_result:
  assumes "TracerProvider p \<noteq> None" "MeterProvider p \<noteq> None"
  shows "provider_Shutdown down p =
    (case down Traces of
       Some e \<Rightarrow> (Some (Err ''shutdown tracer provider: %w'' [FErr e]), [])
     | None \<Rightarrow> (case down Measurements of
                  Some e \<Rightarrow> (Some (Err ''shutdown meter provider: %w'' [FErr e]), [Traces])
                | None \<Rightarrow> (None, [Traces, Measurements])))"
  using assms by (simp add: provider_Shutdown_def split: option.split)

text \<open>The table of instruments, and \<open>NewMetrics\<close> as the first failure in it.\<close>

definition instruments :: "(instrument \<times> string \<times> string) list" where
  "instruments =
     [(Int64Counter, ''sparkflow.tasks.scheduled'', ''Number of tasks scheduled for execution''),
      (Int64Counter, ''sparkflow.tasks.completed'', ''Number of tasks completed successfully''),
      (Int64Counter, ''sparkflow.tasks.failed'', ''Number of tasks that failed''),
      (Float64Histogram, ''sparkflow.tasks.duration_ms'', ''Task execution duration in milliseconds''),
      (Int64Counter, ''sparkflow.dag_runs.started'', ''Number of DAG runs started''),
      (Int64Counter, ''sparkflow.dag_runs.completed'', ''Number of DAG runs completed''),
      (Int64UpDownCounter, ''sparkflow.workers.active'', ''Number of active workers''),
      (Int64UpDownCounter, ''sparkflow.queue.depth'', ''Number of tasks waiting in the queue'')]"

fun first_failure :: "(err + 'a) list \<Rightarrow> err option" where
  "first_failure [] = None"
| "first_failure (Inl e # rs) = Some e"
| "first_failure (Inr a # rs) = first_failure rs"

lemma instruments_distinct: "distinct (map (fst \<circ> snd) instruments)"
  by code_simp

lemma NewMetrics_result:
  "(case NewMetrics meter of Inl e \<Rightarrow> Some e | Inr m \<Rightarrow> None) =
     first_failure (map (\<lambda>(k, name, text). meter k name text) instruments)"
  by (simp add: NewMetrics_def instruments_def split: sum.split)

end
