(* ===== verification/Service.thy ===== *)
theory Service
  imports System Server Observability
begin

text \<open>
  What runs for as long as a server does: the loop that \<open>Start\<close> of \<^verbatim>\<open>pkg/scheduler/scheduler.go\<close> begins, and
  \<open>New\<close>, \<open>Start\<close> and \<open>Shutdown\<close> of \<^verbatim>\<open>internal/server/server.go\<close> with the services that they
  leave running. Listeners, the gRPC server and the shutdown of libraries are arguments.
\<close>

section \<open>The loop of the scheduler\<close>

text \<open>
  The choices of the \<^verbatim>\<open>select\<close>, one per iteration; a choice that is not ready is no choice. The result
  says whether the loop has returned.
\<close>

datatype 's loop_choice = CtxDone | StopClosed | TickerFires "'s store_ops" sched_world

fun schedule_loop :: "'s loop_choice list \<Rightarrow> sched \<times> 's \<Rightarrow> bool \<times> sched \<times> 's" where
  "schedule_loop [] st = (False, st)"
| "schedule_loop (CtxDone # cs) st = (True, st)"
| "schedule_loop (StopClosed # cs) st =
     (if stopClosed (fst st) then (True, st) else schedule_loop cs st)"
| "schedule_loop (TickerFires ops w # cs) st = schedule_loop cs (start_tick ops w st)"

text \<open>\<open>Start\<close> has no error; its goroutine panics on an interval that is not positive.\<close>

definition sched_Start :: "sched \<Rightarrow> err option" where
  "sched_Start sch = None"

definition sched_goroutine :: "'s loop_choice list \<Rightarrow> sched \<times> 's \<Rightarrow> (bool \<times> sched \<times> 's) outcome" where
  "sched_goroutine cs st = (if interval (fst st) \<le> 0 then Panic else Ret (schedule_loop cs st))"

section \<open>The services of a server\<close>

datatype service = CronLoop | SchedulerLoop | is_grpc: GrpcServer string | is_http: HttpServer string
  | MetricsServer string | Tele | StoreConn

text \<open>\<open>lv_grpc\<close> and \<open>lv_http\<close> say that the fields \<^verbatim>\<open>grpcServer\<close> and \<^verbatim>\<open>httpServer\<close> are set.\<close>

record ('p, 'x) live =
  lv_server :: "('p, 'x) server"
  lv_running :: "service list"
  lv_grpc :: bool
  lv_http :: bool

text \<open>With an error, the services that a failed \<open>New\<close> leaves open and nobody can close.\<close>

definition live_New ::
  "err option \<Rightarrow> (string \<Rightarrow> int \<Rightarrow> err + 'p) \<Rightarrow> ('p \<Rightarrow> err option) \<Rightarrow> 'x registry \<Rightarrow> server_config \<Rightarrow>
     (err \<times> service list) + ('p, 'x) live" where
  "live_New obs connect migrate reg cfg =
     (case server_New obs connect migrate reg cfg of
        Inl e \<Rightarrow> Inl (e, if obs = None then [Tele, StoreConn] else [])
      | Inr srv \<Rightarrow> Inr \<lparr>lv_server = srv, lv_running = [Tele, StoreConn], lv_grpc = False, lv_http = False\<rparr>)"

text \<open>
  \<open>listen\<close> is the error of listening for gRPC. The HTTP and the metrics server listen in goroutines
  of their own, which only log that they could not: \<open>bound\<close> says whether they could.
\<close>

definition live_Start ::
  "(string \<Rightarrow> err option) \<Rightarrow> (string \<Rightarrow> bool) \<Rightarrow> ('p, 'x) live \<Rightarrow> err option \<times> ('p, 'x) live" where
  "live_Start listen bound lv =
     (let cfg = srv_config (lv_server lv) in
      case sched_Start (srv_scheduler (lv_server lv)) of
        Some e \<Rightarrow> (Some (Err ''start scheduler: %w'' [FErr e]), lv)
      | None \<Rightarrow>
          (let lv = lv\<lparr>lv_running := lv_running lv @ [CronLoop, SchedulerLoop]\<rparr> in
           case listen (GRPCAddr cfg) of
             Some e \<Rightarrow> (Some (Err ''listen gRPC: %w'' [FErr e]), lv)
           | None \<Rightarrow>
               (let lv = lv\<lparr>lv_grpc := True, lv_running := lv_running lv @ [GrpcServer (GRPCAddr cfg)]\<rparr>;
                    lv = lv\<lparr>lv_http := True, lv_running := lv_running lv @
                          (if bound (HTTPAddr cfg) then [HttpServer (HTTPAddr cfg)] else [])\<rparr>;
                    lv = (if MetricsAddr cfg \<noteq> ''''
                          then lv\<lparr>lv_running := lv_running lv @
                                 (if bound (MetricsAddr cfg) then [MetricsServer (MetricsAddr cfg)] else [])\<rparr>
                          else lv)
                in (None, lv))))"

definition without :: "(service \<Rightarrow> bool) \<Rightarrow> ('p, 'x) live \<Rightarrow> ('p, 'x) live" where
  "without gone lv = lv\<lparr>lv_running := filter (\<lambda>s. \<not> gone s) (lv_running lv)\<rparr>"

text \<open>\<open>down\<close> gives the errors of shutting down tracing and metrics, which are dropped with all others.\<close>

definition live_Shutdown ::
  "(signal_kind \<Rightarrow> err option) \<Rightarrow> ('r, 'e, 'q) provider \<Rightarrow> ('p, 'x) live \<Rightarrow>
     (err option \<times> ('p, 'x) live) outcome" where
  "live_Shutdown down obs lv =
     bind_outcome (Shutdown (lv_server lv)) (\<lambda>(e, srv).
       let lv = without (\<lambda>s. s = CronLoop \<or> s = SchedulerLoop) (lv\<lparr>lv_server := srv\<rparr>);
           lv = (if lv_grpc lv then without is_grpc lv else lv);
           lv = (if lv_http lv then without is_http lv else lv);
           lv = (if fst (provider_Shutdown down obs) = None then without (\<lambda>s. s = Tele) lv else lv);
           lv = without (\<lambda>s. s = StoreConn) lv
       in Ret (e, lv))"

section \<open>A server makes no progress\<close>

fun choice_ok :: "memory_store loop_choice \<Rightarrow> bool" where
  "choice_ok (TickerFires ops w) \<longleftrightarrow> (\<exists>m. ops = memory_ops m \<and> mem_world_ok m) \<and> orders_ok w"
| "choice_ok c \<longleftrightarrow> True"

text \<open>What a tick leaves behind.\<close>

lemma tick_memory:
  assumes "store_wf s" "plan_in sch s" "mem_world_ok m" "orders_ok w"
  obtains sch' s' where "start_tick (memory_ops m) w (sch, s) = (sch', s')" "store_wf s'" "plan_in sch' s'"
    "taskInstances s' = fmmap (queue_due w (due_in sch s)) (taskInstances s)"
    "runs s' = fmmap (closed_run w (mw_now m) (known_dags sch s) (taskInstances s')) (runs s)"
proof -
  obtain ready sch' s' where S: "Schedule (memory_ops m) w (sch, s) = (Inr ready, sch', s')" "store_wf s'"
      "known_dags sch' s' = known_dags sch s"
      "taskInstances s' = fmmap (queue_due w (due_in sch s)) (taskInstances s)"
      "runs s' = fmmap (closed_run w (mw_now m) (known_dags sch s) (taskInstances s')) (runs s)"
    using Schedule_memory [OF assms(1,3,4,2)] by blast
  have tick: "start_tick (memory_ops m) w (sch, s) = (sch', s')" using S(1) by (simp add: start_tick_def)
  have "plan_in sch' s'" unfolding S(3,4,5) using assms(2) by (rule plan_ok_queue)
  from that [OF tick S(2) this S(4,5)] show ?thesis .
qed

lemma loop_after_tick:
  assumes "store_wf s" "plan_in sch s" "choice_ok (TickerFires (memory_ops m) w)" "mem_world_ok m"
    and "start_tick (memory_ops m) w (sch, s) = (sch1, s1)" "\<forall>c \<in> set cs. choice_ok c"
    and "schedule_loop cs (sch1, s1) = (e, sch', s')"
  shows "taskInstances s' = taskInstances s1 \<and> runs s' = runs s1"
  using assms
proof (induction cs arbitrary: sch s m w sch1 s1)
  case (Cons c cs)
  have w: "orders_ok w" using Cons.prems(3) by simp
  obtain sch0 s0 where t0: "start_tick (memory_ops m) w (sch, s) = (sch0, s0)" "store_wf s0" "plan_in sch0 s0"
    by (rule tick_memory [OF Cons.prems(1,2,4) w])
  then have st1: "store_wf s1" "plan_in sch1 s1" using Cons.prems(5) by simp_all
  show ?case
  proof (cases c)
    case (TickerFires ops w')
    then obtain m' where m': "ops = memory_ops m'" "mem_world_ok m'" "orders_ok w'" using Cons.prems(6) by auto
    obtain sch2 s2 where t2: "start_tick ops w' (sch1, s1) = (sch2, s2)" by fastforce
    have same: "taskInstances s2 = taskInstances s1" "runs s2 = runs s1"
      using Schedule_idempotent [OF Cons.prems(1,4) w Cons.prems(2) m'(2,3) Cons.prems(5)] t2 m'(1)
      by (auto simp: start_tick_def)
    have "choice_ok (TickerFires (memory_ops m') w')" using m' by auto
    from Cons.IH [OF st1 this m'(2) t2 [unfolded m'(1)]] Cons.prems(6,7) same t2 TickerFires
    show ?thesis by simp
  next
    case StopClosed
    then show ?thesis using Cons.IH [OF Cons.prems(1-5)] Cons.prems(6,7) by (auto split: if_splits)
  qed (use Cons.prems(7) in auto)
qed simp

text \<open>
  C17. The loop of the server's scheduler drops the instances that \<open>Schedule\<close> hands out, and the server has
  no worker: all that the ticks do, however many they are, is what the first one does. It queues the
  instances that are due, and a run with an instance that has not ended stays running for ever.
\<close>

theorem server_loop_stalls:
  assumes "store_wf s" and "plan_in sch s" and "mem_world_ok m" and "orders_ok w"
    and "\<forall>c \<in> set cs. choice_ok c"
    and "schedule_loop (TickerFires (memory_ops m) w # cs) (sch, s) = (e, sch', s')"
    and "fmlookup (runs s) rid = Some r" and "run_Status r = StatusRunning"
    and "fmlookup (taskInstances s) i = Some ti" and "ti_RunID ti = rid" and "\<not> IsTerminal (ti_Status ti)"
  shows "taskInstances s' = fmmap (queue_due w (due_in sch s)) (taskInstances s) \<and> fmlookup (runs s') rid = Some r"
proof -
  obtain sch1 s1 where t: "start_tick (memory_ops m) w (sch, s) = (sch1, s1)"
      "taskInstances s1 = fmmap (queue_due w (due_in sch s)) (taskInstances s)"
      "runs s1 = fmmap (closed_run w (mw_now m) (known_dags sch s) (taskInstances s1)) (runs s)"
    by (rule tick_memory [OF assms(1-4)])
  have "schedule_loop cs (sch1, s1) = (e, sch', s')" using assms(6) t(1) by simp
  then have same: "taskInstances s' = taskInstances s1" "runs s' = runs s1"
    using loop_after_tick [OF assms(1,2) _ assms(3) t(1) assms(5)] assms(3,4) by auto
  have "run_ID r = rid" using store_wfD(1) [OF assms(1,7)] .
  moreover have "\<not> all_terminal (taskInstances s1) rid"
  proof -
    have "fmlookup (taskInstances s1) i = Some (queue_due w (due_in sch s) ti)" using assms(9) by (simp add: t(2))
    moreover have "\<not> IsTerminal (ti_Status (queue_due w (due_in sch s) ti))"
      using assms(11) by (simp add: queue_due_def mark_queued_def)
    ultimately show ?thesis using assms(10) unfolding all_terminal_def by (metis queue_due_simps(2))
  qed
  ultimately show ?thesis using assms(7) t(2) same by (simp add: t(3) closed_run_def)
qed

section \<open>Start and Shutdown\<close>

lemma live_New_running:
  "live_New obs connect migrate reg cfg = Inr lv \<Longrightarrow>
     lv_running lv = [Tele, StoreConn] \<and> srv_config (lv_server lv) = cfg \<and>
     stopClosed (srv_scheduler (lv_server lv)) = False"
  by (auto simp: live_New_def server_New_def NewFIFOScheduler_def split: sum.splits option.splits if_splits)

lemma live_Shutdown_form:
  assumes "lv_grpc lv" "lv_http lv" "\<not> stopClosed (srv_scheduler (lv_server lv))"
  shows "live_Shutdown (\<lambda>_. None) p lv = Ret (None, lv\<lparr>
    lv_server := (lv_server lv)\<lparr>srv_scheduler := (srv_scheduler (lv_server lv))\<lparr>stopClosed := True\<rparr>\<rparr>,
    lv_running := filter (\<lambda>s. \<exists>addr. s = MetricsServer addr) (lv_running lv)\<rparr>)"
proof -
  have "fst (provider_Shutdown (\<lambda>_. None) p) = None"
    by (simp add: provider_Shutdown_def)
  moreover have "(s \<noteq> StoreConn \<and> s \<noteq> Tele \<and> \<not> is_http s \<and> \<not> is_grpc s \<and> s \<noteq> CronLoop \<and> s \<noteq> SchedulerLoop) =
      (\<exists>addr. s = MetricsServer addr)" for s
    by (cases s) auto
  ultimately show ?thesis
    using assms by (simp add: live_Shutdown_def Shutdown_def Stop_def without_def Let_def conj_comms)
qed

lemma live_Shutdown_twice:
  "stopClosed (srv_scheduler (lv_server lv)) \<Longrightarrow> live_Shutdown down p lv = Panic"
  by (simp add: live_Shutdown_def Shutdown_def Stop_def)

text \<open>
  C29. Unless the telemetry fails to shut down, \<open>Shutdown\<close> ends what \<open>New\<close> and \<open>Start\<close> began: the two loops of the scheduler, the gRPC and the
  HTTP server, tracing and metrics, and the connection to the store. Only the metrics server stays,
  if it was asked for and could listen. A second \<open>Shutdown\<close> panics. If gRPC cannot listen, \<open>Start\<close> fails and
  leaves the scheduler running; if HTTP cannot, it succeeds nevertheless.
\<close>

theorem server_lifecycle:
  assumes "live_New obs connect migrate reg cfg = Inr lv"
  shows "case live_Start listen bound lv of
      (Some e, lv1) \<Rightarrow> (\<exists>e'. listen (GRPCAddr cfg) = Some e' \<and> e = Err ''listen gRPC: %w'' [FErr e']) \<and>
        lv_running lv1 = [Tele, StoreConn, CronLoop, SchedulerLoop]
    | (None, lv1) \<Rightarrow> listen (GRPCAddr cfg) = None \<and> GrpcServer (GRPCAddr cfg) \<in> set (lv_running lv1) \<and>
        (HttpServer (HTTPAddr cfg) \<in> set (lv_running lv1) \<longleftrightarrow> bound (HTTPAddr cfg)) \<and>
        (\<exists>lv2. live_Shutdown (\<lambda>_. None) p lv1 = Ret (None, lv2) \<and>
           lv_running lv2 = (if MetricsAddr cfg \<noteq> '''' \<and> bound (MetricsAddr cfg)
                             then [MetricsServer (MetricsAddr cfg)] else []) \<and>
           live_Shutdown (\<lambda>_. None) p lv2 = Panic)"
proof -
  note new = live_New_running [OF assms]
  show ?thesis
  proof (cases "listen (GRPCAddr cfg)")
    case None
    define lv1 where "lv1 = snd (live_Start listen bound lv)"
    have lv1: "live_Start listen bound lv = (None, lv1)" "lv_grpc lv1" "lv_http lv1"
        "lv_server lv1 = lv_server lv"
        "lv_running lv1 = [Tele, StoreConn, CronLoop, SchedulerLoop, GrpcServer (GRPCAddr cfg)] @
           (if bound (HTTPAddr cfg) then [HttpServer (HTTPAddr cfg)] else []) @
           (if MetricsAddr cfg \<noteq> '''' \<and> bound (MetricsAddr cfg) then [MetricsServer (MetricsAddr cfg)] else [])"
      using new None by (simp_all add: lv1_def live_Start_def sched_Start_def Let_def)
    then show ?thesis using new None by (simp add: live_Shutdown_form [of lv1] live_Shutdown_twice)
  next
    case (Some e)
    then show ?thesis using new by (simp add: live_Start_def sched_Start_def Let_def)
  qed
qed

section \<open>Examples\<close>

text \<open>Two ticks after the diamond was submitted, its run is running.\<close>

lemma server_loop_stalls_witness:
  "\<exists>e sch' s' r. schedule_loop [TickerFires (memory_ops plain_mem) plain_sched,
       TickerFires (memory_ops plain_mem) plain_sched] diamond_state = (e, sch', s') \<and>
     fmlookup (runs s') ''r1'' = Some r \<and> run_Status r = StatusRunning"
proof -
  obtain sch s where st: "diamond_state = (sch, s)" by (cases diamond_state)
  have there: "case (fmlookup (runs (snd diamond_state)) ''r1'', fmlookup (taskInstances (snd diamond_state)) ''r1/a'') of
      (Some r, Some ti) \<Rightarrow> run_Status r = StatusRunning \<and> ti_RunID ti = ''r1'' \<and> \<not> IsTerminal (ti_Status ti)
    | _ \<Rightarrow> False"
    by code_simp
  then obtain r ti where r: "fmlookup (runs s) ''r1'' = Some r" "run_Status r = StatusRunning"
      "fmlookup (taskInstances s) ''r1/a'' = Some ti" "ti_RunID ti = ''r1''" "\<not> IsTerminal (ti_Status ti)"
    unfolding st by (auto split: option.splits)
  have ok: "\<forall>c \<in> set [TickerFires (memory_ops plain_mem) plain_sched]. choice_ok c"
    using plain_mem_ok plain_sched_ok by auto
  obtain e sch' s' where loop: "schedule_loop [TickerFires (memory_ops plain_mem) plain_sched,
      TickerFires (memory_ops plain_mem) plain_sched] (sch, s) = (e, sch', s')"
    by (rule prod_cases3)
  from server_loop_stalls [OF _ _ plain_mem_ok plain_sched_ok ok loop r] diamond_state_ok
  have "fmlookup (runs s') ''r1'' = Some r" by (simp add: st)
  then show ?thesis using loop r(2) st by auto
qed

definition sample_server_config :: server_config where
  "sample_server_config = \<lparr>GRPCAddr = '':9090'', HTTPAddr = '':8080'', MetricsAddr = '':9091'',
     srv_DataDir = ''/tmp'', StoreDSN = ''''\<rparr>"

definition idle_provider :: "(unit, unit, unit) provider" where
  "idle_provider = \<lparr>TracerProvider = None, MeterProvider = None, Logger = (0, True),
     Tracer = ('''', None), Meter = ('''', None)\<rparr>"

lemma server_lifecycle_witness:
  "\<exists>lv lv1 :: (unit, unit) live. \<exists>lv2.
     live_New None (\<lambda>_ _. Inl (Err '''' [])) (\<lambda>_. None) NewRegistry sample_server_config = Inr lv \<and>
     live_Start (\<lambda>_. None) (\<lambda>_. True) lv = (None, lv1) \<and>
     live_Shutdown (\<lambda>_. None) idle_provider lv1 = Ret (None, lv2) \<and>
     lv_running lv2 = [MetricsServer '':9091'']"
proof -
  obtain lv :: "(unit, unit) live" where lv:
    "live_New None (\<lambda>_ _. Inl (Err '''' [])) (\<lambda>_. None) NewRegistry sample_server_config = Inr lv"
    by (simp add: live_New_def server_New_def choose_store_def sample_server_config_def)
  obtain er lv1 where st: "live_Start (\<lambda>_. None) (\<lambda>_. True) lv = (er, lv1)" by fastforce
  then have "er = None" by (auto simp: live_Start_def sched_Start_def Let_def)
  then show ?thesis
    using server_lifecycle [OF lv, of "\<lambda>_. None" "\<lambda>_. True" idle_provider] lv st by (auto simp: sample_server_config_def)
qed

end
