(* ===== verification/Goroutines.thy ===== *)
theory Goroutines
  imports Worker
begin

text \<open>
  The goroutines of \<^verbatim>\<open>internal/worker/worker.go\<close>: \<open>Start\<close> of a worker and of a pool, the execution loops and
  the heartbeat as processes that take turns, the wait group, and what \<open>Stop\<close> waits for. A task is
  taken from the channel in one step and executed in another, in which the call of \<open>executeTask\<close> is
  atomic: between the two the goroutine is busy. A panic of a goroutine ends the process.
\<close>

section \<open>Start\<close>

datatype goroutine = Waiting | Busy task_instance | Exited

text \<open>
  \<open>nd_ctx\<close> says that the context is done, \<open>nd_hearts\<close> which heartbeat loops still run, \<open>nd_wg\<close> is the
  counter of the wait group. \<open>nd_accepted\<close>, \<open>nd_taken\<close> and \<open>nd_finished\<close> record which instances went in,
  were taken out of the channel, and were executed.
\<close>

record ('s, 'x) node =
  nd_worker :: "'x worker"
  nd_loops :: "goroutine list"
  nd_hearts :: "bool list"
  nd_wg :: int
  nd_ctx :: bool
  nd_crashed :: bool
  nd_store :: 's
  nd_execs :: 'x
  nd_accepted :: "task_instance list"
  nd_taken :: "task_instance list"
  nd_finished :: "task_instance list"

definition new_node :: "'x worker \<Rightarrow> 's \<Rightarrow> 'x \<Rightarrow> ('s, 'x) node" where
  "new_node wk s x =
     \<lparr>nd_worker = wk, nd_loops = [], nd_hearts = [], nd_wg = 0, nd_ctx = False, nd_crashed = False,
      nd_store = s, nd_execs = x, nd_accepted = [], nd_taken = [], nd_finished = []\<rparr>"

text \<open>The loop that starts the execution goroutines, \<open>n\<close> iterations.\<close>

fun start_loops :: "nat \<Rightarrow> ('s, 'x) node \<Rightarrow> ('s, 'x) node" where
  "start_loops 0 nd = nd"
| "start_loops (Suc n) nd =
     start_loops n (nd\<lparr>nd_wg := nd_wg nd + 1, nd_loops := nd_loops nd @ [Waiting]\<rparr>)"

definition worker_Start :: "('s, 'x) node \<Rightarrow> err option \<times> ('s, 'x) node" where
  "worker_Start nd =
     (let nd = start_loops (nat (wc_Concurrency (wk_config (nd_worker nd)))) nd;
          nd = nd\<lparr>nd_wg := nd_wg nd + 1, nd_hearts := nd_hearts nd @ [True]\<rparr>
      in (None, nd))"

fun start_nodes :: "('s, 'x) node list \<Rightarrow> err option \<times> ('s, 'x) node list" where
  "start_nodes [] = (None, [])"
| "start_nodes (nd # nds) =
     (case worker_Start nd of
        (Some e, nd) \<Rightarrow>
          (Some (Err ''start worker %s: %w'' [FStr (wk_id (nd_worker nd)), FErr e]), nd # nds)
      | (None, nd) \<Rightarrow> (let (e, nds) = start_nodes nds in (e, nd # nds)))"

definition pool_Start :: "('s, 'x) node list \<Rightarrow> err option \<times> ('s, 'x) node list" where
  "pool_Start nds = start_nodes nds"

section \<open>The steps of the goroutines\<close>

text \<open>A \<^verbatim>\<open>select\<close> may take any case that is ready, so a stopped worker may still take a task.\<close>

definition stopping :: "('s, 'x) node \<Rightarrow> bool" where
  "stopping nd \<longleftrightarrow> nd_ctx nd \<or> wk_stopped (nd_worker nd)"

definition heart_interval :: "('s, 'x) node \<Rightarrow> duration" where
  "heart_interval nd = wc_HeartbeatInterval (wk_config (nd_worker nd))"

text \<open>The heartbeat, whose ticker panics on an interval that is not positive. A tick only logs and is no step.\<close>

inductive heart_step :: "('s, 'x) node \<Rightarrow> ('s, 'x) node \<Rightarrow> bool" where
  ticker_panic: "\<not> nd_crashed nd \<Longrightarrow> j < length (nd_hearts nd) \<Longrightarrow> nd_hearts nd ! j \<Longrightarrow>
     heart_interval nd \<le> 0 \<Longrightarrow> heart_step nd (nd\<lparr>nd_crashed := True\<rparr>)"
| heart_exit: "\<not> nd_crashed nd \<Longrightarrow> j < length (nd_hearts nd) \<Longrightarrow> nd_hearts nd ! j \<Longrightarrow>
     0 < heart_interval nd \<Longrightarrow> stopping nd \<Longrightarrow>
     heart_step nd (nd\<lparr>nd_hearts := (nd_hearts nd)[j := False], nd_wg := nd_wg nd - 1\<rparr>)"

inductive go_step ::
  "'s store_ops \<Rightarrow> (f64 \<Rightarrow> int) \<Rightarrow> ('s, 'x) node \<Rightarrow> ('s, 'x) node \<Rightarrow> bool" for ops oob
where
  loop_exit: "\<not> nd_crashed nd \<Longrightarrow> i < length (nd_loops nd) \<Longrightarrow> nd_loops nd ! i = Waiting \<Longrightarrow> stopping nd \<Longrightarrow>
     go_step ops oob nd (nd\<lparr>nd_loops := (nd_loops nd)[i := Exited], nd_wg := nd_wg nd - 1\<rparr>)"
| loop_take: "\<not> nd_crashed nd \<Longrightarrow> i < length (nd_loops nd) \<Longrightarrow> nd_loops nd ! i = Waiting \<Longrightarrow>
     receive (wk_taskCh (nd_worker nd)) = Some (ti, ch) \<Longrightarrow>
     go_step ops oob nd (nd\<lparr>nd_loops := (nd_loops nd)[i := Busy ti],
       nd_worker := (nd_worker nd)\<lparr>wk_taskCh := ch\<rparr>, nd_taken := nd_taken nd @ [ti]\<rparr>)"
| loop_run: "\<not> nd_crashed nd \<Longrightarrow> i < length (nd_loops nd) \<Longrightarrow> nd_loops nd ! i = Busy ti \<Longrightarrow>
     executeTask ops oob w ti (nd_worker nd, nd_store nd, nd_execs nd) = Ret (ti', wk', s', x') \<Longrightarrow>
     go_step ops oob nd (nd\<lparr>nd_loops := (nd_loops nd)[i := Waiting], nd_worker := wk', nd_store := s',
       nd_execs := x', nd_finished := nd_finished nd @ [ti]\<rparr>)"
| loop_panic: "\<not> nd_crashed nd \<Longrightarrow> i < length (nd_loops nd) \<Longrightarrow> nd_loops nd ! i = Busy ti \<Longrightarrow>
     executeTask ops oob w ti (nd_worker nd, nd_store nd, nd_execs nd) = Panic \<Longrightarrow>
     go_step ops oob nd (nd\<lparr>nd_crashed := True\<rparr>)"
| heart_beat: "heart_step nd nd' \<Longrightarrow> go_step ops oob nd nd'"

text \<open>
  What happens to a worker from outside: submissions, the end of the context, the first half of \<open>Stop\<close>.
\<close>

inductive node_reach ::
  "'s store_ops \<Rightarrow> (f64 \<Rightarrow> int) \<Rightarrow> worker_config \<Rightarrow> ('s, 'x) node \<Rightarrow> bool" for ops oob cfg
where
  started: "New uuid setup cfg reg = Ret (Inr wk) \<Longrightarrow> worker_Start (new_node wk s x) = (None, nd) \<Longrightarrow>
     node_reach ops oob cfg nd"
| submitted: "node_reach ops oob cfg nd \<Longrightarrow> worker_Submit ti (nd_worker nd) = (None, wk') \<Longrightarrow>
     node_reach ops oob cfg (nd\<lparr>nd_worker := wk', nd_accepted := nd_accepted nd @ [ti]\<rparr>)"
| cancelled: "node_reach ops oob cfg nd \<Longrightarrow> node_reach ops oob cfg (nd\<lparr>nd_ctx := True\<rparr>)"
| closed: "node_reach ops oob cfg nd \<Longrightarrow> worker_Stop (nd_worker nd) = Ret wk' \<Longrightarrow>
     node_reach ops oob cfg (nd\<lparr>nd_worker := wk'\<rparr>)"
| stepped: "node_reach ops oob cfg nd \<Longrightarrow> go_step ops oob nd nd' \<Longrightarrow> node_reach ops oob cfg nd'"

section \<open>The invariant\<close>

fun busy_task :: "goroutine \<Rightarrow> task_instance list" where
  "busy_task (Busy ti) = [ti]"
| "busy_task _ = []"

definition busy_tasks :: "goroutine list \<Rightarrow> task_instance list" where
  "busy_tasks gs = concat (map busy_task gs)"

fun running :: "goroutine \<Rightarrow> int" where
  "running Exited = 0"
| "running _ = 1"

definition alive :: "('s, 'x) node \<Rightarrow> int" where
  "alive nd = sum_list (map running (nd_loops nd)) + sum_list (map of_bool (nd_hearts nd))"

definition concurrency :: "worker_config \<Rightarrow> int" where
  "concurrency cfg = (if wc_Concurrency cfg \<le> 0 then 4 else wc_Concurrency cfg)"

definition node_inv :: "worker_config \<Rightarrow> ('s, 'x) node \<Rightarrow> bool" where
  "node_inv cfg nd \<longleftrightarrow>
     nd_accepted nd = nd_taken nd @ ch_buf (wk_taskCh (nd_worker nd)) \<and>
     mset (nd_taken nd) = mset (nd_finished nd) + mset (busy_tasks (nd_loops nd)) \<and>
     int (length (nd_loops nd)) = concurrency cfg \<and> length (nd_hearts nd) = 1 \<and> nd_wg nd = alive nd \<and>
     chan_ok (wk_taskCh (nd_worker nd)) \<and> ch_cap (wk_taskCh (nd_worker nd)) = 2 * concurrency cfg \<and>
     dlq_inv (wk_dlq (nd_worker nd)) \<and> maxSize (wk_dlq (nd_worker nd)) = 1000 \<and>
     (wc_HeartbeatInterval cfg \<noteq> 0 \<longrightarrow> heart_interval nd = wc_HeartbeatInterval cfg) \<and>
     (wc_HeartbeatInterval cfg = 0 \<longrightarrow> heart_interval nd = 10 * 1000000000)"

lemma mset_busy_update:
  assumes "i < length gs"
  shows "mset (busy_tasks (gs[i := g])) + mset (busy_task (gs ! i)) = mset (busy_tasks gs) + mset (busy_task g)"
  using assms
proof (induction gs arbitrary: i)
  case (Cons h gs)
  then show ?case by (cases i) (auto simp: busy_tasks_def ac_simps)
qed simp

lemma sum_update:
  assumes "i < length gs"
  shows "sum_list (map f (gs[i := g])) = sum_list (map f gs) - f (gs ! i) + (f g :: int)"
  using assms
proof (induction gs arbitrary: i)
  case (Cons h gs)
  then show ?case by (cases i) auto
qed simp

lemma start_loops_form:
  "start_loops n nd = nd\<lparr>nd_wg := nd_wg nd + int n, nd_loops := nd_loops nd @ replicate n Waiting\<rparr>"
proof (induction n arbitrary: nd)
  case (Suc n)
  then show ?case by (simp add: replicate_app_Cons_same)
qed simp

lemma New_config:
  "New uuid setup cfg reg = Ret (Inr wk) \<Longrightarrow> wc_Concurrency (wk_config wk) = concurrency cfg \<and>
     wc_HeartbeatInterval (wk_config wk) =
       (if wc_HeartbeatInterval cfg = 0 then 10 * 1000000000 else wc_HeartbeatInterval cfg)"
  by (auto simp: New_def Let_def concurrency_def split: option.splits if_splits)

lemma concurrency_pos: "0 < concurrency cfg"
  by (simp add: concurrency_def)

lemma node_inv_started:
  assumes "New uuid setup cfg reg = Ret (Inr wk)" "in_int64 (wc_Concurrency cfg)"
    and "worker_Start (new_node wk s x) = (None, nd)"
  shows "node_inv cfg nd"
proof -
  have "worker_inv cfg wk [] []" using assms(1,2) by (rule New_Inr)
  then show ?thesis
    using assms(3) New_config [OF assms(1)] concurrency_pos [of cfg]
    by (auto simp: worker_Start_def Let_def start_loops_form new_node_def node_inv_def worker_inv_def
        busy_tasks_def alive_def heart_interval_def concurrency_def sum_list_replicate)
qed

lemma node_inv_step:
  assumes "go_step ops oob nd nd'" "node_inv cfg nd"
  shows "node_inv cfg nd'"
  using assms
proof (cases rule: go_step.cases)
  case (loop_exit i)
  then show ?thesis
    using assms(2) mset_busy_update [of i "nd_loops nd" Exited] sum_update [of i "nd_loops nd" running Exited]
    by (simp add: node_inv_def alive_def heart_interval_def)
next
  case (loop_take i ti ch)
  then have "ch_buf (wk_taskCh (nd_worker nd)) = ti # ch_buf ch" "ch_cap ch = ch_cap (wk_taskCh (nd_worker nd))"
    by (auto simp: receive_def split: list.splits)
  then show ?thesis
    using loop_take assms(2) mset_busy_update [of i "nd_loops nd" "Busy ti"]
      sum_update [of i "nd_loops nd" running "Busy ti"]
    by (simp add: node_inv_def alive_def heart_interval_def chan_ok_def)
next
  case (loop_run i ti w ti' wk' s' x')
  have wk': "wk_taskCh wk' = wk_taskCh (nd_worker nd)" "wk_config wk' = wk_config (nd_worker nd)"
      "dlq_inv (wk_dlq wk')" "maxSize (wk_dlq wk') = 1000"
    using executeTask_worker [OF loop_run(5)] assms(2) by (auto simp: node_inv_def dest: Push_inv)
  then show ?thesis
    using loop_run assms(2) mset_busy_update [of i "nd_loops nd" Waiting]
      sum_update [of i "nd_loops nd" running Waiting]
    by (simp add: node_inv_def alive_def heart_interval_def)
next
  case heart_beat
  then show ?thesis
  proof (cases rule: heart_step.cases)
    case (heart_exit j)
    then show ?thesis
      using assms(2) sum_update [of j "nd_hearts nd" of_bool False]
      by (simp add: node_inv_def alive_def heart_interval_def)
  qed (use assms(2) in \<open>simp add: node_inv_def alive_def heart_interval_def\<close>)
qed (simp_all add: node_inv_def alive_def heart_interval_def)

lemma node_reach_inv:
  assumes "node_reach ops oob cfg nd" "in_int64 (wc_Concurrency cfg)"
  shows "node_inv cfg nd"
  using assms
proof (induction rule: node_reach.induct)
  case (started uuid oerr reg wk s x nd)
  then show ?case by (blast intro: node_inv_started)
next
  case (submitted nd ti wk')
  then have inv: "node_inv cfg nd" by simp
  obtain ch where ch: "try_send ti (wk_taskCh (nd_worker nd)) = Some ch"
      "wk' = (nd_worker nd)\<lparr>wk_taskCh := ch\<rparr>"
    using submitted.hyps(2) by (auto simp: worker_Submit_def split: option.splits)
  have "ch_buf ch = ch_buf (wk_taskCh (nd_worker nd)) @ [ti]" "chan_ok ch"
      "ch_cap ch = ch_cap (wk_taskCh (nd_worker nd))"
    using channel.offer_items [OF _ ch(1)] inv ch(1) by (auto simp: node_inv_def try_send_def split: if_splits)
  then show ?case using inv ch(2) by (simp add: node_inv_def alive_def heart_interval_def)
next
  case (closed nd wk')
  then show ?case
    by (auto simp: worker_Stop_def node_inv_def alive_def heart_interval_def split: if_splits)
next
  case (stepped nd nd')
  then show ?case by (blast intro: node_inv_step)
qed (simp add: node_inv_def alive_def heart_interval_def)

lemma length_busy_tasks: "length (busy_tasks gs) \<le> length gs"
proof (induction gs)
  case (Cons g gs)
  then show ?case by (cases g) (auto simp: busy_tasks_def)
qed (simp add: busy_tasks_def)

lemma running_sum:
  "0 \<le> sum_list (map running gs) \<and> (sum_list (map running gs) = 0 \<longrightarrow> set gs \<subseteq> {Exited})"
proof (induction gs)
  case (Cons g gs)
  then show ?case by (cases g) auto
qed simp

lemma hearts_sum:
  "0 \<le> (sum_list (map of_bool hs) :: int) \<and> (sum_list (map of_bool hs) = (0 :: int) \<longrightarrow> set hs \<subseteq> {False})"
proof (induction hs)
  case (Cons h hs)
  then show ?case by (cases h) auto
qed simp

lemma alive_zero:
  assumes "alive nd = 0"
  shows "set (nd_loops nd) \<subseteq> {Exited}" "set (nd_hearts nd) \<subseteq> {False}"
  using assms running_sum [of "nd_loops nd"] hearts_sum [of "nd_hearts nd"] by (simp_all add: alive_def)

text \<open>
  C18. However the goroutines of a worker take turns with submissions, cancellation and \<open>Stop\<close>: the
  instances that the worker accepted are, in this order, those taken out of its channel, followed by those
  that wait; those taken out are the ones executed and the ones in execution, each once. No more run at a
  time than the concurrency, no more wait than twice that (4 and 8 by default), the dead letter queue has
  at most 1000 entries, and the wait group counts the goroutines that have not ended.
\<close>

theorem worker_goroutines:
  assumes "node_reach ops oob cfg nd" and "in_int64 (wc_Concurrency cfg)"
  shows "nd_accepted nd = nd_taken nd @ ch_buf (wk_taskCh (nd_worker nd)) \<and>
    mset (nd_taken nd) = mset (nd_finished nd) + mset (busy_tasks (nd_loops nd)) \<and>
    int (length (busy_tasks (nd_loops nd))) \<le> concurrency cfg \<and>
    int (length (ch_buf (wk_taskCh (nd_worker nd)))) \<le> 2 * concurrency cfg \<and>
    length (entries (wk_dlq (nd_worker nd))) \<le> 1000 \<and> nd_wg nd = alive nd"
  using node_reach_inv [OF assms] length_busy_tasks [of "nd_loops nd"]
  by (auto simp: node_inv_def chan_ok_def dlq_inv_def)

section \<open>Stopping\<close>

fun weight :: "goroutine \<Rightarrow> nat" where
  "weight Exited = 0"
| "weight Waiting = 1"
| "weight (Busy ti) = 3"

definition work_left :: "('s, 'x) node \<Rightarrow> nat" where
  "work_left nd =
     (if nd_crashed nd then 0
      else 1 + 3 * length (ch_buf (wk_taskCh (nd_worker nd))) +
        sum_list (map weight (nd_loops nd)) + length (filter id (nd_hearts nd)))"

lemma weight_update:
  assumes "i < length gs"
  shows "sum_list (map weight (gs[i := g])) + weight (gs ! i) = sum_list (map weight gs) + weight g"
  using assms
proof (induction gs arbitrary: i)
  case (Cons h gs)
  then show ?case by (cases i) (auto simp: add_ac)
qed simp

lemma filter_update: "j < length hs \<Longrightarrow> hs ! j \<Longrightarrow> Suc (length (filter id (hs[j := False]))) = length (filter id hs)"
proof (induction hs arbitrary: j)
  case (Cons h hs)
  then show ?case by (cases j) auto
qed simp

text \<open>Without new submissions every step of a goroutine uses up some of the work.\<close>

lemma go_step_less:
  assumes "go_step ops oob nd nd'"
  shows "work_left nd' < work_left nd"
  using assms
proof (cases rule: go_step.cases)
  case (loop_exit i)
  then show ?thesis using weight_update [of i "nd_loops nd" Exited] by (simp add: work_left_def)
next
  case (loop_take i ti ch)
  then have "length (ch_buf (wk_taskCh (nd_worker nd))) = Suc (length (ch_buf ch))"
    by (auto simp: receive_def split: list.splits)
  then show ?thesis using loop_take weight_update [of i "nd_loops nd" "Busy ti"] by (simp add: work_left_def)
next
  case (loop_run i ti w ti' wk' s' x')
  have "wk_taskCh wk' = wk_taskCh (nd_worker nd)" using executeTask_worker [OF loop_run(5)] by auto
  then show ?thesis using loop_run weight_update [of i "nd_loops nd" Waiting] by (simp add: work_left_def)
next
  case heart_beat
  then show ?thesis
  proof (cases rule: heart_step.cases)
    case (heart_exit j)
    then show ?thesis using filter_update [of j "nd_hearts nd"] by (simp add: work_left_def)
  qed (simp add: work_left_def)
qed (simp_all add: work_left_def)

lemma go_steps_less: "(go_step ops oob ^^ k) nd nd' \<Longrightarrow> k + work_left nd' \<le> work_left nd"
proof (induction k arbitrary: nd')
  case (Suc k)
  then obtain nd1 where "(go_step ops oob ^^ k) nd nd1" "go_step ops oob nd1 nd'" by auto
  then show ?case using Suc.IH [of nd1] go_step_less [of ops oob nd1 nd'] by simp
qed simp

lemma go_step_keeps:
  assumes "go_step ops oob nd nd'"
  shows "wk_registry (nd_worker nd') = wk_registry (nd_worker nd)" "stopping nd \<Longrightarrow> stopping nd'"
  using assms by (cases rule: go_step.cases; auto simp: stopping_def elim!: heart_step.cases dest!: executeTask_worker)+

lemma go_steps_keep:
  "(go_step ops oob ^^ k) nd nd' \<Longrightarrow> wk_registry (nd_worker nd') = wk_registry (nd_worker nd) \<and>
     (stopping nd \<longrightarrow> stopping nd') \<and> (node_reach ops oob cfg nd \<longrightarrow> node_reach ops oob cfg nd')"
proof (induction k arbitrary: nd')
  case (Suc k)
  then obtain nd1 where "(go_step ops oob ^^ k) nd nd1" "go_step ops oob nd1 nd'" by auto
  then show ?case using Suc.IH [of nd1] go_step_keeps [of ops oob nd1 nd'] by (auto intro: node_reach.stepped)
qed simp

text \<open>The executors of a registry end, in some world.\<close>

definition tasks_end :: "'s store_ops \<Rightarrow> (f64 \<Rightarrow> int) \<Rightarrow> 'x registry \<Rightarrow> bool" where
  "tasks_end ops oob reg \<longleftrightarrow> (\<forall>ti wk s x. wk_registry wk = reg \<longrightarrow>
     (\<exists>w. executeTask ops oob w ti (wk, s, x) \<noteq> Diverge))"

text \<open>A stopped worker in which no goroutine can go on has no goroutine left, unless one has panicked.\<close>

lemma stuck_means_gone:
  assumes "node_inv cfg nd" "stopping nd" "\<not> nd_crashed nd" "tasks_end ops oob (wk_registry (nd_worker nd))"
    and stuck: "\<And>nd'. \<not> go_step ops oob nd nd'"
  shows "set (nd_loops nd) \<subseteq> {Exited}" "set (nd_hearts nd) \<subseteq> {False}"
proof -
  have "nd_loops nd ! i = Exited" if i: "i < length (nd_loops nd)" for i
  proof (cases "nd_loops nd ! i")
    case Waiting
    then show ?thesis using stuck go_step.loop_exit [OF assms(3) i Waiting assms(2)] by blast
  next
    case (Busy ti)
    obtain w where "executeTask ops oob w ti (nd_worker nd, nd_store nd, nd_execs nd) \<noteq> Diverge"
      using assms(4) unfolding tasks_end_def by blast
    then consider (ret) ti' wk' s' x' where
        "executeTask ops oob w ti (nd_worker nd, nd_store nd, nd_execs nd) = Ret (ti', wk', s', x')"
      | (panic) "executeTask ops oob w ti (nd_worker nd, nd_store nd, nd_execs nd) = Panic"
      by (cases "executeTask ops oob w ti (nd_worker nd, nd_store nd, nd_execs nd)") (auto intro: prod_cases4)
    then show ?thesis
      using stuck go_step.loop_run [OF assms(3) i Busy] go_step.loop_panic [OF assms(3) i Busy] by cases blast+
  qed
  then show "set (nd_loops nd) \<subseteq> {Exited}" by (auto simp: in_set_conv_nth)
  have "\<not> nd_hearts nd ! j" if j: "j < length (nd_hearts nd)" for j
    using stuck heart_step.ticker_panic [OF assms(3) j] heart_step.heart_exit [OF assms(3) j _ _ assms(2)]
    by (meson go_step.heart_beat not_le)
  then show "set (nd_hearts nd) \<subseteq> {False}" by (auto simp: in_set_conv_nth)
qed

lemma all_gone:
  assumes "node_inv cfg nd" "set (nd_loops nd) \<subseteq> {Exited}" "set (nd_hearts nd) \<subseteq> {False}"
  shows "nd_wg nd = 0" "busy_tasks (nd_loops nd) = []" "mset (nd_taken nd) = mset (nd_finished nd)"
proof -
  have "sum_list (map running gs) = 0 \<and> busy_tasks gs = []" if "set gs \<subseteq> {Exited}" for gs
    using that by (induction gs) (auto simp: busy_tasks_def)
  moreover have "sum_list (map of_bool hs) = (0 :: int)" if "set hs \<subseteq> {False}" for hs
    using that by (induction hs) auto
  ultimately show "nd_wg nd = 0" "busy_tasks (nd_loops nd) = []" "mset (nd_taken nd) = mset (nd_finished nd)"
    using assms by (simp_all add: node_inv_def alive_def)
qed

text \<open>The executors of a registry do not panic, whatever is executed.\<close>

definition tasks_safe :: "'s store_ops \<Rightarrow> (f64 \<Rightarrow> int) \<Rightarrow> 'x registry \<Rightarrow> bool" where
  "tasks_safe ops oob reg \<longleftrightarrow> (\<forall>w ti wk s x. wk_registry wk = reg \<longrightarrow> dlq_inv (wk_dlq wk) \<longrightarrow>
     executeTask ops oob w ti (wk, s, x) \<noteq> Panic)"

lemma go_steps_safe:
  assumes "(go_step ops oob ^^ k) nd nd'" "node_inv cfg nd" "\<not> nd_crashed nd" "0 \<le> wc_HeartbeatInterval cfg"
    and "tasks_safe ops oob (wk_registry (nd_worker nd))"
  shows "\<not> nd_crashed nd' \<and> node_inv cfg nd' \<and> wk_registry (nd_worker nd') = wk_registry (nd_worker nd)"
  using assms(1)
proof (induction k arbitrary: nd')
  case (Suc k)
  then obtain nd1 where "(go_step ops oob ^^ k) nd nd1" and step: "go_step ops oob nd1 nd'" by auto
  then have IH: "\<not> nd_crashed nd1" "node_inv cfg nd1" "wk_registry (nd_worker nd1) = wk_registry (nd_worker nd)"
    using Suc.IH by blast+
  have beat: "0 < heart_interval nd1" using IH(2) assms(4) by (cases "wc_HeartbeatInterval cfg = 0") (simp_all add: node_inv_def)
  have safe: "executeTask ops oob w ti (nd_worker nd1, nd_store nd1, nd_execs nd1) \<noteq> Panic" for w ti
    using assms(5) IH(2,3) by (simp add: tasks_safe_def node_inv_def)
  have "\<not> nd_crashed nd'" using step
    by (cases rule: go_step.cases) (use IH(1) beat safe in \<open>auto elim!: heart_step.cases\<close>)
  then show ?case using node_inv_step [OF step IH(2)] go_step_keeps(1) [OF step] IH(3) by simp
qed (use assms(2,3) in simp)

text \<open>
  C19. When \<open>Stop\<close> returns. After it has closed the channel, or after the context has ended, provided that no task runs
  for ever and that no instance is submitted any more, the goroutines can only take a bounded number of steps. When none can take
  another one, either a goroutine has panicked, so that the whole process is gone, or all
  have ended: the wait group is at zero, so that \<open>Stop\<close> returns, and every instance that was taken
  out has been executed. The others wait in the channel for ever: nobody reports them. Nothing panics if no executor does
  and the configured heartbeat interval is not negative.
\<close>

theorem worker_stop_returns:
  assumes "node_reach ops oob cfg nd" and "in_int64 (wc_Concurrency cfg)" and "stopping nd"
    and "tasks_end ops oob (wk_registry (nd_worker nd))"
    and "(go_step ops oob ^^ k) nd nd'"
  shows "k \<le> work_left nd \<and>
    ((\<forall>nd''. \<not> go_step ops oob nd' nd'') \<longrightarrow> nd_crashed nd' \<or>
       nd_wg nd' = 0 \<and> mset (nd_taken nd') = mset (nd_finished nd') \<and>
       nd_accepted nd' = nd_taken nd' @ ch_buf (wk_taskCh (nd_worker nd'))) \<and>
    (\<not> nd_crashed nd \<longrightarrow> 0 \<le> wc_HeartbeatInterval cfg \<longrightarrow> tasks_safe ops oob (wk_registry (nd_worker nd)) \<longrightarrow>
       \<not> nd_crashed nd')"
proof -
  have kept: "wk_registry (nd_worker nd') = wk_registry (nd_worker nd)" "stopping nd'" "node_reach ops oob cfg nd'"
    using go_steps_keep [OF assms(5)] assms(1,3) by blast+
  have inv: "node_inv cfg nd'" using kept(3) assms(2) by (rule node_reach_inv)
  have "nd_wg nd' = 0 \<and> mset (nd_taken nd') = mset (nd_finished nd')"
    if "\<forall>nd''. \<not> go_step ops oob nd' nd''" "\<not> nd_crashed nd'"
    using all_gone [OF inv stuck_means_gone [OF inv kept(2) that(2)]] assms(4) that(1) kept(1) by simp
  moreover have "\<not> nd_crashed nd \<longrightarrow> 0 \<le> wc_HeartbeatInterval cfg \<longrightarrow> tasks_safe ops oob (wk_registry (nd_worker nd)) \<longrightarrow>
       \<not> nd_crashed nd'"
    using go_steps_safe [OF assms(5) node_reach_inv [OF assms(1,2)]] by blast
  ultimately show ?thesis using go_steps_less [OF assms(5)] inv by (auto simp: node_inv_def)
qed

text \<open>
  \<open>New\<close> replaces a heartbeat interval of zero, but accepts a negative one: then, in every state of
  the worker, the heartbeat goroutine is still there and the only thing it can do is to panic, which
  takes the process down. If it does not get to run, the wait group never reaches zero.
\<close>

theorem negative_heartbeat_panics:
  assumes "node_reach ops oob cfg nd" and "in_int64 (wc_Concurrency cfg)" and "wc_HeartbeatInterval cfg < 0"
  shows "nd_hearts nd = [True] \<and> 0 < nd_wg nd \<and>
    (\<not> nd_crashed nd \<longrightarrow> go_step ops oob nd (nd\<lparr>nd_crashed := True\<rparr>))"
proof -
  have inv: "node_inv cfg nd" using assms(1,2) by (rule node_reach_inv)
  have "nd_hearts nd = [True]" using assms(1)
  proof (induction rule: node_reach.induct)
    case (started uuid oerr reg wk s x nd)
    then show ?case by (auto simp: worker_Start_def new_node_def start_loops_form Let_def)
  next
    case (stepped nd nd')
    have "heart_interval nd < 0"
      using node_reach_inv [OF stepped.hyps(1) assms(2)] assms(3) by (simp add: node_inv_def)
    with stepped.hyps(2) show ?case by cases (use stepped.IH in \<open>auto elim!: heart_step.cases\<close>)
  qed simp_all
  then show ?thesis
    using inv running_sum [of "nd_loops nd"] assms(3) go_step.heart_beat [OF heart_step.ticker_panic [of nd 0]]
    by (simp add: node_inv_def alive_def)
qed

section \<open>Executors that end\<close>

definition ends :: "'x executor \<Rightarrow> bool" where
  "ends e \<longleftrightarrow> (\<forall>t x. ex_Execute e t fmempty x \<noteq> Diverge)"

lemma attempt_loop_ends: "ends e \<Longrightarrow> attempt_loop oob w e t k st x \<noteq> Diverge"
  by (rule attempt_loop_Diverge) (simp add: ends_def)

lemma Push_ends: "Push now e q \<noteq> Diverge"
  by (auto simp: Push_def Let_def split: list.splits)

lemma tasks_endI:
  assumes "\<And>name e. Get name reg = Inr e \<Longrightarrow> ends e"
  shows "tasks_end ops oob reg"
  unfolding tasks_end_def
  by (auto simp: executeTask_def finish_task_def Let_def bind_Diverge Push_ends attempt_loop_ends assms
      split: sum.splits option.splits prod.splits)

lemma Push_safe: "dlq_inv q \<Longrightarrow> Push now e q \<noteq> Panic"
  using dlq.push [of q "(now, e)"] by auto

lemma tasks_safeI:
  assumes "\<And>name e. Get name reg = Inr e \<Longrightarrow>
    \<forall>t y. ex_Execute e t fmempty y \<noteq> Panic \<and> (\<forall>y'. ex_Execute e t fmempty y \<noteq> Ret ((None, None), y'))"
  shows "tasks_safe ops oob reg"
  unfolding tasks_safe_def
  by (auto simp: executeTask_def finish_task_def Let_def bind_outcome_Panic Push_safe attempt_loop_Panic assms
      split: sum.splits option.splits prod.splits)

section \<open>Examples\<close>

definition sample_node :: "(memory_store, nat) node" where
  "sample_node = snd (worker_Start (new_node sample_worker worker_store 0))"

abbreviation sample_ops :: "memory_store store_ops" where
  "sample_ops \<equiv> memory_ops plain_mem"

lemma sample_node_reach: "node_reach sample_ops (\<lambda>_. 0) sample_config sample_node"
  by (rule node_reach.started [OF sample_worker_new]) (simp add: sample_node_def worker_Start_def Let_def)

lemma sample_node_simps:
  "nd_worker sample_node = sample_worker" "nd_crashed sample_node = False"
  "nd_loops sample_node = [Waiting, Waiting, Waiting, Waiting]" "nd_hearts sample_node = [True]"
  using New_config [OF sample_worker_new]
  by (simp_all add: sample_node_def worker_Start_def Let_def start_loops_form new_node_def concurrency_def
      sample_config_def numeral_eq_Suc)

lemma sample_config_64: "in_int64 (wc_Concurrency sample_config)"
  by (simp add: sample_config_def in_int64_def min_int64_def max_int64_def)

lemma worker_goroutines_witness: "nd_wg sample_node = 5 \<and> nd_wg sample_node = alive sample_node"
  using worker_goroutines [OF sample_node_reach sample_config_64] by (simp add: alive_def sample_node_simps)

lemma flaky_ends: "tasks_end ops oob (wk_registry sample_worker)"
proof (rule tasks_endI)
  fix name e assume "Get name (wk_registry sample_worker) = Inr e"
  then have "e = flaky"
    by (simp add: sample_worker_simps Get_def Register_def NewRegistry_def split: option.splits if_splits)
  then show "ends e" by (simp add: ends_def flaky_def)
qed

lemma flaky_safe: "tasks_safe ops oob (wk_registry sample_worker)"
proof (rule tasks_safeI)
  fix name e assume "Get name (wk_registry sample_worker) = Inr e"
  then have "e = flaky"
    by (simp add: sample_worker_simps Get_def Register_def NewRegistry_def split: option.splits if_splits)
  then show "\<forall>t y. ex_Execute e t fmempty y \<noteq> Panic \<and> (\<forall>y'. ex_Execute e t fmempty y \<noteq> Ret ((None, None), y'))"
    by (simp add: flaky_def)
qed

text \<open>An idle worker of four loops whose context ends: five steps later all its goroutines are gone.\<close>

definition gone_node :: "(memory_store, nat) node" where
  "gone_node = sample_node\<lparr>nd_ctx := True, nd_loops := replicate 4 Exited, nd_hearts := [False], nd_wg := nd_wg sample_node - 5\<rparr>"

lemma sample_node_stops: "(go_step sample_ops (\<lambda>_. 0) ^^ 5) (sample_node\<lparr>nd_ctx := True\<rparr>) gone_node"
proof -
  let ?nd = "\<lambda>gs n. sample_node\<lparr>nd_ctx := True, nd_loops := gs, nd_wg := nd_wg sample_node - n\<rparr>"
  have out: "go_step sample_ops (\<lambda>_. 0) (?nd gs n) (?nd (gs[i := Exited]) (n + 1))" if "i < length gs" "gs ! i = Waiting" for gs n i
    using go_step.loop_exit [of "?nd gs n" i sample_ops "\<lambda>_. 0"] that by (simp add: sample_node_simps stopping_def algebra_simps)
  have four: "replicate 4 Exited = [Exited, Exited, Exited, Exited]" and five: "(5::nat) = Suc (Suc (Suc (Suc (Suc 0))))"
    by (simp_all add: numeral_eq_Suc)
  have heart: "go_step sample_ops (\<lambda>_. 0) (?nd (replicate 4 Exited) 4) gone_node"
  proof (rule go_step.heart_beat)
    have "0 < heart_interval (?nd (replicate 4 Exited) 4)"
      using New_config [OF sample_worker_new] by (simp add: heart_interval_def sample_node_simps sample_config_def)
    from heart_step.heart_exit [OF _ _ _ this, of 0]
    show "heart_step (?nd (replicate 4 Exited) 4) gone_node"
      by (simp add: sample_node_simps stopping_def gone_node_def)
  qed
  have start: "sample_node\<lparr>nd_ctx := True\<rparr> = ?nd [Waiting, Waiting, Waiting, Waiting] 0"
    by (rule node.equality) (simp_all add: sample_node_simps)
  have "go_step sample_ops (\<lambda>_. 0) (?nd [Waiting, Waiting, Waiting, Waiting] 0) (?nd [Exited, Waiting, Waiting, Waiting] 1)"
    "go_step sample_ops (\<lambda>_. 0) (?nd [Exited, Waiting, Waiting, Waiting] 1) (?nd [Exited, Exited, Waiting, Waiting] 2)"
    "go_step sample_ops (\<lambda>_. 0) (?nd [Exited, Exited, Waiting, Waiting] 2) (?nd [Exited, Exited, Exited, Waiting] 3)"
    "go_step sample_ops (\<lambda>_. 0) (?nd [Exited, Exited, Exited, Waiting] 3) (?nd [Exited, Exited, Exited, Exited] 4)"
    using out [of 0 "[Waiting, Waiting, Waiting, Waiting]" 0] out [of 1 "[Exited, Waiting, Waiting, Waiting]" 1]
      out [of 2 "[Exited, Exited, Waiting, Waiting]" 2] out [of 3 "[Exited, Exited, Exited, Waiting]" 3]
    by simp_all
  note steps = this heart [unfolded four]
  have "(go_step sample_ops (\<lambda>_. 0) ^^ Suc (Suc (Suc (Suc (Suc 0))))) (sample_node\<lparr>nd_ctx := True\<rparr>) gone_node"
    by (subst start) (rule relpowp_Suc_I2, rule steps(1), rule relpowp_Suc_I2, rule steps(2), rule relpowp_Suc_I2,
        rule steps(3), rule relpowp_Suc_I2, rule steps(4), rule relpowp_Suc_I2, rule steps(5), rule relpowp_0_I)
  then show ?thesis by (simp only: five)
qed

lemma gone_node_stuck: "\<not> go_step sample_ops (\<lambda>_. 0) gone_node nd"
proof
  assume "go_step sample_ops (\<lambda>_. 0) gone_node nd"
  then show False
    by (cases rule: go_step.cases) (auto simp: gone_node_def less_Suc_eq numeral_eq_Suc elim!: heart_step.cases)
qed

lemma worker_stop_returns_witness:
  "\<exists>nd'. (go_step sample_ops (\<lambda>_. 0) ^^ 5) (sample_node\<lparr>nd_ctx := True\<rparr>) nd' \<and>
     (\<forall>nd''. \<not> go_step sample_ops (\<lambda>_. 0) nd' nd'') \<and> \<not> nd_crashed nd' \<and> nd_wg nd' = 0"
proof -
  have "tasks_end sample_ops (\<lambda>_. 0) (wk_registry (nd_worker (sample_node\<lparr>nd_ctx := True\<rparr>)))"
    "stopping (sample_node\<lparr>nd_ctx := True\<rparr>)" "\<not> nd_crashed (sample_node\<lparr>nd_ctx := True\<rparr>)"
    "tasks_safe sample_ops (\<lambda>_. 0) (wk_registry (nd_worker (sample_node\<lparr>nd_ctx := True\<rparr>)))"
    "0 \<le> wc_HeartbeatInterval sample_config"
    by (simp_all add: sample_node_simps flaky_ends flaky_safe stopping_def sample_config_def)
  then show ?thesis
    using worker_stop_returns [OF node_reach.cancelled [OF sample_node_reach] sample_config_64 _ _ sample_node_stops]
      sample_node_stops gone_node_stuck by blast
qed

definition hasty_config :: worker_config where
  "hasty_config = sample_config\<lparr>wc_HeartbeatInterval := - 1\<rparr>"

lemma negative_heartbeat_panics_witness:
  "\<exists>nd :: (memory_store, nat) node. node_reach sample_ops (\<lambda>_. 0) hasty_config nd \<and>
     go_step sample_ops (\<lambda>_. 0) nd (nd\<lparr>nd_crashed := True\<rparr>)"
proof -
  obtain wk :: "nat worker" where "New '''' None hasty_config (Register flaky NewRegistry) = Ret (Inr wk)"
    by (simp add: New_def hasty_config_def sample_config_def make_chan_def wrap64_def)
  moreover obtain nd where nd: "worker_Start (new_node wk worker_store 0) = (None, nd)" "nd_crashed nd = False"
    by (simp add: worker_Start_def Let_def start_loops_form new_node_def)
  ultimately have reach: "node_reach sample_ops (\<lambda>_. 0) hasty_config nd" by (blast intro: node_reach.started)
  have "in_int64 (wc_Concurrency hasty_config)" "wc_HeartbeatInterval hasty_config < 0"
    using sample_config_64 by (simp_all add: hasty_config_def)
  from negative_heartbeat_panics [OF reach this] reach nd(2) show ?thesis by blast
qed

end
