(* ===== verification/Dag_Parser.thy ===== *)
theory Dag_Parser
  imports Dag_Cycle Duration
begin

text \<open>
  \<^verbatim>\<open>pkg/dag/parser.go\<close>: from the decoded YAML document to a validated DAG. Reading the file and
  decoding YAML are arguments (the file system and \<^verbatim>\<open>gopkg.in/yaml.v3\<close>); everything after that is modelled.
  The main result says which documents are accepted, and what DAG they become.
\<close>

section \<open>The decoded document\<close>

record yaml_schedule =
  ys_Expression :: string
  ys_Timezone :: string
  ys_Catchup :: bool

record yaml_retry =
  yr_MaxRetries :: int
  yr_InitialBackoff :: string
  yr_MaxBackoff :: string
  yr_BackoffFactor :: f64
  yr_RetryOn :: "string list"

record yaml_config =
  yc_MaxConcurrency :: int
  yc_Timeout :: string
  yc_DefaultRetry :: "yaml_retry option"
  yc_Params :: "(string, string) fmap"
  yc_Tags :: "string list"
  yc_Owner :: string
  yc_SLADuration :: string

record yaml_task =
  yt_ID :: string
  yt_Name :: string
  yt_Executor :: string
  yt_Config :: "(string, gval) fmap"
  yt_RetryPolicy :: "yaml_retry option"
  yt_Timeout :: string
  yt_Dependencies :: "string list"
  yt_Labels :: "(string, string) fmap"
  yt_Priority :: int

record yaml_dag =
  yd_ID :: string
  yd_Name :: string
  yd_Description :: string
  yd_Schedule :: "yaml_schedule option"
  yd_Config :: "yaml_config option"
  yd_Tasks :: "yaml_task list"
  yd_Version :: int

section \<open>Building\<close>

text \<open>
  \<^verbatim>\<open>if s != "" { x, err = time.ParseDuration(s) }\<close>, with \<open>x\<close> unchanged if the text is empty and the
  error wrapped with the text.
\<close>

definition duration_or :: "string \<Rightarrow> string \<Rightarrow> duration \<Rightarrow> err + duration" where
  "duration_or fmt s x =
     (if s \<noteq> [] then (case ParseDuration s of Inl e \<Rightarrow> Inl (Err fmt [FStr s, FErr e]) | Inr d \<Rightarrow> Inr d)
      else Inr x)"

definition parseRetryPolicy :: "yaml_retry \<Rightarrow> err + retry_policy" where
  "parseRetryPolicy raw =
     (let rp = \<lparr>MaxRetries = yr_MaxRetries raw, InitialBackoff = 0, MaxBackoff = 0,
               BackoffFactor = yr_BackoffFactor raw, RetryOn = yr_RetryOn raw\<rparr>;
          rp = (if BackoffFactor rp = Fin 0 then rp\<lparr>BackoffFactor := Fin 2\<rparr> else rp)
      in case duration_or ''parse initial_backoff %q: %w'' (yr_InitialBackoff raw) (10 * 1000000000) of
           Inl e \<Rightarrow> Inl e
         | Inr d1 \<Rightarrow>
             (case duration_or ''parse max_backoff %q: %w'' (yr_MaxBackoff raw) (5 * 60000000000) of
                Inl e \<Rightarrow> Inl e
              | Inr d2 \<Rightarrow> Inr (rp\<lparr>InitialBackoff := d1, MaxBackoff := d2\<rparr>)))"

definition buildTask :: "yaml_task \<Rightarrow> retry_policy option \<Rightarrow> err + task" where
  "buildTask raw defaultRetry =
     (let t = \<lparr>task_ID = yt_ID raw, task_Name = yt_Name raw, Executor = yt_Executor raw,
              Config = yt_Config raw, RetryPolicy = None, Timeout = 0,
              Dependencies = yt_Dependencies raw, Labels = yt_Labels raw, Priority = yt_Priority raw\<rparr>
      in case duration_or ''parse timeout %q: %w'' (yt_Timeout raw) 0 of
           Inl e \<Rightarrow> Inl e
         | Inr d \<Rightarrow>
             (let t = t\<lparr>Timeout := d\<rparr> in
              case yt_RetryPolicy raw of
                Some rr \<Rightarrow>
                  (case parseRetryPolicy rr of
                     Inl e \<Rightarrow> Inl e
                   | Inr rp \<Rightarrow> Inr (t\<lparr>RetryPolicy := Some rp\<rparr>))
              | None \<Rightarrow> Inr (case defaultRetry of
                             Some cp \<Rightarrow> t\<lparr>RetryPolicy := Some cp\<rparr> | None \<Rightarrow> t)))"

definition build_config :: "yaml_config option \<Rightarrow> dag_config \<Rightarrow> err + dag_config" where
  "build_config raw c =
     (case raw of
        None \<Rightarrow> Inr c
      | Some y \<Rightarrow>
          (let c = c\<lparr>MaxConcurrency := (if yc_MaxConcurrency y = 0 then 16 else yc_MaxConcurrency y),
                    Params := yc_Params y, Tags := yc_Tags y, Owner := yc_Owner y\<rparr>
           in case duration_or ''parse DAG timeout %q: %w'' (yc_Timeout y) (cfg_Timeout c) of
                Inl e \<Rightarrow> Inl e
              | Inr d \<Rightarrow>
                  (case duration_or ''parse SLA duration %q: %w'' (yc_SLADuration y) (SLADuration c) of
                     Inl e \<Rightarrow> Inl e
                   | Inr sla \<Rightarrow>
                       (let c = c\<lparr>cfg_Timeout := d, SLADuration := sla\<rparr> in
                        case yc_DefaultRetry y of
                          None \<Rightarrow> Inr c
                        | Some rr \<Rightarrow>
                            (case parseRetryPolicy rr of
                               Inl e \<Rightarrow> Inl (Err ''parse default retry policy: %w'' [FErr e])
                             | Inr rp \<Rightarrow> Inr (c\<lparr>DefaultRetry := Some rp\<rparr>))))))"

fun add_raw_tasks :: "yaml_task list \<Rightarrow> dag \<Rightarrow> err + dag" where
  "add_raw_tasks [] d = Inr d"
| "add_raw_tasks (rt # rts) d =
     (case buildTask rt (DefaultRetry (DConfig d)) of
        Inl e \<Rightarrow> Inl (Err ''parse task %q: %w'' [FStr (yt_ID rt), FErr e])
      | Inr t \<Rightarrow> (case AddTask d t of Inl e \<Rightarrow> Inl e | Inr d' \<Rightarrow> add_raw_tasks rts d'))"

text \<open>The time of the call and the orders in which its loops visit the maps.\<close>

record parse_world =
  pw_now :: time
  pw_build :: "tasks \<Rightarrow> string list"
  pw_edges :: "edges \<Rightarrow> string list"
  pw_check :: "tasks \<Rightarrow> string list"

definition buildDAG :: "parse_world \<Rightarrow> yaml_dag \<Rightarrow> (err + dag) outcome" where
  "buildDAG w raw =
     (let d = NewDAG (pw_now w) (yd_ID raw) (yd_Name raw);
          d = d\<lparr>Description := yd_Description raw, Version := yd_Version raw\<rparr>;
          d = (if Version d = 0 then d\<lparr>Version := 1\<rparr> else d);
          d = (case yd_Schedule raw of
                 None \<Rightarrow> d
               | Some s \<Rightarrow> d\<lparr>Schedule_of := Some \<lparr>Expression = ys_Expression s,
                             Timezone = ys_Timezone s, Catchup = ys_Catchup s\<rparr>\<rparr>)
      in case build_config (yd_Config raw) (DConfig d) of
           Inl e \<Rightarrow> Ret (Inl e)
         | Inr c \<Rightarrow>
             (case add_raw_tasks (yd_Tasks raw) (d\<lparr>DConfig := c\<rparr>) of
                Inl e \<Rightarrow> Ret (Inl e)
              | Inr d \<Rightarrow>
                  (case BuildEdgesFromDependencies (pw_build w (Tasks d)) d of
                     (d, Some e) \<Rightarrow> Ret (Inl e)
                   | (d, None) \<Rightarrow>
                       bind_outcome (Validate (pw_edges w (Edges d)) (pw_check w (Tasks d)) d) (\<lambda>e.
                         Ret (case e of Some e \<Rightarrow> Inl e | None \<Rightarrow> Inr d)))))"

text \<open>
  \<open>unmarshal\<close> is \<^verbatim>\<open>yaml.Unmarshal\<close> into a \<^verbatim>\<open>yamlDAG\<close>; \<open>file\<close> gives the result of \<^verbatim>\<open>os.Open\<close> on a path
  and, if it could be opened, the result of \<^verbatim>\<open>io.ReadAll\<close>.
\<close>

definition ParseBytes :: "(string \<Rightarrow> err + yaml_dag) \<Rightarrow> parse_world \<Rightarrow> string \<Rightarrow> (err + dag) outcome" where
  "ParseBytes unmarshal w data =
     (case unmarshal data of
        Inl e \<Rightarrow> Ret (Inl (Err ''unmarshal DAG YAML: %w'' [FErr e]))
      | Inr raw \<Rightarrow> buildDAG w raw)"

definition Parse ::
  "(string \<Rightarrow> err + yaml_dag) \<Rightarrow> parse_world \<Rightarrow> err + string \<Rightarrow> (err + dag) outcome" where
  "Parse unmarshal w r =
     (case r of
        Inl e \<Rightarrow> Ret (Inl (Err ''read DAG: %w'' [FErr e]))
      | Inr data \<Rightarrow> ParseBytes unmarshal w data)"

definition ParseFile ::
  "(string \<Rightarrow> err + yaml_dag) \<Rightarrow> (string \<Rightarrow> err + (err + string)) \<Rightarrow> parse_world \<Rightarrow> string \<Rightarrow>
     (err + dag) outcome" where
  "ParseFile unmarshal file w path =
     (case file path of
        Inl e \<Rightarrow> Ret (Inl (Err ''open DAG file %s: %w'' [FStr path, FErr e]))
      | Inr r \<Rightarrow> Parse unmarshal w r)"

section \<open>Which documents are accepted\<close>

text \<open>The map of tasks that a list of tasks is filed in.\<close>

definition file_tasks :: "task list \<Rightarrow> tasks \<Rightarrow> tasks" where
  "file_tasks ts m = fold (\<lambda>t. fmupd (task_ID t) t) ts m"

lemma file_tasks_simps [simp]:
  "file_tasks [] m = m" "file_tasks (t # ts) m = file_tasks ts (fmupd (task_ID t) t m)"
  by (simp_all add: file_tasks_def)

lemma fmdom_file_tasks: "fmdom' (file_tasks ts m) = task_ID ` set ts \<union> fmdom' m"
  by (induction ts arbitrary: m) auto

lemma lookup_file_tasks:
  "distinct (map task_ID ts) \<Longrightarrow>
     fmlookup (file_tasks ts m) i =
       (case find (\<lambda>t. task_ID t = i) ts of Some t \<Rightarrow> Some t | None \<Rightarrow> fmlookup m i)"
proof (induction ts arbitrary: m)
  case (Cons t ts)
  have "find (\<lambda>u. task_ID u = task_ID t) ts = None"     using Cons.prems by (auto simp: find_None_iff intro: rev_image_eqI)
  then show ?case using Cons by (auto split: option.split)
qed simp

lemma well_keyed_file_tasks:
  "well_keyed m \<Longrightarrow> '''' \<notin> task_ID ` set ts \<Longrightarrow> well_keyed (file_tasks ts m)"
proof (induction ts arbitrary: m)
  case (Cons t ts)
  then have "well_keyed (fmupd (task_ID t) t m)" by (intro well_keyed_upd) auto
  then show ?case using Cons by auto
qed simp

lemma map_Inr_Cons:
  assumes "f x = Inr y"
  shows "(\<exists>ys. map f (x # xs) = map Inr ys \<and> P ys) \<longleftrightarrow> (\<exists>ys. map f xs = map Inr ys \<and> P (y # ys))"
  using assms by (auto simp: Cons_eq_map_conv)

lemma add_raw_tasks_iff:
  "add_raw_tasks rts d = Inr d' \<longleftrightarrow>
     (\<exists>ts. map (\<lambda>rt. buildTask rt (DefaultRetry (DConfig d))) rts = map Inr ts \<and>
        distinct (map task_ID ts) \<and> '''' \<notin> task_ID ` set ts \<and>
        task_ID ` set ts \<inter> fmdom' (Tasks d) = {} \<and> d' = d\<lparr>Tasks := file_tasks ts (Tasks d)\<rparr>)"
proof (induction rts arbitrary: d)
  case (Cons rt rts)
  show ?case
  proof (cases "buildTask rt (DefaultRetry (DConfig d))")
    case (Inr t)
    note step = map_Inr_Cons [of "\<lambda>rt. buildTask rt (DefaultRetry (DConfig d))" rt t rts, OF Inr]
    show ?thesis
    proof (cases "task_ID t = '''' \<or> task_ID t \<in> fmdom' (Tasks d)")
      case True
      then have "\<exists>e. AddTask d t = Inl e" by (auto simp: AddTask_def fmlookup_dom'_iff)
      then show ?thesis unfolding step using True Inr by auto
    next
      case False
      let ?d = "d\<lparr>Tasks := fmupd (task_ID t) t (Tasks d)\<rparr>"
      have "AddTask d t = Inr ?d"
        using False by (auto simp: AddTask_def fmlookup_dom'_iff)
      then have "add_raw_tasks (rt # rts) d = Inr d' \<longleftrightarrow> add_raw_tasks rts ?d = Inr d'"
        using Inr by simp
      also have "\<dots> \<longleftrightarrow> (\<exists>ts. map (\<lambda>rt. buildTask rt (DefaultRetry (DConfig d))) rts = map Inr ts \<and>
        distinct (map task_ID (t # ts)) \<and> '''' \<notin> task_ID ` set (t # ts) \<and>
        task_ID ` set (t # ts) \<inter> fmdom' (Tasks d) = {} \<and> d' = d\<lparr>Tasks := file_tasks (t # ts) (Tasks d)\<rparr>)"
        unfolding Cons.IH using False by (intro ex_cong1) auto
      finally show ?thesis unfolding step .
    qed
  qed auto
qed auto

text \<open>The orders visit every task and every edge list.\<close>

definition parse_orders :: "parse_world \<Rightarrow> bool" where
  "parse_orders w \<longleftrightarrow> (\<forall>ts. ranges (pw_build w ts) ts \<and> ranges (pw_check w ts) ts) \<and>
     (\<forall>es. ranges (pw_edges w es) es)"

section \<open>What a document says\<close>

text \<open>
  The meaning of a document as relations between its texts and the values of a DAG, written down apart from the
  code that reads it. \<open>x\<close> is the duration that the text \<open>s\<close> gives, or the default if there is no text.
\<close>

definition reads_duration :: "string \<Rightarrow> duration \<Rightarrow> duration \<Rightarrow> bool" where
  "reads_duration s dflt x \<longleftrightarrow> (if s = '''' then x = dflt else ParseDuration s = Inr x)"

definition reads_policy :: "yaml_retry \<Rightarrow> retry_policy \<Rightarrow> bool" where
  "reads_policy rr p \<longleftrightarrow> MaxRetries p = yr_MaxRetries rr \<and> RetryOn p = yr_RetryOn rr \<and>
     BackoffFactor p = (if yr_BackoffFactor rr = Fin 0 then Fin 2 else yr_BackoffFactor rr) \<and>
     reads_duration (yr_InitialBackoff rr) (10 * 1000000000) (InitialBackoff p) \<and>
     reads_duration (yr_MaxBackoff rr) (300 * 1000000000) (MaxBackoff p)"

text \<open>A task without a policy of its own has the default policy of the DAG, or none.\<close>

definition reads_task :: "yaml_task \<Rightarrow> retry_policy option \<Rightarrow> task \<Rightarrow> bool" where
  "reads_task rt dr t \<longleftrightarrow>
     task_ID t = yt_ID rt \<and> task_Name t = yt_Name rt \<and> Executor t = yt_Executor rt \<and>
     Config t = yt_Config rt \<and> Dependencies t = yt_Dependencies rt \<and> Labels t = yt_Labels rt \<and>
     Priority t = yt_Priority rt \<and> reads_duration (yt_Timeout rt) 0 (Timeout t) \<and>
     (case yt_RetryPolicy rt of
        Some rr \<Rightarrow> \<exists>p. RetryPolicy t = Some p \<and> reads_policy rr p
      | None \<Rightarrow> RetryPolicy t = dr)"

text \<open>
  Without a configuration, a DAG runs 16 tasks at a time and has no timeout, SLA, retries, parameters, tags or
  owner.
\<close>

definition reads_config :: "yaml_config option \<Rightarrow> dag_config \<Rightarrow> bool" where
  "reads_config raw c \<longleftrightarrow>
     (case raw of
        None \<Rightarrow> MaxConcurrency c = 16 \<and> cfg_Timeout c = 0 \<and> SLADuration c = 0 \<and> DefaultRetry c = None \<and>
          Params c = fmempty \<and> Tags c = [] \<and> Owner c = ''''
      | Some y \<Rightarrow>
          MaxConcurrency c = (if yc_MaxConcurrency y = 0 then 16 else yc_MaxConcurrency y) \<and>
          reads_duration (yc_Timeout y) 0 (cfg_Timeout c) \<and>
          reads_duration (yc_SLADuration y) 0 (SLADuration c) \<and>
          (case yc_DefaultRetry y of
             Some rr \<Rightarrow> \<exists>p. DefaultRetry c = Some p \<and> reads_policy rr p
           | None \<Rightarrow> DefaultRetry c = None) \<and>
          Params c = yc_Params y \<and> Tags c = yc_Tags y \<and> Owner c = yc_Owner y)"

text \<open>The DAG without its tasks and edges; an absent version is 1.\<close>

definition document_head :: "time \<Rightarrow> yaml_dag \<Rightarrow> dag_config \<Rightarrow> dag" where
  "document_head now raw c =
     \<lparr>dag_ID = yd_ID raw, dag_Name = yd_Name raw, Description = yd_Description raw, Tasks = fmempty,
      Edges = fmempty,
      Schedule_of = map_option (\<lambda>s. \<lparr>Expression = ys_Expression s, Timezone = ys_Timezone s,
        Catchup = ys_Catchup s\<rparr>) (yd_Schedule raw),
      DConfig = c, Version = (if yd_Version raw = 0 then 1 else yd_Version raw),
      dag_CreatedAt = now, dag_UpdatedAt = now\<rparr>"

text \<open>
  A document is in order if its durations parse, its ID and the IDs of its tasks are not empty,
  it has a task and no two with the same ID, every task names an executor, and the dependencies are
  tasks and go round in no circle. \<open>c\<close> and \<open>ts\<close> are its configuration and its tasks.
\<close>

definition document_ok :: "yaml_dag \<Rightarrow> dag_config \<Rightarrow> task list \<Rightarrow> bool" where
  "document_ok raw c ts \<longleftrightarrow>
     reads_config (yd_Config raw) c \<and> list_all2 (\<lambda>rt. reads_task rt (DefaultRetry c)) (yd_Tasks raw) ts \<and>
     yd_ID raw \<noteq> '''' \<and> ts \<noteq> [] \<and> distinct (map task_ID ts) \<and> '''' \<notin> task_ID ` set ts \<and>
     (\<forall>t \<in> set ts. Executor t \<noteq> '''' \<and> set (Dependencies t) \<subseteq> task_ID ` set ts) \<and>
     acyclic (dep_rel (file_tasks ts fmempty))"

text \<open>The code reads exactly this.\<close>

lemma duration_or_Inr: "duration_or fmt s x = Inr d \<longleftrightarrow> reads_duration s x d"
  by (auto simp: duration_or_def reads_duration_def split: sum.splits)

lemma duration_or_reads: "reads_duration s x d \<Longrightarrow> duration_or fmt s x = Inr d"
  by (simp add: duration_or_Inr)

lemma parseRetryPolicy_Inr: "parseRetryPolicy rr = Inr p \<longleftrightarrow> reads_policy rr p"
proof
  assume "reads_policy rr p"
  then show "parseRetryPolicy rr = Inr p"
    by (cases p) (auto simp: parseRetryPolicy_def reads_policy_def Let_def duration_or_reads)
qed (auto simp: parseRetryPolicy_def reads_policy_def Let_def duration_or_Inr split: sum.splits if_splits)

lemma buildTask_Inr: "buildTask rt dr = Inr t \<longleftrightarrow> reads_task rt dr t"
proof
  assume "reads_task rt dr t"
  then show "buildTask rt dr = Inr t"
    by (cases t) (auto simp: buildTask_def reads_task_def Let_def duration_or_reads
        dest!: parseRetryPolicy_Inr [THEN iffD2] split: option.splits)
qed (auto simp: buildTask_def reads_task_def Let_def duration_or_Inr parseRetryPolicy_Inr
    split: sum.splits option.splits)

lemma build_config_Inr: "build_config raw (DConfig (NewDAG 0 '''' '''')) = Inr c \<longleftrightarrow> reads_config raw c"
proof
  assume "reads_config raw c"
  then show "build_config raw (DConfig (NewDAG 0 '''' '''')) = Inr c"
    by (cases c) (auto simp: build_config_def reads_config_def NewDAG_def Let_def duration_or_reads
        dest!: parseRetryPolicy_Inr [THEN iffD2] split: option.splits)
qed (auto simp: build_config_def reads_config_def NewDAG_def Let_def duration_or_Inr parseRetryPolicy_Inr
    split: sum.splits option.splits)

lemma map_Inr_list_all2: "map f xs = map Inr ys \<longleftrightarrow> list_all2 (\<lambda>x y. f x = Inr y) xs ys"
  by (auto simp: list_all2_conv_all_nth list_eq_iff_nth_eq)

lemma document_ok_built:
  "document_ok raw c ts \<longleftrightarrow>
     build_config (yd_Config raw) (DConfig (NewDAG 0 '''' '''')) = Inr c \<and>
     map (\<lambda>rt. buildTask rt (DefaultRetry c)) (yd_Tasks raw) = map Inr ts \<and>
     yd_ID raw \<noteq> '''' \<and> ts \<noteq> [] \<and> distinct (map task_ID ts) \<and> '''' \<notin> task_ID ` set ts \<and>
     (\<forall>t \<in> set ts. Executor t \<noteq> '''' \<and> set (Dependencies t) \<subseteq> task_ID ` set ts) \<and>
     acyclic (dep_rel (file_tasks ts fmempty))"
  by (simp only: document_ok_def build_config_Inr map_Inr_list_all2 buildTask_Inr)

lemma lookup_filed:
  assumes "distinct (map task_ID ts)"
  shows "fmlookup (file_tasks ts fmempty) i = Some t \<longleftrightarrow> t \<in> set ts \<and> task_ID t = i"
proof -
  have "find (\<lambda>t. task_ID t = i) ts = Some t \<longleftrightarrow> t \<in> set ts \<and> task_ID t = i"
    using assms by (induction ts) auto
  then show ?thesis
    using lookup_file_tasks [OF assms, of fmempty i] by (cases "find (\<lambda>t. task_ID t = i) ts") auto
qed

lemma filed_facts:
  assumes "distinct (map task_ID ts)"
  shows "deps_known (file_tasks ts fmempty) \<longleftrightarrow> (\<forall>t \<in> set ts. set (Dependencies t) \<subseteq> task_ID ` set ts)"
    and "has_executors (file_tasks ts fmempty) \<longleftrightarrow> (\<forall>t \<in> set ts. Executor t \<noteq> '''')"
    and "file_tasks ts fmempty = fmempty \<longleftrightarrow> ts = []"
proof -
  show "deps_known (file_tasks ts fmempty) \<longleftrightarrow> (\<forall>t \<in> set ts. set (Dependencies t) \<subseteq> task_ID ` set ts)"
    using lookup_filed [OF assms] by (auto simp: deps_known_def fmpred_iff fmdom_file_tasks)
  show "has_executors (file_tasks ts fmempty) \<longleftrightarrow> (\<forall>t \<in> set ts. Executor t \<noteq> '''')"
    using lookup_filed [OF assms] by (auto simp: has_executors_def fmpred_iff)
  show "file_tasks ts fmempty = fmempty \<longleftrightarrow> ts = []"
    using fmdom_file_tasks [of ts fmempty] by (cases ts) (auto simp: fmdom'_notI)
qed

text \<open>The last two steps, on a DAG whose tasks are filed and that has no edges yet.\<close>

definition finish_dag :: "parse_world \<Rightarrow> dag \<Rightarrow> (err + dag) outcome" where
  "finish_dag w d =
     (case BuildEdgesFromDependencies (pw_build w (Tasks d)) d of
        (d, Some e) \<Rightarrow> Ret (Inl e)
      | (d, None) \<Rightarrow>
          bind_outcome (Validate (pw_edges w (Edges d)) (pw_check w (Tasks d)) d) (\<lambda>e.
            Ret (case e of Some e \<Rightarrow> Inl e | None \<Rightarrow> Inr d)))"

lemma finish_dag_spec:
  assumes "parse_orders w" "well_keyed (Tasks d)"
  shows "\<exists>r. finish_dag w d = Ret r \<and>
    ((\<exists>d'. r = Inr d') \<longleftrightarrow> deps_known (Tasks d) \<and> dag_ID d \<noteq> '''' \<and> Tasks d \<noteq> fmempty \<and>
       acyclic (dep_rel (Tasks d)) \<and> has_executors (Tasks d)) \<and>
    (\<forall>d'. r = Inr d' \<longrightarrow> d' = d\<lparr>Edges := Edges d'\<rparr> \<and> edge_rel (Edges d') = dep_rel (Tasks d') \<and> wf_dag d')"
proof -
  have ord: "ranges (pw_build w (Tasks d)) (Tasks d)" using assms(1) by (simp add: parse_orders_def)
  obtain d' e where b: "BuildEdgesFromDependencies (pw_build w (Tasks d)) d = (d', e)" by fastforce
  have d': "d' = d\<lparr>Edges := Edges d'\<rparr>"
    using BuildEdges_frame [of "pw_build w (Tasks d)" d] b by simp
  then have same: "Tasks d' = Tasks d" "dag_ID d' = dag_ID d" by (metis dag.select_convs dag.update_convs(5) dag.surjective)+
  show ?thesis
  proof (cases e)
    case (Some x)
    then have "\<not> deps_known (Tasks d)" using BuildEdges_ok_iff [OF ord] b by simp
    then show ?thesis using b Some by (auto simp: finish_dag_def)
  next
    case None
    then have known: "deps_known (Tasks d)" using BuildEdges_ok_iff [OF ord] b by simp
    have wf: "wf_dag d'" using BuildEdges_wf [OF assms(2), of "pw_build w (Tasks d)"] b by simp
    have rel: "edge_rel (Edges d') = dep_rel (Tasks d)"
      using BuildEdges_edge_rel [OF assms(2) ord] b None by simp
    obtain v where v: "Validate (pw_edges w (Edges d')) (pw_check w (Tasks d')) d' = Ret v"
        "v = None \<longleftrightarrow> dag_ID d' \<noteq> '''' \<and> Tasks d' \<noteq> fmempty \<and> edges_closed (Tasks d') (Edges d') \<and>
           acyclic (edge_rel (Edges d')) \<and> has_executors (Tasks d')"
      using Validate_spec [of d' "pw_edges w (Edges d')" "pw_check w (Tasks d')"] assms wf
      by (auto simp: parse_orders_def wf_dag_def)
    have "finish_dag w d = Ret (case v of Some e \<Rightarrow> Inl e | None \<Rightarrow> Inr d')"
      using b None v(1) by (simp add: finish_dag_def)
    then show ?thesis
      using v(2) known rel wf d' same wf_dag_closed [OF wf] by (cases v) simp_all
  qed
qed

lemma NewDAG_config: "DConfig (NewDAG now i n) = DConfig (NewDAG 0 '''' '''')" "Tasks (NewDAG now i n) = fmempty"
  by (simp_all add: NewDAG_def)

lemma buildDAG_steps:
  "buildDAG w raw =
     (case build_config (yd_Config raw) (DConfig (NewDAG 0 '''' '''')) of
        Inl e \<Rightarrow> Ret (Inl e)
      | Inr c \<Rightarrow>
          (case add_raw_tasks (yd_Tasks raw) (document_head (pw_now w) raw c) of
             Inl e \<Rightarrow> Ret (Inl e)
           | Inr d \<Rightarrow> finish_dag w d))"
proof -
  define d where "d = (let d = NewDAG (pw_now w) (yd_ID raw) (yd_Name raw);
          d = d\<lparr>Description := yd_Description raw, Version := yd_Version raw\<rparr>;
          d = (if Version d = 0 then d\<lparr>Version := 1\<rparr> else d)
      in (case yd_Schedule raw of
                 None \<Rightarrow> d
               | Some s \<Rightarrow> d\<lparr>Schedule_of := Some \<lparr>Expression = ys_Expression s,
                             Timezone = ys_Timezone s, Catchup = ys_Catchup s\<rparr>\<rparr>))"
  have "DConfig d = DConfig (NewDAG 0 '''' '''')" "d\<lparr>DConfig := c\<rparr> = document_head (pw_now w) raw c" for c
    by (simp_all add: d_def Let_def document_head_def NewDAG_def split: option.split)
  moreover have "buildDAG w raw =
     (case build_config (yd_Config raw) (DConfig d) of
        Inl e \<Rightarrow> Ret (Inl e)
      | Inr c \<Rightarrow>
          (case add_raw_tasks (yd_Tasks raw) (d\<lparr>DConfig := c\<rparr>) of
             Inl e \<Rightarrow> Ret (Inl e)
           | Inr d \<Rightarrow> finish_dag w d))"
    by (simp only: buildDAG_def finish_dag_def Let_def d_def)
  ultimately show ?thesis by (simp split: sum.split)
qed

lemma document_head_simps [simp]:
  "Tasks (document_head now raw c) = fmempty" "DConfig (document_head now raw c) = c"
  "dag_ID (document_head now raw c) = yd_ID raw"
  by (simp_all add: document_head_def NewDAG_def)

definition document_dag :: "time \<Rightarrow> yaml_dag \<Rightarrow> dag_config \<Rightarrow> task list \<Rightarrow> dag" where
  "document_dag now raw c ts = document_head now raw c\<lparr>Tasks := file_tasks ts fmempty\<rparr>"

lemma add_document_tasks:
  "add_raw_tasks (yd_Tasks raw) (document_head now raw c) = Inr d \<longleftrightarrow>
     (\<exists>ts. map (\<lambda>rt. buildTask rt (DefaultRetry c)) (yd_Tasks raw) = map Inr ts \<and>
        distinct (map task_ID ts) \<and> '''' \<notin> task_ID ` set ts \<and> d = document_dag now raw c ts)"
  by (simp add: add_raw_tasks_iff document_dag_def)

lemma map_Inr_inj: "map Inr xs = map Inr ys \<Longrightarrow> xs = ys"
  by (simp add: inj_on_def)

lemma buildDAG_spec:
  assumes "parse_orders w"
  shows "\<exists>r. buildDAG w raw = Ret r \<and>
    ((\<exists>d. r = Inr d) \<longleftrightarrow> (\<exists>c ts. document_ok raw c ts)) \<and>
    (\<forall>d. r = Inr d \<longrightarrow> wf_dag d \<and> edge_rel (Edges d) = dep_rel (Tasks d) \<and>
       (\<exists>c ts. document_ok raw c ts \<and> d = document_dag (pw_now w) raw c ts\<lparr>Edges := Edges d\<rparr>))"
proof (cases "build_config (yd_Config raw) (DConfig (NewDAG 0 '''' ''''))")
  case (Inl e)
  then show ?thesis by (auto simp: buildDAG_steps document_ok_built)
next
  case (Inr c)
  show ?thesis
  proof (cases "add_raw_tasks (yd_Tasks raw) (document_head (pw_now w) raw c)")
    case (Inl e)
    then have "\<not> document_ok raw c' ts" for c' ts
      using Inr add_document_tasks [of raw "pw_now w" c] by (auto simp: document_ok_built)
    then show ?thesis using Inr Inl by (auto simp: buildDAG_steps)
  next
    case (Inr d)
    then obtain ts where ts: "map (\<lambda>rt. buildTask rt (DefaultRetry c)) (yd_Tasks raw) = map Inr ts"
        "distinct (map task_ID ts)" "'''' \<notin> task_ID ` set ts" "d = document_dag (pw_now w) raw c ts"
      unfolding add_document_tasks by blast
    have keyed: "well_keyed (Tasks d)"
      using well_keyed_file_tasks [of fmempty ts] ts(3,4)
      by (simp add: document_dag_def well_keyed_def)
    have ok: "document_ok raw c' ts' \<longleftrightarrow> c' = c \<and> ts' = ts \<and> deps_known (Tasks d) \<and> dag_ID d \<noteq> '''' \<and>
        Tasks d \<noteq> fmempty \<and> acyclic (dep_rel (Tasks d)) \<and> has_executors (Tasks d)" for c' ts'
    proof -
      have "document_ok raw c' ts' \<longleftrightarrow> c' = c \<and> ts' = ts \<and> yd_ID raw \<noteq> '''' \<and> ts \<noteq> [] \<and>
          (\<forall>t \<in> set ts. Executor t \<noteq> '''') \<and> (\<forall>t \<in> set ts. set (Dependencies t) \<subseteq> task_ID ` set ts) \<and>
          acyclic (dep_rel (file_tasks ts fmempty))"
        unfolding document_ok_built ball_conj_distrib
        using \<open>build_config _ _ = Inr c\<close> ts(1-3) map_Inr_inj [of ts ts'] by (metis sum.inject(2))
      then show ?thesis
        unfolding filed_facts(1,2) [OF ts(2), symmetric] ts(4)
        using filed_facts(3) [OF ts(2)] by (auto simp: document_dag_def)
    qed
    have "buildDAG w raw = finish_dag w d"
      using \<open>build_config _ _ = Inr c\<close> Inr by (simp add: buildDAG_steps)
    then show ?thesis using finish_dag_spec [OF assms keyed] ok ts(4) by auto
  qed
qed

text \<open>
  C8. \<open>buildDAG\<close> always returns, and it accepts a document exactly when the document is in order:
  durations that parse, nonempty and distinct IDs, an executor for every task, known dependencies
  without a cycle. The DAG it returns has the document's fields, configuration and tasks, as the relations above
  read them, field by field and apart from the code (an absent version is 1), and as edges exactly the
  dependencies, whatever order the maps are visited in; it is well formed.
\<close>

theorem buildDAG_correct:
  assumes "parse_orders w"
  shows "\<exists>r. buildDAG w raw = Ret r \<and>
    ((\<exists>d. r = Inr d) \<longleftrightarrow> (\<exists>c ts. document_ok raw c ts)) \<and>
    (\<forall>d. r = Inr d \<longrightarrow> wf_dag d \<and> edge_rel (Edges d) = dep_rel (Tasks d) \<and>
       (\<exists>c ts. document_ok raw c ts \<and> d = document_dag (pw_now w) raw c ts\<lparr>Edges := Edges d\<rparr>))"
  using assms by (rule buildDAG_spec)

section \<open>Defaults and inherited retry policies\<close>

lemma document_task:
  assumes "document_ok raw c ts" "rt \<in> set (yd_Tasks raw)"
  shows "\<exists>t. buildTask rt (DefaultRetry c) = Inr t \<and> fmlookup (file_tasks ts fmempty) (yt_ID rt) = Some t"
proof -
  have m: "map (\<lambda>rt. buildTask rt (DefaultRetry c)) (yd_Tasks raw) = map Inr ts"
    and d: "distinct (map task_ID ts)" using assms(1) by (auto simp: document_ok_built)
  have "buildTask rt (DefaultRetry c) \<in> Inr ` set ts"
    using arg_cong [OF m, of set] assms(2) by auto
  then obtain t where t: "t \<in> set ts" "buildTask rt (DefaultRetry c) = Inr t" by auto
  then show ?thesis using lookup_filed [OF d] t(2) by (auto simp: buildTask_Inr reads_task_def)
qed


section \<open>Examples\<close>

definition plain_world :: parse_world where
  "plain_world = \<lparr>pw_now = 7, pw_build = sorted_keys, pw_edges = sorted_keys, pw_check = sorted_keys\<rparr>"

lemma plain_world_orders: "parse_orders plain_world"
  by (simp add: parse_orders_def plain_world_def)

definition yaml_step :: "string \<Rightarrow> string list \<Rightarrow> string \<Rightarrow> yaml_task" where
  "yaml_step i deps timeout =
     \<lparr>yt_ID = i, yt_Name = '''', yt_Executor = ''shell'', yt_Config = fmempty, yt_RetryPolicy = None,
      yt_Timeout = timeout, yt_Dependencies = deps, yt_Labels = fmempty, yt_Priority = 0\<rparr>"

text \<open>Two tasks in a row, with a default retry policy that leaves the backoffs out.\<close>

definition sample_document :: yaml_dag where
  "sample_document =
     \<lparr>yd_ID = ''demo'', yd_Name = ''Demo'', yd_Description = '''', yd_Schedule = None,
      yd_Config = Some \<lparr>yc_MaxConcurrency = 0, yc_Timeout = ''1h30m'',
        yc_DefaultRetry = Some \<lparr>yr_MaxRetries = 2, yr_InitialBackoff = '''', yr_MaxBackoff = ''90s'',
          yr_BackoffFactor = Fin 0, yr_RetryOn = []\<rparr>,
        yc_Params = fmempty, yc_Tags = [], yc_Owner = ''ops'', yc_SLADuration = ''2h''\<rparr>,
      yd_Tasks = [yaml_step ''a'' [] ''30s'', yaml_step ''b'' [''a''] ''''], yd_Version = 0\<rparr>"

definition sample_dag :: dag where
  "sample_dag = (case buildDAG plain_world sample_document of Ret (Inr d) \<Rightarrow> d | _ \<Rightarrow> NewDAG 0 '''' '''')"

lemma sample_parsed: "buildDAG plain_world sample_document = Ret (Inr sample_dag)"
proof -
  have "case buildDAG plain_world sample_document of Ret (Inr d) \<Rightarrow> True | _ \<Rightarrow> False"
    by code_simp
  then show ?thesis by (auto simp: sample_dag_def split: outcome.splits sum.splits)
qed

text \<open>A DAG whose timeout is 90 minutes and whose SLA is two hours.\<close>

lemma buildDAG_correct_witness:
  "\<exists>c ts. document_ok sample_document c ts \<and> wf_dag sample_dag \<and> DConfig sample_dag = c \<and>
     cfg_Timeout c = 5400 * 1000000000 \<and> SLADuration c = 7200 * 1000000000 \<and> Owner c = ''ops'' \<and>
     (\<exists>p. DefaultRetry c = Some p \<and> MaxBackoff p = 90 * 1000000000)"
proof -
  obtain c ts where ok: "document_ok sample_document c ts" "wf_dag sample_dag"
      "sample_dag = document_dag (pw_now plain_world) sample_document c ts\<lparr>Edges := Edges sample_dag\<rparr>"
    using buildDAG_correct [OF plain_world_orders, of sample_document] sample_parsed by auto
  have "DConfig sample_dag = c" by (subst ok(3)) (simp add: document_dag_def document_head_def)
  moreover have "ParseDuration ''1h30m'' = Inr 5400000000000" "ParseDuration ''2h'' = Inr 7200000000000"
    "ParseDuration ''90s'' = Inr 90000000000" by code_simp+
  ultimately show ?thesis using ok(1,2)
    by (intro exI [of _ c] exI [of _ ts])
       (auto simp: document_ok_def sample_document_def reads_config_def reads_duration_def reads_policy_def)
qed


end
