(* ===== verification/Runner.thy ===== *)
theory Runner
  imports System Executor Dag_Parser
begin

text \<open>
  \<^verbatim>\<open>cmdRun\<close> of \<^verbatim>\<open>cmd/sparkflowctl/main.go\<close>, the command that runs a DAG locally: parse the file,
  save and submit the DAG, then schedule, execute what is ready and report, until the run
  is closed. Everything below the command is the model of the other theories. Printing is left
  out, and so is the pause between two rounds without ready tasks.
\<close>

section \<open>The command\<close>

text \<open>
  What the rounds read from outside: the orders and times of the store and the scheduler in the
  \<open>n\<close>-th round, and the time at which the result of an instance is reported.
\<close>

record run_world =
  rw_mem :: "nat \<Rightarrow> mem_world"
  rw_sched :: "nat \<Rightarrow> sched_world"
  rw_report :: "nat \<Rightarrow> string \<Rightarrow> time"

datatype run_exit = NoFile | ParseFailed err | SubmitFailed err | ScheduleFailed err | Completed status

fun exit_code :: "run_exit \<Rightarrow> int" where
  "exit_code (Completed st) = (if st = StatusFailed then 1 else 0)"
| "exit_code _ = 1"

definition failed_result :: "string \<Rightarrow> task_instance \<Rightarrow> err \<Rightarrow> task_result" where
  "failed_result rid ti e =
     \<lparr>tr_TaskInstanceID = ti_ID ti, tr_RunID = rid, tr_Status = StatusFailed, tr_Output = '''',
      tr_Error = err_Error e, tr_Metrics = fmempty\<rparr>"

definition reported_result :: "string \<Rightarrow> task_instance \<Rightarrow> exec_result \<Rightarrow> task_result" where
  "reported_result rid ti r =
     \<lparr>tr_TaskInstanceID = ti_ID ti, tr_RunID = rid, tr_Status = res_Status r, tr_Output = res_Output r,
      tr_Error = (case res_Error r of None \<Rightarrow> '''' | Some e \<Rightarrow> err_Error e), tr_Metrics = fmempty\<rparr>"

text \<open>
  The body of the loop over the ready instances up to the report: what is reported, and the state of
  the executors. A task that is not in the DAG, or a nil result without an error, panics.
\<close>

definition run_task ::
  "'x registry \<Rightarrow> dag \<Rightarrow> string \<Rightarrow> task_instance \<Rightarrow> 'x \<Rightarrow> (task_result \<times> 'x) outcome" where
  "run_task reg d rid ti x =
     (case fmlookup (Tasks d) (ti_TaskID ti) of
        None \<Rightarrow> Panic
      | Some t \<Rightarrow>
          (case Get (Executor t) reg of
             Inl e \<Rightarrow> Ret (failed_result rid ti e, x)
           | Inr e \<Rightarrow>
               bind_outcome (ex_Execute e t fmempty x) (\<lambda>((result, execErr), x').
                 case execErr of
                   Some er \<Rightarrow> Ret (failed_result rid ti er, x')
                 | None \<Rightarrow> (case result of None \<Rightarrow> Panic | Some r \<Rightarrow> Ret (reported_result rid ti r, x')))))"

text \<open>The errors of \<open>ReportCompletion\<close> are dropped.\<close>

fun run_ready ::
  "'s store_ops \<Rightarrow> (string \<Rightarrow> time) \<Rightarrow> 'x registry \<Rightarrow> dag \<Rightarrow> string \<Rightarrow> task_instance list \<Rightarrow>
     's \<times> 'x \<Rightarrow> ('s \<times> 'x) outcome" where
  "run_ready ops now reg d rid [] st = Ret st"
| "run_ready ops now reg d rid (ti # tis) st =
     (let (s, x) = st in
      bind_outcome (run_task reg d rid ti x) (\<lambda>(res, x').
        let (e, s') = ReportCompletion ops (now (ti_ID ti)) (ti_TaskID ti) res s
        in run_ready ops now reg d rid tis (s', x')))"

text \<open>
  The endless loop, for at most \<open>fuel\<close> rounds. \<open>trace\<close> is for the statements below: the IDs of the tasks of
  the ready instances, in the order in which they are executed.
\<close>

fun run_loop ::
  "nat \<Rightarrow> run_world \<Rightarrow> 'x registry \<Rightarrow> dag \<Rightarrow> string \<Rightarrow> nat \<Rightarrow> sched \<times> memory_store \<times> 'x \<Rightarrow>
     string list \<Rightarrow> (run_exit \<times> string list \<times> memory_store \<times> 'x) outcome" where
  "run_loop 0 w reg d rid n st trace = Diverge"
| "run_loop (Suc fuel) w reg d rid n st trace =
     (let (sch, s, x) = st; ops = memory_ops (rw_mem w n) in
      case Schedule ops (rw_sched w n) (sch, s) of
        (Inl e, sch, s) \<Rightarrow> Ret (ScheduleFailed e, trace, s, x)
      | (Inr ready, sch, s) \<Rightarrow>
          if length ready = 0
          then (case op_GetRun ops rid s of
                  Inl e \<Rightarrow> run_loop fuel w reg d rid (n + 1) (sch, s, x) trace
                | Inr run \<Rightarrow>
                    if IsTerminal (run_Status run) then Ret (Completed (run_Status run), trace, s, x)
                    else run_loop fuel w reg d rid (n + 1) (sch, s, x) trace)
          else bind_outcome (run_ready ops (rw_report w n) reg d rid ready (s, x)) (\<lambda>(s, x).
                 run_loop fuel w reg d rid (n + 1) (sch, s, x) (trace @ map ti_TaskID ready)))"

text \<open>
  \<open>parse\<close> is \<open>ParseFile\<close> with its surroundings; \<open>su\<close> are the IDs and times that \<open>Submit\<close> draws for the
  parsed DAG.
\<close>

definition cmdRun ::
  "(string \<Rightarrow> (err + dag) outcome) \<Rightarrow> (dag \<Rightarrow> submit_world) \<Rightarrow> run_world \<Rightarrow> 'x registry \<Rightarrow> nat \<Rightarrow>
     string \<Rightarrow> 'x \<Rightarrow> (run_exit \<times> string list \<times> memory_store \<times> 'x) outcome" where
  "cmdRun parse su w reg fuel file x =
     (if file = '''' then Ret (NoFile, [], NewMemoryStore, x)
      else bind_outcome (parse file) (\<lambda>r.
        case r of
          Inl e \<Rightarrow> Ret (ParseFailed e, [], NewMemoryStore, x)
        | Inr d \<Rightarrow>
            (let ops = memory_ops (rw_mem w 0);
                 st = NewMemoryStore;
                 (d, st) = (case op_SaveDAG ops d st of Inl e \<Rightarrow> (d, st) | Inr dst \<Rightarrow> dst);
                 sch = NewFIFOScheduler 0
             in case Submit ops (su d) d fmempty (sch, st) of
                  (Inl e, sch, st) \<Rightarrow> Ret (SubmitFailed e, [], st, x)
                | (Inr rid, sch, st) \<Rightarrow> run_loop fuel w reg d rid 0 (sch, st, x) [])))"

section \<open>One round of executions\<close>

text \<open>
  All that an executor can make of a task: it returns, and the status that is reported fulfils \<open>P\<close>.
\<close>

definition reports :: "'x registry \<Rightarrow> task \<Rightarrow> (status \<Rightarrow> bool) \<Rightarrow> bool" where
  "reports reg t P \<longleftrightarrow>
     (case Get (Executor t) reg of
        Inl e \<Rightarrow> P StatusFailed
      | Inr e \<Rightarrow> (\<forall>x. \<exists>result er y. ex_Execute e t fmempty x = Ret ((result, er), y) \<and>
          (case er of Some e' \<Rightarrow> P StatusFailed
                    | None \<Rightarrow> \<exists>r. result = Some r \<and> P (res_Status r))))"

definition in_plan :: "dag \<Rightarrow> string \<Rightarrow> tasks option" where
  "in_plan d i = (if i = dag_ID d then Some (Tasks d) else None)"

lemma run_task_reports:
  assumes "fmlookup (Tasks d) (ti_TaskID ti) = Some t" "reports reg t P"
  shows "\<exists>res x'. run_task reg d rid ti x = Ret (res, x') \<and> tr_TaskInstanceID res = ti_ID ti \<and> P (tr_Status res)"
proof (cases "Get (Executor t) reg")
  case (Inl e)
  then show ?thesis using assms by (simp add: run_task_def reports_def failed_result_def)
next
  case (Inr e)
  then obtain result er y where "ex_Execute e t fmempty x = Ret ((result, er), y)"
      "case er of Some e' \<Rightarrow> P StatusFailed | None \<Rightarrow> \<exists>r. result = Some r \<and> P (res_Status r)"
    using assms(2) unfolding reports_def by fastforce
  then show ?thesis using assms(1) Inr
    by (cases er) (auto simp: run_task_def failed_result_def reported_result_def)
qed

text \<open>The instances of one round get a status each, and keep their ID, run and task.\<close>

definition updated_by ::
  "(task_instance \<Rightarrow> status \<Rightarrow> bool) \<Rightarrow> task_instance list \<Rightarrow> (string, task_instance) fmap \<Rightarrow>
     (string, task_instance) fmap \<Rightarrow> bool" where
  "updated_by R tis m m' \<longleftrightarrow>
     (\<forall>i. i \<notin> ti_ID ` set tis \<longrightarrow> fmlookup m' i = fmlookup m i) \<and>
     (\<forall>ti \<in> set tis. \<exists>ti'. fmlookup m' (ti_ID ti) = Some ti' \<and> ti_RunID ti' = ti_RunID ti \<and>
        ti_TaskID ti' = ti_TaskID ti \<and> R ti (ti_Status ti'))"

lemma run_ready_spec:
  assumes "sys_inv plan (sch, s)" and "distinct (map ti_ID tis)"
    and "\<forall>ti \<in> set tis. fmlookup (taskInstances s) (ti_ID ti) = Some ti \<and> ti_Status ti = StatusQueued"
    and "\<forall>ti \<in> set tis. \<exists>t. fmlookup (Tasks d) (ti_TaskID ti) = Some t \<and> reports reg t (R ti)"
  shows "\<exists>s' x'. run_ready (memory_ops m) now reg d rid tis (s, x) = Ret (s', x') \<and>
    sys_inv plan (sch, s') \<and> runs s' = runs s \<and> dags s' = dags s \<and>
    updated_by R tis (taskInstances s) (taskInstances s')"
  using assms
proof (induction tis arbitrary: s x)
  case Nil
  then show ?case by (simp add: updated_by_def)
next
  case (Cons ti tis)
  obtain t where t: "fmlookup (Tasks d) (ti_TaskID ti) = Some t" "reports reg t (R ti)"
    using Cons.prems(4) by auto
  obtain res x1 where res: "run_task reg d rid ti x = Ret (res, x1)"
      "tr_TaskInstanceID res = ti_ID ti" "R ti (tr_Status res)"
    using run_task_reports [OF t] by blast
  have ti: "fmlookup (taskInstances s) (ti_ID ti) = Some ti" "ti_Status ti = StatusQueued"
    using Cons.prems(3) by auto
  let ?ti = "ti\<lparr>ti_Status := tr_Status res, ti_Output := tr_Output res, ti_Error := tr_Error res,
      ti_EndTime := now (ti_ID ti)\<rparr>"
  let ?s = "s\<lparr>taskInstances := fmupd (ti_ID ti) ?ti (taskInstances s)\<rparr>"
  have rep: "ReportCompletion (memory_ops m) (now (ti_ID ti)) (ti_TaskID ti) res s = (None, ?s)"
    using ReportCompletion_memory [OF sys_invD(1) [OF Cons.prems(1)], of m "now (ti_ID ti)" "ti_TaskID ti" res]
      ti(1) res(2) by simp
  have inv: "sys_inv plan (sch, ?s)"
    by (rule update_running [OF Cons.prems(1) ti(1)]) (simp_all add: ti(2))
  have other: "b \<in> set tis \<Longrightarrow> ti_ID b \<noteq> ti_ID ti" for b
    using Cons.prems(2) by (auto intro: rev_image_eqI)
  have later: "\<forall>b \<in> set tis. fmlookup (taskInstances ?s) (ti_ID b) = Some b \<and> ti_Status b = StatusQueued"
  proof
    fix b assume "b \<in> set tis"
    then show "fmlookup (taskInstances ?s) (ti_ID b) = Some b \<and> ti_Status b = StatusQueued"
      using Cons.prems(3) other [of b] by simp
  qed
  obtain s' x' where s': "run_ready (memory_ops m) now reg d rid tis (?s, x1) = Ret (s', x')"
      "sys_inv plan (sch, s')" "runs s' = runs s" "dags s' = dags s"
      "updated_by R tis (taskInstances ?s) (taskInstances s')"
    using Cons.IH [OF inv _ later, of x1] Cons.prems(2,4) by auto
  have "ti_ID ti \<notin> ti_ID ` set tis" using Cons.prems(2) by simp
  then have "fmlookup (taskInstances s') (ti_ID ti) = Some ?ti"
    using s'(5) unfolding updated_by_def by simp
  then have "updated_by R (ti # tis) (taskInstances s) (taskInstances s')"
    using s'(5) res(3) unfolding updated_by_def by simp
  then show ?case using res(1) rep s' by (intro exI [of _ s'] exI [of _ x']) simp
qed

section \<open>Rounds\<close>

definition worlds_ok :: "run_world \<Rightarrow> bool" where
  "worlds_ok w \<longleftrightarrow> (\<forall>n. mem_world_ok (rw_mem w n) \<and> orders_ok (rw_sched w n))"

text \<open>\<open>Schedule\<close> in a round: what it hands out is queued, and is an instance of a task of the DAG.\<close>

definition hands_out ::
  "dag \<Rightarrow> run_world \<Rightarrow> nat \<Rightarrow> sched \<Rightarrow> memory_store \<Rightarrow> task_instance list \<Rightarrow> sched \<Rightarrow> memory_store \<Rightarrow> bool" where
  "hands_out d w n sch s ready sch' s' \<longleftrightarrow>
     Schedule (memory_ops (rw_mem w n)) (rw_sched w n) (sch, s) = (Inr ready, sch', s') \<and>
     sys_inv (in_plan d) (sch', s') \<and> known_dags sch' s' = known_dags sch s \<and> distinct (map ti_ID ready) \<and>
     taskInstances s' = fmmap (queue_due (rw_sched w n) (due_in sch s)) (taskInstances s) \<and>
     runs s' = fmmap (closed_run (rw_sched w n) (mw_now (rw_mem w n)) (known_dags sch s) (taskInstances s')) (runs s) \<and>
     set ready = mark_queued (rw_sched w n) `
       {ti. fmlookup (taskInstances s) (ti_ID ti) = Some ti \<and> due_in sch s ti} \<and>
     (\<forall>ti \<in> set ready. fmlookup (taskInstances s') (ti_ID ti) = Some ti \<and> ti_Status ti = StatusQueued) \<and>
     (\<forall>ti \<in> set ready. \<exists>t. fmlookup (Tasks d) (ti_TaskID ti) = Some t \<and>
       deps_met (taskInstances s) (ti_RunID ti) t)"

lemma hands_outD:
  assumes "hands_out d w n sch s ready sch' s'"
  shows "Schedule (memory_ops (rw_mem w n)) (rw_sched w n) (sch, s) = (Inr ready, sch', s')"
    "sys_inv (in_plan d) (sch', s')" "known_dags sch' s' = known_dags sch s" "distinct (map ti_ID ready)"
    "taskInstances s' = fmmap (queue_due (rw_sched w n) (due_in sch s)) (taskInstances s)"
    "runs s' = fmmap (closed_run (rw_sched w n) (mw_now (rw_mem w n)) (known_dags sch s) (taskInstances s')) (runs s)"
    "set ready = mark_queued (rw_sched w n) `
       {ti. fmlookup (taskInstances s) (ti_ID ti) = Some ti \<and> due_in sch s ti}"
    "\<forall>ti \<in> set ready. fmlookup (taskInstances s') (ti_ID ti) = Some ti \<and> ti_Status ti = StatusQueued"
    "\<forall>ti \<in> set ready. \<exists>t. fmlookup (Tasks d) (ti_TaskID ti) = Some t \<and>
       deps_met (taskInstances s) (ti_RunID ti) t"
  using assms unfolding hands_out_def by blast+

lemma schedule_round:
  assumes "sys_inv (in_plan d) (sch, s)" and "worlds_ok w"
  obtains ready sch' s' where "hands_out d w n sch s ready sch' s'"
proof -
  let ?w = "rw_sched w n" and ?m = "rw_mem w n"
  note I = sys_invD [OF assms(1)]
  have ok: "mem_world_ok ?m" "orders_ok ?w" using assms(2) by (simp_all add: worlds_ok_def)
  obtain ready sch' s' where S: "Schedule (memory_ops ?m) ?w (sch, s) = (Inr ready, sch', s')"
    "known_dags sch' s' = known_dags sch s" "distinct (map ti_ID ready)"
    "taskInstances s' = fmmap (queue_due ?w (due_in sch s)) (taskInstances s)"
    "runs s' = fmmap (closed_run ?w (mw_now ?m) (known_dags sch s) (taskInstances s')) (runs s)"
    "set ready = mark_queued ?w ` {ti. fmlookup (taskInstances s) (ti_ID ti) = Some ti \<and> due_in sch s ti}"
    using Schedule_memory [OF I(1) ok I(2)] by blast
  have inv: "sys_inv (in_plan d) (sch', s')"
    using sys_step.schedule [OF ok S(1)] assms(1) by (rule sys_step_inv)
  have a: "fmlookup (taskInstances s') (ti_ID ti) = Some ti \<and> ti_Status ti = StatusQueued"
    if ti: "ti \<in> set ready" for ti
  proof -
    obtain a where "ti = mark_queued ?w a" "fmlookup (taskInstances s) (ti_ID a) = Some a" "due_in sch s a"
      using ti unfolding S(6) by blast
    then show ?thesis by (simp add: S(4) queue_due_def)
  qed
  have b: "\<exists>t. fmlookup (Tasks d) (ti_TaskID ti) = Some t \<and> deps_met (taskInstances s) (ti_RunID ti) t"
    if ti: "ti \<in> set ready" for ti
  proof -
    obtain a where a: "ti = mark_queued ?w a" "due_in sch s a" using ti unfolding S(6) by blast
    then obtain i e t where e: "known_dags sch s i = Some e" "fmlookup (Tasks e) (ti_TaskID a) = Some t"
        "deps_met (taskInstances s) (ti_RunID a) t" by (auto simp: due_def)
    have "Tasks e = Tasks d"
      using I(3) e(1) unfolding follows_def in_plan_def by (metis option.inject option.distinct(1))
    then show ?thesis using a(1) e(2,3) by auto
  qed
  have "hands_out d w n sch s ready sch' s'" unfolding hands_out_def using S inv a b by blast
  then show ?thesis by (rule that)
qed

lemma GetRun_memory: "op_GetRun (memory_ops m) i s = Inr r \<longleftrightarrow> fmlookup (runs s) i = Some r"
  by (simp add: memory_ops_def GetRun_def split: option.splits)

section \<open>Start of a run\<close>

definition draws_ok :: "(dag \<Rightarrow> submit_world) \<Rightarrow> bool" where
  "draws_ok su \<longleftrightarrow> (\<forall>d. ranges (su_tasks (su d)) (Tasks d) \<and> inj_on (su_ti (su d)) (fmdom' (Tasks d)))"

text \<open>The instances of the run: one per task, of the run, and nothing else.\<close>

definition only_run :: "dag \<Rightarrow> string \<Rightarrow> memory_store \<Rightarrow> bool" where
  "only_run d rid s \<longleftrightarrow>
     (\<exists>r. fmlookup (runs s) rid = Some r \<and> run_DAGID r = dag_ID d) \<and>
     (\<forall>k \<in> fmdom' (Tasks d). \<exists>i ti. fmlookup (taskInstances s) i = Some ti \<and> ti_TaskID ti = k) \<and>
     (\<forall>i ti. fmlookup (taskInstances s) i = Some ti \<longrightarrow> ti_RunID ti = rid \<and> ti_TaskID ti \<in> fmdom' (Tasks d))"

lemma saved_dag:
  assumes "well_keyed (Tasks d)"
  obtains d' s0 where "op_SaveDAG (memory_ops m) d NewMemoryStore = Inr (d', s0)" "Tasks d' = Tasks d"
    "dag_ID d' = dag_ID d" "runs s0 = fmempty" "taskInstances s0 = fmempty"
    "dags s0 = fmupd (dag_ID d) d' fmempty" "sys_inv (in_plan d) (NewFIFOScheduler 0, s0)"
proof -
  obtain d' s0 where eq: "op_SaveDAG (memory_ops m) d NewMemoryStore = Inr (d', s0)"
    by (cases "op_SaveDAG (memory_ops m) d NewMemoryStore") (auto simp: memory_ops_def SaveDAG_def Let_def)
  then have save: "Tasks d' = Tasks d" "dag_ID d' = dag_ID d" "dags s0 = fmupd (dag_ID d) d' fmempty"
      "runs s0 = fmempty" "taskInstances s0 = fmempty" "idempotencyIdx s0 = fmempty"
    by (auto simp: memory_ops_def SaveDAG_def Let_def NewMemoryStore_def)
  then have "sys_inv (in_plan d) (NewFIFOScheduler 0, s0)"
    using assms
    by (auto simp: sys_inv_def NewFIFOScheduler_def store_wf_def plan_ok_def known_dag_def one_instance_def
        keyed_tis_def keyed_runs_def follows_def deps_first_def in_plan_def split: if_splits)
  from that [OF eq save(1,2,4,5,3) this] show ?thesis .
qed

text \<open>The instances of a run that was submitted to a store without instances.\<close>

lemma submitted_instances:
  assumes fresh: "fresh_ids w d rs fmempty" and tis: "with_instances w d fmempty tis" and d: "well_keyed (Tasks d)"
  shows "fmlookup tis i = Some ti \<Longrightarrow> ti_RunID ti = su_run w \<and> ti_TaskID ti \<in> fmdom' (Tasks d) \<and> ti_Status ti = StatusPending"
    and "k \<in> fmdom' (Tasks d) \<Longrightarrow> \<exists>i ti. fmlookup tis i = Some ti \<and> ti_TaskID ti = k"
proof -
  assume "fmlookup tis i = Some ti"
  from with_instances_cases [OF fresh tis d this]
  show "ti_RunID ti = su_run w \<and> ti_TaskID ti \<in> fmdom' (Tasks d) \<and> ti_Status ti = StatusPending"
    by (auto intro: fmdom'I)
next
  assume "k \<in> fmdom' (Tasks d)"
  then obtain t where t: "fmlookup (Tasks d) k = Some t" by (auto simp: fmlookup_dom'_iff)
  then have "fmlookup tis (su_ti w k) = Some (new_instance w d t)" using tis by (simp add: with_instances_def)
  then show "\<exists>i ti. fmlookup tis i = Some ti \<and> ti_TaskID ti = k"
    using well_keyedD [OF d t] by (metis new_instance_simps(3))
qed

lemma cmdRun_start:
  assumes "file \<noteq> ''''" "parse file = Ret (Inr d)" "well_keyed (Tasks d)" "worlds_ok w" "draws_ok su"
  shows "\<exists>d' sch s. cmdRun parse su w reg fuel file x = run_loop fuel w reg d' (su_run (su d')) 0 (sch, s, x) [] \<and>
    Tasks d' = Tasks d \<and> dag_ID d' = dag_ID d \<and> sys_inv (in_plan d) (sch, s) \<and>
    known_dags sch s (dag_ID d) \<noteq> None \<and> only_run d (su_run (su d')) s \<and>
    (\<forall>i ti. fmlookup (taskInstances s) i = Some ti \<longrightarrow> ti_Status ti = StatusPending) \<and>
    (\<exists>r. fmlookup (runs s) (su_run (su d')) = Some r \<and> run_Status r = StatusRunning)"
proof -
  let ?ops = "memory_ops (rw_mem w 0)" and ?sch = "NewFIFOScheduler 0"
  obtain d' s0 where save: "op_SaveDAG ?ops d NewMemoryStore = Inr (d', s0)" "Tasks d' = Tasks d"
      "dag_ID d' = dag_ID d" "runs s0 = fmempty" "taskInstances s0 = fmempty"
      "dags s0 = fmupd (dag_ID d) d' fmempty" and inv: "sys_inv (in_plan d) (?sch, s0)"
    by (rule saved_dag [OF assms(3)])
  note I = sys_invD [OF inv]
  let ?su = "su d'"
  have m: "mem_world_ok (rw_mem w 0)" using assms(4) by (simp add: worlds_ok_def)
  have fresh: "fresh_ids ?su d' (runs s0) (taskInstances s0)"
    using assms(5) save(4,5) by (simp add: fresh_ids_def draws_ok_def)
  have keyed: "well_keyed (Tasks d')" using assms(3) save(2) by simp
  obtain s where s: "Submit ?ops ?su d' fmempty (?sch, s0) = (Inr (su_run ?su), with_dag d' ?sch, s)"
      "dags s = dags s0" "runs s = fmupd (su_run ?su) (submitted_run ?su (mw_now (rw_mem w 0)) d' fmempty) (runs s0)"
      "with_instances ?su d' (taskInstances s0) (taskInstances s)"
    using Submit_memory [OF I(1) m I(2) keyed fresh] by blast
  have "in_plan d (dag_ID d') = Some (Tasks d')" using save(2,3) by (simp add: in_plan_def)
  from sys_step.submit [where plan = "in_plan d" and d = d', OF m this keyed fresh s(1)]
  have "sys_inv (in_plan d) (with_dag d' ?sch, s)" using inv by (rule sys_step_inv)
  moreover have "known_dags (with_dag d' ?sch) s (dag_ID d) \<noteq> None" using save(3) by (simp add: known_dag_def)
  moreover have "cmdRun parse su w reg fuel file x =
      run_loop fuel w reg d' (su_run ?su) 0 (with_dag d' ?sch, s, x) []"
    using assms(1,2) save(1) s(1) by (simp add: cmdRun_def)
  moreover have "fmlookup (runs s) (su_run ?su) = Some (submitted_run ?su (mw_now (rw_mem w 0)) d' fmempty)"
    using s(3) by simp
  moreover note submitted_instances [OF fresh [unfolded save(5)] s(4) [unfolded save(5)] keyed]
  ultimately show ?thesis using save(2,3)
    by (intro exI [of _ d'] exI [of _ "with_dag d' ?sch"] exI [of _ s])
       (auto simp: only_run_def submitted_run_def)
qed

section \<open>A failing task\<close>

text \<open>The run waits for task \<open>b\<close>, on which another task depends, and \<open>b\<close> has not succeeded.\<close>

definition waits_for :: "dag \<Rightarrow> string \<Rightarrow> string \<Rightarrow> memory_store \<Rightarrow> bool" where
  "waits_for d rid b s \<longleftrightarrow> only_run d rid s \<and>
     (\<forall>i ti. fmlookup (taskInstances s) i = Some ti \<longrightarrow> ti_TaskID ti = b \<longrightarrow> ti_Status ti \<noteq> StatusSuccess)"

lemma only_run_map:
  assumes "only_run d rid s"
    and "taskInstances s' = fmmap f (taskInstances s)" "\<And>ti. ti_RunID (f ti) = ti_RunID ti"
      "\<And>ti. ti_TaskID (f ti) = ti_TaskID ti"
    and "runs s' = fmmap g (runs s)" "\<And>r. run_DAGID (g r) = run_DAGID r"
  shows "only_run d rid s'"
proof -
  have "\<exists>i ti. fmlookup (taskInstances s') i = Some ti \<and> ti_TaskID ti = k" if "k \<in> fmdom' (Tasks d)" for k
    using that assms(1,2,4) unfolding only_run_def by (metis fmlookup_map option.simps(9))
  moreover have "ti_RunID ti = rid \<and> ti_TaskID ti \<in> fmdom' (Tasks d)"
    if "fmlookup (taskInstances s') i = Some ti" for i ti
    using that assms(1-4) unfolding only_run_def by auto
  moreover have "\<exists>r. fmlookup (runs s') rid = Some r \<and> run_DAGID r = dag_ID d"
    using assms(1,5,6) unfolding only_run_def by auto
  ultimately show ?thesis unfolding only_run_def by blast
qed

lemma closed_run_DAGID [simp]: "run_DAGID (closed_run w clock known tis r) = run_DAGID r"
  by (simp add: closed_run_def)

lemma updated_cases [consumes 3, case_names same changed]:
  assumes "updated_by R tis m m'" "\<forall>ti \<in> set tis. fmlookup m (ti_ID ti) = Some ti"
    and "fmlookup m' i = Some ti'"
  obtains "fmlookup m i = Some ti'" "i \<notin> ti_ID ` set tis"
  | ti where "ti \<in> set tis" "i = ti_ID ti" "fmlookup m i = Some ti" "ti_RunID ti' = ti_RunID ti"
      "ti_TaskID ti' = ti_TaskID ti" "R ti (ti_Status ti')"
proof (cases "i \<in> ti_ID ` set tis")
  case True
  then obtain ti where ti: "ti \<in> set tis" "i = ti_ID ti" by auto
  then obtain t' where "fmlookup m' i = Some t'" "ti_RunID t' = ti_RunID ti" "ti_TaskID t' = ti_TaskID ti"
      "R ti (ti_Status t')" using assms(1) unfolding updated_by_def by blast
  then show ?thesis using that(2) [OF ti] assms(2) assms(3) ti by simp
next
  case False
  then show ?thesis using that(1) assms(1,3) unfolding updated_by_def by metis
qed

lemma only_run_updated:
  assumes "only_run d rid s" "runs s' = runs s" "updated_by R tis (taskInstances s) (taskInstances s')"
    and old: "\<forall>ti \<in> set tis. fmlookup (taskInstances s) (ti_ID ti) = Some ti"
  shows "only_run d rid s'"
proof -
  have "ti_RunID ti = rid \<and> ti_TaskID ti \<in> fmdom' (Tasks d)"
    if "fmlookup (taskInstances s') i = Some ti" for i ti
    using assms(3) old that
  proof (cases rule: updated_cases)
    case same
    then show ?thesis using assms(1) unfolding only_run_def by blast
  next
    case (changed ti0)
    then show ?thesis using assms(1) unfolding only_run_def by metis
  qed
  moreover have "\<exists>i ti. fmlookup (taskInstances s') i = Some ti \<and> ti_TaskID ti = k"
    if k: "k \<in> fmdom' (Tasks d)" for k
  proof -
    obtain i ti where i: "fmlookup (taskInstances s) i = Some ti" "ti_TaskID ti = k"
      using assms(1) k unfolding only_run_def by blast
    show ?thesis
    proof (cases "i \<in> ti_ID ` set tis")
      case True
      then obtain u where "u \<in> set tis" "i = ti_ID u" by auto
      then show ?thesis using assms(3) old i unfolding updated_by_def by (metis option.inject)
    next
      case False
      then show ?thesis using assms(3) i unfolding updated_by_def by metis
    qed
  qed
  ultimately show ?thesis using assms(1,2) unfolding only_run_def by simp
qed

text \<open>While that is so, the run is not closed.\<close>

lemma waiting_run:
  assumes inv: "sys_inv (in_plan d) (sch, s)" and "waits_for d rid b s"
    and c: "fmlookup (Tasks d) c = Some t" "b \<in> set (Dependencies t)"
    and r: "fmlookup (runs s) rid = Some r"
  shows "\<not> IsTerminal (run_Status r)"
proof
  assume terminal: "IsTerminal (run_Status r)"
  note I = sys_invD [OF inv]
  have run: "run_ID r = rid" "run_DAGID r = dag_ID d"
    using store_wfD(1) [OF I(1)] r assms(2) unfolding waits_for_def only_run_def by auto
  have "all_terminal (taskInstances s) rid"
    using I(5) [OF r] terminal run(1) by (auto simp: run_sound_def)
  moreover obtain i ti where ti: "fmlookup (taskInstances s) i = Some ti" "ti_TaskID ti = c" "ti_RunID ti = rid"
    using assms(2) fmdom'I [OF c(1)] unfolding waits_for_def only_run_def by metis
  ultimately have "ti_Status ti \<noteq> StatusPending" unfolding all_terminal_def by (metis IsTerminal_simps(1))
  moreover have "fmlookup (runs s) (ti_RunID ti) = Some r" using r ti(3) by simp
  moreover have "in_plan d (run_DAGID r) = Some (Tasks d)" using run(2) by (simp add: in_plan_def)
  moreover have "fmlookup (Tasks d) (ti_TaskID ti) = Some t" using c(1) ti(2) by simp
  ultimately have "deps_met (taskInstances s) (ti_RunID ti) t" by (rule deps_firstD [OF I(4) ti(1)])
  then obtain u where "fmlookup (taskInstances s) (ti_ID u) = Some u" "ti_TaskID u = b" "ti_Status u = StatusSuccess"
    using c(2) unfolding deps_met_def by blast
  then show False using assms(2) unfolding waits_for_def by blast
qed

lemma waits_scheduled:
  assumes "hands_out d w n sch s ready sch1 s1" "waits_for d rid b s"
  shows "waits_for d rid b s1"
proof -
  note S = hands_outD [OF assms(1)]
  have "only_run d rid s1"
    by (rule only_run_map [OF _ S(5) _ _ S(6)]) (use assms(2) in \<open>simp_all add: waits_for_def\<close>)
  moreover have "ti_Status ti \<noteq> StatusSuccess"
    if ti: "fmlookup (taskInstances s1) i = Some ti" "ti_TaskID ti = b" for i ti
  proof -
    obtain z where z: "fmlookup (taskInstances s) i = Some z"
        "ti = queue_due (rw_sched w n) (due_in sch s) z" using ti(1) by (auto simp: S(5))
    then have "ti_Status z \<noteq> StatusSuccess"
      using assms(2) ti(2) unfolding waits_for_def by (metis queue_due_simps(3))
    then show ?thesis unfolding z(2) queue_due_def by simp
  qed
  ultimately show ?thesis unfolding waits_for_def by blast
qed

lemma waits_updated:
  assumes "waits_for d rid b s1" "updated_by (\<lambda>ti st. ti_TaskID ti = b \<longrightarrow> st \<noteq> StatusSuccess) ready
      (taskInstances s1) (taskInstances s2)" "runs s2 = runs s1"
    and old: "\<forall>ti \<in> set ready. fmlookup (taskInstances s1) (ti_ID ti) = Some ti"
  shows "waits_for d rid b s2"
proof -
  have "only_run d rid s2"
    using assms(1) unfolding waits_for_def by (intro only_run_updated [OF _ assms(3,2) old]) blast
  moreover have "ti_Status ti \<noteq> StatusSuccess"
    if ti: "fmlookup (taskInstances s2) i = Some ti" "ti_TaskID ti = b" for i ti
    using assms(2) old ti(1)
  proof (cases rule: updated_cases)
    case same
    then show ?thesis using assms(1) ti(2) unfolding waits_for_def by blast
  next
    case (changed ti0)
    then show ?thesis using ti(2) by simp
  qed
  ultimately show ?thesis unfolding waits_for_def by blast
qed

lemma run_loop_waits:
  assumes "sys_inv (in_plan d) (sch, s)" "worlds_ok w" "waits_for d rid b s"
    and "Tasks d' = Tasks d" "fmlookup (Tasks d) c = Some t" "b \<in> set (Dependencies t)"
    and "\<And>k t. fmlookup (Tasks d) k = Some t \<Longrightarrow> reports reg t (\<lambda>st. k = b \<longrightarrow> st \<noteq> StatusSuccess)"
  shows "run_loop fuel w reg d' rid n (sch, s, x) trace = Diverge"
  using assms(1,3)
proof (induction fuel arbitrary: n sch s x trace)
  case (Suc fuel)
  let ?R = "\<lambda>ti st. ti_TaskID ti = b \<longrightarrow> st \<noteq> StatusSuccess"
  obtain ready sch1 s1 where H: "hands_out d w n sch s ready sch1 s1"
    by (rule schedule_round [OF Suc.prems(1) assms(2), of n])
  note S = hands_outD [OF H] and waits = waits_scheduled [OF H Suc.prems(2)]
  show ?case
  proof (cases "ready = []")
    case True
    obtain r where r: "fmlookup (runs s1) rid = Some r" using waits by (auto simp: waits_for_def only_run_def)
    then have "\<not> IsTerminal (run_Status r)" by (rule waiting_run [OF S(2) waits assms(5,6)])
    then show ?thesis
      using S(1) True r Suc.IH [OF S(2) waits] by (simp add: GetRun_memory [THEN iffD2, OF r])
  next
    case False
    have "\<exists>t. fmlookup (Tasks d') (ti_TaskID ti) = Some t \<and> reports reg t (?R ti)" if "ti \<in> set ready" for ti
      using S(9) that assms(7) by (auto simp: assms(4))
    then obtain s2 x2 where s2:
      "run_ready (memory_ops (rw_mem w n)) (rw_report w n) reg d' rid ready (s1, x) = Ret (s2, x2)"
      "sys_inv (in_plan d) (sch1, s2)" "runs s2 = runs s1"
      "updated_by ?R ready (taskInstances s1) (taskInstances s2)"
      using run_ready_spec [OF S(2,4,8), of d' reg ?R "rw_mem w n" "rw_report w n" rid x] by blast
    have "waits_for d rid b s2" by (rule waits_updated [OF waits s2(4,3)]) (use S(8) in blast)
    then show ?thesis using S(1) False s2(1) Suc.IH [OF s2(2)] by simp
  qed
qed simp

section \<open>A run that succeeds\<close>

text \<open>The tasks in \<open>D\<close> have succeeded, the others are pending, and the run is open.\<close>

definition progress :: "dag \<Rightarrow> string \<Rightarrow> string set \<Rightarrow> memory_store \<Rightarrow> bool" where
  "progress d rid D s \<longleftrightarrow> only_run d rid s \<and>
     (\<forall>i ti. fmlookup (taskInstances s) i = Some ti \<longrightarrow>
        ti_Status ti = (if ti_TaskID ti \<in> D then StatusSuccess else StatusPending)) \<and>
     (\<exists>r. fmlookup (runs s) rid = Some r \<and> run_Status r = StatusRunning)"

text \<open>Every task comes after its dependencies.\<close>

definition deps_before :: "tasks \<Rightarrow> string list \<Rightarrow> bool" where
  "deps_before ts ks \<longleftrightarrow> (\<forall>i < length ks. \<forall>t. fmlookup ts (ks ! i) = Some t \<longrightarrow>
     set (Dependencies t) \<subseteq> set (take i ks))"

lemma deps_before_append:
  assumes "deps_before ts ks"
    and "\<And>k t. k \<in> set ls \<Longrightarrow> fmlookup ts k = Some t \<Longrightarrow> set (Dependencies t) \<subseteq> set ks"
  shows "deps_before ts (ks @ ls)"
  unfolding deps_before_def
proof (intro allI impI)
  fix i t assume i: "i < length (ks @ ls)" "fmlookup ts ((ks @ ls) ! i) = Some t"
  show "set (Dependencies t) \<subseteq> set (take i (ks @ ls))"
  proof (cases "i < length ks")
    case True
    then show ?thesis using assms(1) i(2) by (simp add: deps_before_def nth_append)
  next
    case False
    then have "set (Dependencies t) \<subseteq> set ks"
      using assms(2) [of "ls ! (i - length ks)" t] i by (simp add: nth_append)
    then show ?thesis using False by auto
  qed
qed

lemma known_tasks:
  assumes "sys_inv (in_plan d) (sch, s)" "known_dags sch s (dag_ID d) \<noteq> None"
  obtains e where "known_dags sch s (dag_ID d) = Some e" "Tasks e = Tasks d"
  using assms sys_invD(3) [OF assms(1)] unfolding follows_def in_plan_def
  by (metis option.exhaust option.inject)

lemma progress_due:
  assumes inv: "sys_inv (in_plan d) (sch, s)" and known: "known_dags sch s (dag_ID d) \<noteq> None"
    and p: "progress d rid D s" and deps: "deps_known (Tasks d)"
    and a: "fmlookup (taskInstances s) i = Some a" and t: "fmlookup (Tasks d) (ti_TaskID a) = Some t"
  shows "due_in sch s a \<longleftrightarrow> ti_TaskID a \<notin> D \<and> set (Dependencies t) \<subseteq> D"
proof -
  obtain r where r: "fmlookup (runs s) rid = Some r" "run_Status r = StatusRunning" "run_DAGID r = dag_ID d"
    using p unfolding progress_def only_run_def by (metis option.inject)
  have rid: "ti_RunID a = rid" using p a unfolding progress_def only_run_def by blast
  obtain e where e: "known_dags sch s (dag_ID d) = Some e" "Tasks e = Tasks d"
    using known_tasks [OF inv known] .
  have st: "ti_Status u = (if ti_TaskID u \<in> D then StatusSuccess else StatusPending)"
    if "fmlookup (taskInstances s) j = Some u" for j u using p that unfolding progress_def by blast
  have "deps_met (taskInstances s) rid t \<longleftrightarrow> set (Dependencies t) \<subseteq> D"
  proof
    assume met: "deps_met (taskInstances s) rid t"
    show "set (Dependencies t) \<subseteq> D"
    proof
      fix dep assume "dep \<in> set (Dependencies t)"
      then obtain u where "fmlookup (taskInstances s) (ti_ID u) = Some u" "ti_TaskID u = dep"
          "ti_Status u = StatusSuccess" using met unfolding deps_met_def by blast
      then show "dep \<in> D" using st [of "ti_ID u" u] by (simp split: if_splits)
    qed
  next
    assume sub: "set (Dependencies t) \<subseteq> D"
    show "deps_met (taskInstances s) rid t"
      unfolding deps_met_def
    proof
      fix dep assume dep: "dep \<in> set (Dependencies t)"
      then have "dep \<in> fmdom' (Tasks d)" by (rule deps_knownD [OF deps t])
      then obtain j u where u: "fmlookup (taskInstances s) j = Some u" "ti_TaskID u = dep"
        using p unfolding progress_def only_run_def by blast
      have "ti_ID u = j" using store_wfD(3) [OF sys_invD(1) [OF inv] u(1)] .
      moreover have "ti_RunID u = rid" using p u(1) unfolding progress_def only_run_def by blast
      moreover have "ti_Status u = StatusSuccess" using st [OF u(1)] u(2) dep sub by auto
      ultimately show "\<exists>u. fmlookup (taskInstances s) (ti_ID u) = Some u \<and> ti_RunID u = rid \<and>
          ti_TaskID u = dep \<and> ti_Status u = StatusSuccess" using u by blast
    qed
  qed
  then show ?thesis using st [OF a] r e t rid by (auto simp: due_def)
qed

text \<open>Nothing is due only when every task has succeeded.\<close>

lemma progress_done:
  assumes inv: "sys_inv (in_plan d) (sch, s)" and known: "known_dags sch s (dag_ID d) \<noteq> None"
    and p: "progress d rid D s" and deps: "deps_known (Tasks d)" "acyclic (dep_rel (Tasks d))"
    and none: "\<And>ti. fmlookup (taskInstances s) (ti_ID ti) = Some ti \<Longrightarrow> \<not> due_in sch s ti"
  shows "fmdom' (Tasks d) \<subseteq> D"
proof (rule ccontr)
  assume "\<not> fmdom' (Tasks d) \<subseteq> D"
  then obtain k0 where "k0 \<in> fmdom' (Tasks d)" "k0 \<notin> D" by blast
  then obtain k t where k: "fmlookup (Tasks d) k = Some t" "k \<notin> D" "\<forall>dep \<in> set (Dependencies t). \<not> dep \<notin> D"
    using dep_minimal [OF deps(2,1), of k0 "\<lambda>k. k \<notin> D"] by blast
  obtain i a where a: "fmlookup (taskInstances s) i = Some a" "ti_TaskID a = k"
    using p fmdom'I [OF k(1)] unfolding progress_def only_run_def by blast
  have "due_in sch s a"
    using progress_due [OF inv known p deps(1) a(1)] k a(2) by auto
  moreover have "ti_ID a = i" using store_wfD(3) [OF sys_invD(1) [OF inv] a(1)] .
  ultimately show False using none [of a] a(1) by simp
qed

lemma progress_closed:
  assumes "progress d rid D s" "fmdom' (Tasks d) \<subseteq> D"
  shows "all_terminal (taskInstances s) rid" "\<not> any_failed (taskInstances s) rid"
proof -
  have "ti_Status ti = StatusSuccess" if "fmlookup (taskInstances s) i = Some ti" for i ti
    using assms that unfolding progress_def only_run_def by (metis subsetD)
  then show "all_terminal (taskInstances s) rid" "\<not> any_failed (taskInstances s) rid"
    by (auto simp: all_terminal_def any_failed_def)
qed

text \<open>What is not handed out stays as it was, and is an instance of another task.\<close>

lemma not_handed_out:
  assumes "store_wf s" "taskInstances s1 = fmmap (queue_due w (due_in sch s)) (taskInstances s)"
    and "set ready = mark_queued w ` {ti. fmlookup (taskInstances s) (ti_ID ti) = Some ti \<and> due_in sch s ti}"
    and "fmlookup (taskInstances s1) i = Some ti" "i \<notin> ti_ID ` set ready"
  shows "fmlookup (taskInstances s) i = Some ti"
proof -
  obtain a where a: "fmlookup (taskInstances s) i = Some a" "ti = queue_due w (due_in sch s) a"
    using assms(4) by (auto simp: assms(2))
  have i: "ti_ID a = i" using store_wfD(3) [OF assms(1) a(1)] .
  have "\<not> due_in sch s a"
  proof
    assume "due_in sch s a"
    then have "mark_queued w a \<in> set ready" using a(1) i unfolding assms(3) by blast
    then show False using assms(5) i by (metis imageI mark_queued_simps(1))
  qed
  then show ?thesis using a by (simp add: queue_due_def)
qed

lemma other_task:
  assumes "only_run d rid s1" "one_instance (taskInstances s1)" "fmlookup (taskInstances s1) i = Some ti"
    and old: "\<forall>u \<in> set ready. fmlookup (taskInstances s1) (ti_ID u) = Some u" and "i \<notin> ti_ID ` set ready"
  shows "ti_TaskID ti \<notin> ti_TaskID ` set ready"
proof
  assume "ti_TaskID ti \<in> ti_TaskID ` set ready"
  then obtain u where u: "u \<in> set ready" "ti_TaskID ti = ti_TaskID u" by auto
  have "ti_RunID ti = ti_RunID u" using assms(1,3) old u(1) unfolding only_run_def by metis
  then have "i = ti_ID u" using u(2) by (rule one_instanceD [OF assms(2,3) old [rule_format, OF u(1)]])
  then show False using assms(5) u(1) by blast
qed

text \<open>After a round that hands something out and in which every execution succeeds.\<close>

lemma progress_round:
  assumes inv: "sys_inv (in_plan d) (sch, s)" and known: "known_dags sch s (dag_ID d) \<noteq> None"
    and p: "progress d rid D s"
    and s1: "taskInstances s1 = fmmap (queue_due w (due_in sch s)) (taskInstances s)"
      "runs s1 = fmmap (closed_run w clock (known_dags sch s) (taskInstances s1)) (runs s)"
      "sys_inv (in_plan d) (sch1, s1)"
    and ready: "ready \<noteq> []" "set ready = mark_queued w `
        {ti. fmlookup (taskInstances s) (ti_ID ti) = Some ti \<and> due_in sch s ti}"
      "\<forall>ti \<in> set ready. fmlookup (taskInstances s1) (ti_ID ti) = Some ti \<and> ti_Status ti = StatusQueued"
    and s2: "updated_by (\<lambda>ti st. st = StatusSuccess) ready (taskInstances s1) (taskInstances s2)"
      "runs s2 = runs s1"
  shows "progress d rid (D \<union> ti_TaskID ` set ready) s2"
proof -
  have only: "only_run d rid s" using p by (simp add: progress_def)
  have only1: "only_run d rid s1" by (rule only_run_map [OF only s1(1) _ _ s1(2)]) simp_all
  have old: "\<forall>ti \<in> set ready. fmlookup (taskInstances s1) (ti_ID ti) = Some ti" using ready(3) by blast
  have only2: "only_run d rid s2" by (rule only_run_updated [OF only1 s2(2,1) old])
  have one: "one_instance (taskInstances s1)"
    using sys_invD(2) [OF s1(3)] by (simp add: plan_ok_def)
  have st: "ti_Status ti = (if ti_TaskID ti \<in> D \<union> ti_TaskID ` set ready then StatusSuccess else StatusPending)"
    if ti: "fmlookup (taskInstances s2) i = Some ti" for i ti
    using s2(1) old ti
  proof (cases rule: updated_cases)
    case same
    have "fmlookup (taskInstances s) i = Some ti"
      by (rule not_handed_out [OF sys_invD(1) [OF inv] s1(1) ready(2) same])
    moreover have "ti_TaskID ti \<notin> ti_TaskID ` set ready"
      by (rule other_task [OF only1 one same(1) old same(2)])
    ultimately show ?thesis using p unfolding progress_def by simp
  next
    case (changed u)
    then have "ti_TaskID ti \<in> ti_TaskID ` set ready" by simp
    then show ?thesis using changed(6) by simp
  qed
  obtain u where "u \<in> set ready" using ready(1) by (cases ready) auto
  then have "fmlookup (taskInstances s1) (ti_ID u) = Some u" "ti_Status u = StatusQueued" "ti_RunID u = rid"
    using ready(3) only1 unfolding only_run_def by blast+
  then have open_run: "\<not> all_terminal (taskInstances s1) rid"
    unfolding all_terminal_def by (metis IsTerminal_simps(2))
  obtain r where r: "fmlookup (runs s) rid = Some r" "run_Status r = StatusRunning"
    using p unfolding progress_def by blast
  have "run_ID r = rid" using store_wfD(1) [OF sys_invD(1) [OF inv] r(1)] .
  then have "fmlookup (runs s2) rid = Some r"
    unfolding s2(2) s1(2) using open_run r(1) by (simp add: closed_run_def)
  then show ?thesis using only2 st r(2) unfolding progress_def by blast
qed

text \<open>A round in which nothing is due changes no instance.\<close>

lemma idle_round:
  assumes "store_wf s" "taskInstances s1 = fmmap (queue_due w (due_in sch s)) (taskInstances s)"
    and none: "\<And>ti. fmlookup (taskInstances s) (ti_ID ti) = Some ti \<Longrightarrow> \<not> due_in sch s ti"
  shows "taskInstances s1 = taskInstances s"
proof (rule fmap_ext)
  fix i
  show "fmlookup (taskInstances s1) i = fmlookup (taskInstances s) i"
  proof (cases "fmlookup (taskInstances s) i")
    case (Some a)
    then have "\<not> due_in sch s a" using none [of a] store_wfD(3) [OF assms(1) Some] by simp
    then show ?thesis using Some by (simp add: assms(2) queue_due_def)
  qed (simp add: assms(2))
qed

text \<open>The round after the last task closes the run as a success.\<close>

lemma last_round:
  assumes inv: "sys_inv (in_plan d) (sch, s)" and p: "progress d rid T s"
    and known: "known_dags sch s (dag_ID d) \<noteq> None" and dom: "fmdom' (Tasks d) \<subseteq> T"
    and s1: "taskInstances s1 = taskInstances s"
      "runs s1 = fmmap (closed_run w clock (known_dags sch s) (taskInstances s1)) (runs s)"
  shows "\<exists>r'. fmlookup (runs s1) rid = Some r' \<and> run_Status r' = StatusSuccess"
proof -
  obtain r where r: "fmlookup (runs s) rid = Some r" "run_Status r = StatusRunning" "run_DAGID r = dag_ID d"
    using p unfolding progress_def only_run_def by (metis option.inject)
  have "run_ID r = rid" using store_wfD(1) [OF sys_invD(1) [OF inv] r(1)] .
  then show ?thesis unfolding s1 using r known progress_closed [OF p dom] by (simp add: closed_run_def)
qed

text \<open>The instances queued in one round have different tasks.\<close>

lemma ready_tasks_distinct:
  assumes "progress d rid T s" "one_instance (taskInstances s1)" "distinct (map ti_ID ready)"
    and ready: "set ready = mark_queued w ` {ti. fmlookup (taskInstances s) (ti_ID ti) = Some ti \<and> due_in sch s ti}"
    and there: "\<forall>ti \<in> set ready. fmlookup (taskInstances s1) (ti_ID ti) = Some ti \<and> ti_Status ti = StatusQueued"
  shows "distinct (map ti_TaskID ready)"
proof -
  have "ti_RunID u = rid" if u: "u \<in> set ready" for u
  proof -
    obtain a where "u = mark_queued w a" "fmlookup (taskInstances s) (ti_ID a) = Some a"
      using u unfolding ready by blast
    then show ?thesis using assms(1) unfolding progress_def only_run_def by (metis mark_queued_simps(2))
  qed
  then have "inj_on ti_TaskID (set ready)"
    using there assms(2) unfolding inj_on_def one_instance_def by (metis option.inject)
  then show ?thesis using assms(3) by (simp add: distinct_map)
qed

text \<open>A round that hands out instances, all of which succeed: their tasks are added to the trace.\<close>

lemma busy_round:
  assumes inv: "sys_inv (in_plan d) (sch, s)" and p: "progress d rid (set tr) s"
    and known: "known_dags sch s (dag_ID d) \<noteq> None" and d': "Tasks d' = Tasks d" and deps: "deps_known (Tasks d)"
    and good: "\<And>k t. fmlookup (Tasks d) k = Some t \<Longrightarrow> reports reg t (\<lambda>st. st = StatusSuccess)"
    and tr: "distinct tr" "set tr \<subseteq> fmdom' (Tasks d)" "deps_before (Tasks d) tr"
    and H: "hands_out d w n sch s ready sch1 s1" "ready \<noteq> []"
  obtains s2 x2 where
    "run_ready (memory_ops (rw_mem w n)) (rw_report w n) reg d' rid ready (s1, x) = Ret (s2, x2)"
    "sys_inv (in_plan d) (sch1, s2)" "progress d rid (set (tr @ map ti_TaskID ready)) s2"
    "known_dags sch1 s2 (dag_ID d) \<noteq> None" "distinct (tr @ map ti_TaskID ready)"
    "set (tr @ map ti_TaskID ready) \<subseteq> fmdom' (Tasks d)" "deps_before (Tasks d) (tr @ map ti_TaskID ready)"
proof -
  note S = hands_outD [OF H(1)]
  have "\<forall>ti \<in> set ready. \<exists>t. fmlookup (Tasks d') (ti_TaskID ti) = Some t \<and>
      reports reg t (\<lambda>st. st = StatusSuccess)" using S(9) good d' by auto
  then obtain s2 x2 where s2:
    "run_ready (memory_ops (rw_mem w n)) (rw_report w n) reg d' rid ready (s1, x) = Ret (s2, x2)"
    "sys_inv (in_plan d) (sch1, s2)" "runs s2 = runs s1" "dags s2 = dags s1"
    "updated_by (\<lambda>ti st. st = StatusSuccess) ready (taskInstances s1) (taskInstances s2)"
    using run_ready_spec [OF S(2,4,8), of d' reg "\<lambda>ti st. st = StatusSuccess" "rw_mem w n" "rw_report w n" rid x]
    by blast
  have p2: "progress d rid (set (tr @ map ti_TaskID ready)) s2"
    using progress_round [OF inv known p S(5,6,2) H(2) S(7,8) s2(5,3)] by simp
  have known2: "known_dags sch1 s2 (dag_ID d) \<noteq> None" using known S(3) s2(4) by (simp add: known_dag_def)
  have due: "ti_TaskID u \<notin> set tr \<and> (\<forall>t. fmlookup (Tasks d) (ti_TaskID u) = Some t \<longrightarrow>
      set (Dependencies t) \<subseteq> set tr)" if u: "u \<in> set ready" for u
  proof -
    obtain a where a: "u = mark_queued (rw_sched w n) a" "fmlookup (taskInstances s) (ti_ID a) = Some a"
        "due_in sch s a" using u unfolding S(7) by blast
    obtain t where "fmlookup (Tasks d) (ti_TaskID a) = Some t" using S(9) u a(1) by auto
    then show ?thesis using progress_due [OF inv known p deps a(2)] a(1,3) by simp
  qed
  have "one_instance (taskInstances s1)" using sys_invD(2) [OF S(2)] by (simp add: plan_ok_def)
  from ready_tasks_distinct [OF p this S(4,7,8)]
  have tr2: "distinct (tr @ map ti_TaskID ready)" "set (tr @ map ti_TaskID ready) \<subseteq> fmdom' (Tasks d)"
    using tr(1,2) due S(9) by (auto intro: fmdom'I)
  have "deps_before (Tasks d) (tr @ map ti_TaskID ready)"
    using tr(3) due by (intro deps_before_append) auto
  from that [OF s2(1,2) p2 known2 tr2 this] show ?thesis .
qed

lemma run_loop_succeeds:
  assumes "sys_inv (in_plan d) (sch, s)" "worlds_ok w" "progress d rid (set tr) s"
    and "known_dags sch s (dag_ID d) \<noteq> None" "Tasks d' = Tasks d"
    and deps: "deps_known (Tasks d)" "acyclic (dep_rel (Tasks d))"
    and good: "\<And>k t. fmlookup (Tasks d) k = Some t \<Longrightarrow> reports reg t (\<lambda>st. st = StatusSuccess)"
    and "distinct tr" "set tr \<subseteq> fmdom' (Tasks d)" "deps_before (Tasks d) tr"
    and "card (fmdom' (Tasks d) - set tr) < fuel"
  shows "\<exists>tr' s' x'. run_loop fuel w reg d' rid n (sch, s, x) tr = Ret (Completed StatusSuccess, tr', s', x') \<and>
    distinct tr' \<and> set tr' = fmdom' (Tasks d) \<and> deps_before (Tasks d) tr'"
  using assms(1,3,4,9-12)
proof (induction fuel arbitrary: n sch s x tr)
  case (Suc fuel)
  note inv = Suc.prems(1) and p = Suc.prems(2) and known = Suc.prems(3)
  obtain ready sch1 s1 where H: "hands_out d w n sch s ready sch1 s1"
    by (rule schedule_round [OF inv assms(2), of n])
  note S = hands_outD [OF H]
  show ?case
  proof (cases "ready = []")
    case True
    then have none: "\<not> due_in sch s ti" if "fmlookup (taskInstances s) (ti_ID ti) = Some ti" for ti
      using that S(7) by auto
    then have dom: "fmdom' (Tasks d) \<subseteq> set tr" by (rule progress_done [OF inv known p deps])
    have same: "taskInstances s1 = taskInstances s" using sys_invD(1) [OF inv] S(5) none by (rule idle_round)
    obtain r' where "fmlookup (runs s1) rid = Some r'" "run_Status r' = StatusSuccess"
      using last_round [OF inv p known dom same S(6)] by blast
    then have "run_loop (Suc fuel) w reg d' rid n (sch, s, x) tr = Ret (Completed StatusSuccess, tr, s1, x)"
      using S(1) True by (simp add: GetRun_memory [THEN iffD2])
    then show ?thesis using Suc.prems(4-6) dom by blast
  next
    case False
    obtain s2 x2 where N:
      "run_ready (memory_ops (rw_mem w n)) (rw_report w n) reg d' rid ready (s1, x) = Ret (s2, x2)"
      "sys_inv (in_plan d) (sch1, s2)" "progress d rid (set (tr @ map ti_TaskID ready)) s2"
      "known_dags sch1 s2 (dag_ID d) \<noteq> None" "distinct (tr @ map ti_TaskID ready)"
      "set (tr @ map ti_TaskID ready) \<subseteq> fmdom' (Tasks d)" "deps_before (Tasks d) (tr @ map ti_TaskID ready)"
      by (rule busy_round [OF inv p known assms(5) deps(1) good Suc.prems(4-6) H False])
    have "fmdom' (Tasks d) - set (tr @ map ti_TaskID ready) \<subset> fmdom' (Tasks d) - set tr"
      using N(5,6) False by (cases ready) auto
    then have "card (fmdom' (Tasks d) - set (tr @ map ti_TaskID ready)) < card (fmdom' (Tasks d) - set tr)"
      by (intro psubset_card_mono) simp_all
    then have "card (fmdom' (Tasks d) - set (tr @ map ti_TaskID ready)) < fuel" using Suc.prems(7) by linarith
    from Suc.IH [OF N(2-7) this, of "n + 1" x2] show ?thesis using S(1) False N(1) by simp
  qed
qed simp

section \<open>The command on a file\<close>

lemma ParseFile_ok:
  assumes "parse_orders pw" "ParseFile unmarshal fs pw path = Ret (Inr d)"
  shows "well_keyed (Tasks d)" "deps_known (Tasks d)" "acyclic (dep_rel (Tasks d))"
proof -
  obtain raw where raw: "buildDAG pw raw = Ret (Inr d)"
    using assms(2) by (auto simp: ParseFile_def Parse_def ParseBytes_def split: sum.splits)
  then obtain c ts where ok: "wf_dag d" "document_ok raw c ts"
      "d = document_dag (pw_now pw) raw c ts\<lparr>Edges := Edges d\<rparr>"
    using buildDAG_spec [OF assms(1), of raw] by auto
  have ts: "Tasks d = file_tasks ts fmempty" by (subst ok(3)) (simp add: document_dag_def)
  have "distinct (map task_ID ts)" using ok(2) by (simp add: document_ok_def)
  then show "deps_known (Tasks d)" "acyclic (dep_rel (Tasks d))"
    using ok(2) filed_facts(1) [of ts] by (auto simp: ts document_ok_def)
  show "well_keyed (Tasks d)" using wf_dag_keyed [OF ok(1)] .
qed

text \<open>
  C5. \<^verbatim>\<open>sparkflowctl run\<close> on a file that parses, with executors that succeed at every task: the command ends
  by itself with exit code 0 and the run is successful. Every task has been executed exactly once,
  and after all its dependencies. One round per task and one more are always enough.
\<close>

theorem run_succeeds:
  assumes "path \<noteq> ''''" and "parse_orders pw" and "ParseFile unmarshal fs pw path = Ret (Inr d)"
    and "worlds_ok w" and "draws_ok su"
    and "fmpred (\<lambda>k t. reports reg t (\<lambda>st. st = StatusSuccess)) (Tasks d)"
    and "card (fmdom' (Tasks d)) < fuel"
  shows "\<exists>ks s x'. cmdRun (ParseFile unmarshal fs pw) su w reg fuel path x =
      Ret (Completed StatusSuccess, ks, s, x') \<and> exit_code (Completed StatusSuccess) = 0 \<and>
    distinct ks \<and> set ks = fmdom' (Tasks d) \<and> deps_before (Tasks d) ks"
proof -
  note ok = ParseFile_ok [OF assms(2,3)]
  obtain d' sch s where st: "cmdRun (ParseFile unmarshal fs pw) su w reg fuel path x =
      run_loop fuel w reg d' (su_run (su d')) 0 (sch, s, x) []" "Tasks d' = Tasks d"
      "sys_inv (in_plan d) (sch, s)" "known_dags sch s (dag_ID d) \<noteq> None" "only_run d (su_run (su d')) s"
      "\<And>i ti. fmlookup (taskInstances s) i = Some ti \<Longrightarrow> ti_Status ti = StatusPending"
      "\<exists>r. fmlookup (runs s) (su_run (su d')) = Some r \<and> run_Status r = StatusRunning"
    using cmdRun_start [of path "ParseFile unmarshal fs pw" d w su reg fuel x, OF assms(1,3) ok(1) assms(4,5)]
    by blast
  have "progress d (su_run (su d')) (set []) s" using st(5-7) unfolding progress_def by simp
  from run_loop_succeeds [OF st(3) assms(4) this st(4,2) ok(2,3) fmpredD [OF assms(6)], where fuel = fuel and n = 0 and x = x] assms(7)
  show ?thesis unfolding st(1) by (auto simp: deps_before_def)
qed

text \<open>
  C14. \<^verbatim>\<open>sparkflowctl run\<close> never returns, in no number of rounds, when a task that another task depends
  on does not succeed: its executor is missing, or returns an error or a result of another status. It
  neither reports the failure through its exit code nor stops.
\<close>

theorem run_hangs_on_failure:
  assumes "path \<noteq> ''''" and "parse_orders pw" and "ParseFile unmarshal fs pw path = Ret (Inr d)"
    and "worlds_ok w" and "draws_ok su" and "fmlookup (Tasks d) c = Some t" and "b \<in> set (Dependencies t)"
    and "fmpred (\<lambda>k t. reports reg t (\<lambda>st. k = b \<longrightarrow> st \<noteq> StatusSuccess)) (Tasks d)"
  shows "cmdRun (ParseFile unmarshal fs pw) su w reg fuel path x = Diverge"
proof -
  obtain d' sch s where st: "cmdRun (ParseFile unmarshal fs pw) su w reg fuel path x =
      run_loop fuel w reg d' (su_run (su d')) 0 (sch, s, x) []" "Tasks d' = Tasks d"
      "sys_inv (in_plan d) (sch, s)" "only_run d (su_run (su d')) s"
      "\<And>i ti. fmlookup (taskInstances s) i = Some ti \<Longrightarrow> ti_Status ti = StatusPending"
    using cmdRun_start [of path "ParseFile unmarshal fs pw" d w su reg fuel x, OF assms(1,3)
        ParseFile_ok(1) [OF assms(2,3)] assms(4,5)] by blast
  have "waits_for d (su_run (su d')) b s" using st(4,5) unfolding waits_for_def by fastforce
  then show ?thesis unfolding st(1) using st(2) assms(6,7) fmpredD [OF assms(8)] by (intro run_loop_waits [OF st(3) assms(4)])
qed

section \<open>Examples\<close>

text \<open>A file with two tasks in a row; an executor that always reports the same status.\<close>

definition sample_executor :: "status \<Rightarrow> unit executor" where
  "sample_executor st = \<lparr>ex_Type = ''shell'', ex_Validate = (\<lambda>t. None),
     ex_Execute = (\<lambda>t p x. Ret ((Some ((new_result 0)\<lparr>res_Status := st\<rparr>), None), x)),
     ex_Cancel = (\<lambda>i x. (None, x))\<rparr>"

definition sample_worlds :: run_world where
  "sample_worlds = \<lparr>rw_mem = (\<lambda>n. plain_mem), rw_sched = (\<lambda>n. plain_sched), rw_report = (\<lambda>n i. 9)\<rparr>"

definition sample_submit :: "dag \<Rightarrow> submit_world" where
  "sample_submit d = \<lparr>su_run = ''r1'', su_ti = (\<lambda>k. ''r1/'' @ k), su_start = 3, su_queued = (\<lambda>_. 4),
     su_tasks = sorted_keys (Tasks d)\<rparr>"

lemma sample_worlds_ok: "worlds_ok sample_worlds" "draws_ok sample_submit"
  by (simp_all add: worlds_ok_def sample_worlds_def draws_ok_def sample_submit_def inj_on_def)

lemma sample_file:
  "ParseFile (\<lambda>data. Inr sample_document) (\<lambda>path. Inr (Inr [])) plain_world path = Ret (Inr sample_dag)"
  by (simp add: ParseFile_def Parse_def ParseBytes_def sample_parsed)

lemma sample_tasks:
  "fmlookup (Tasks sample_dag) k = Some t \<Longrightarrow> Executor t = ''shell''" "card (fmdom' (Tasks sample_dag)) = 2"
  "\<exists>t. fmlookup (Tasks sample_dag) ''b'' = Some t \<and> Dependencies t = [''a'']"
proof -
  have "fmpred (\<lambda>k t. Executor t = ''shell'') (Tasks sample_dag)" by code_simp
  then show "fmlookup (Tasks sample_dag) k = Some t \<Longrightarrow> Executor t = ''shell''" by (rule fmpredD)
  have "fcard (fmdom (Tasks sample_dag)) = 2" by code_simp
  then show "card (fmdom' (Tasks sample_dag)) = 2" by (simp add: fcard.rep_eq fmdom'_alt_def)
  have "case fmlookup (Tasks sample_dag) ''b'' of Some t \<Rightarrow> Dependencies t = [''a''] | None \<Rightarrow> False"
    by code_simp
  then show "\<exists>t. fmlookup (Tasks sample_dag) ''b'' = Some t \<and> Dependencies t = [''a'']"
    by (auto split: option.splits)
qed

lemma sample_reports:
  "fmlookup (Tasks sample_dag) k = Some t \<Longrightarrow> P st \<Longrightarrow>
     reports (Register (sample_executor st) NewRegistry) t P"
  using sample_tasks(1) by (auto simp: reports_def go_simps sample_executor_def)

lemma run_succeeds_witness:
  "\<exists>ks s. cmdRun (ParseFile (\<lambda>data. Inr sample_document) (\<lambda>path. Inr (Inr [])) plain_world) sample_submit
       sample_worlds (Register (sample_executor StatusSuccess) NewRegistry) 3 ''f.yaml'' () =
     Ret (Completed StatusSuccess, ks, s, ()) \<and> distinct ks \<and> set ks = fmdom' (Tasks sample_dag)"
proof -
  have "fmpred (\<lambda>k t. reports (Register (sample_executor StatusSuccess) NewRegistry) t (\<lambda>st. st = StatusSuccess))
      (Tasks sample_dag)" by (auto intro: sample_reports)
  from run_succeeds [OF _ plain_world_orders sample_file sample_worlds_ok this,
      where path = "''f.yaml''" and fuel = 3 and x = "()"] show ?thesis
    using sample_tasks(2) by auto
qed

lemma run_hangs_on_failure_witness:
  "\<forall>fuel. cmdRun (ParseFile (\<lambda>data. Inr sample_document) (\<lambda>path. Inr (Inr [])) plain_world) sample_submit
       sample_worlds (Register (sample_executor StatusFailed) NewRegistry) fuel ''f.yaml'' () = Diverge"
proof
  fix fuel
  obtain t where t: "fmlookup (Tasks sample_dag) ''b'' = Some t" "''a'' \<in> set (Dependencies t)"
    using sample_tasks(3) by auto
  show "cmdRun (ParseFile (\<lambda>data. Inr sample_document) (\<lambda>path. Inr (Inr [])) plain_world) sample_submit
       sample_worlds (Register (sample_executor StatusFailed) NewRegistry) fuel ''f.yaml'' () = Diverge"
    by (rule run_hangs_on_failure [OF _ plain_world_orders sample_file sample_worlds_ok t])
       (auto intro: sample_reports)
qed

end
