(* ===== verification/Cli.thy ===== *)
theory Cli
  imports Runner
begin

text \<open>
  The commands \<^verbatim>\<open>validate\<close> and \<^verbatim>\<open>list\<close> of \<^verbatim>\<open>cmd/sparkflowctl/main.go\<close>: what they print and how they
  exit. Flags are parsed already; \<^verbatim>\<open>os.ReadDir\<close>, the opening of files and \<^verbatim>\<open>yaml.Unmarshal\<close> are
  arguments, and a table is given by its rows.
\<close>

section \<open>Output\<close>

record cli =
  cli_out :: string
  cli_err :: string
  cli_code :: int

definition line :: "string \<Rightarrow> string" where
  "line s = s @ [char_of (10 :: nat)]"

text \<open>An object and a list of strings in it, as an encoder with the indentation of two blanks writes them.\<close>

definition json_pretty :: "(string \<times> string) list \<Rightarrow> string" where
  "json_pretty fs = line ''{'' @
     join (line '','') (map (\<lambda>(k, v). ''  '' @ json_string k @ '': '' @ v) fs) @ line '''' @ line ''}''"

definition json_strings :: "string list \<Rightarrow> string" where
  "json_strings xs =
     (if xs = [] then ''[]''
      else line ''['' @ join (line '','') (map (\<lambda>x. ''    '' @ json_string x) xs) @ line '''' @ ''  ]'')"

section \<open>validate\<close>

record validate_world =
  vw_parse :: parse_world
  vw_tasks :: "tasks \<Rightarrow> string list"
  vw_edges :: "edges \<Rightarrow> string list"
  vw_degrees :: "(string, int) fmap \<Rightarrow> string list"

definition invalid_text :: "string \<Rightarrow> err \<Rightarrow> string" where
  "invalid_text file e = line (''INVALID: '' @ file) @ line (''  '' @ err_Error e)"

definition order_lines :: "task list \<Rightarrow> string" where
  "order_lines ts = concat (map (\<lambda>(i, t). line (''    '' @ nat_dec (i + 1) @ ''. '' @ task_ID t @ '' ('' @
      Executor t @ '')'')) (enumerate 0 ts))"

definition valid_report :: "string \<Rightarrow> bool \<Rightarrow> dag \<Rightarrow> task list \<Rightarrow> string" where
  "valid_report file json d ts =
     (if json
      then json_pretty
        [(''dag_id'', json_string (dag_ID d)), (''file'', json_string file), (''name'', json_string (dag_Name d)),
         (''task_order'', json_strings (map task_ID ts)), (''tasks'', nat_dec (map_len (Tasks d))),
         (''valid'', ''true'')]
      else line (''VALID: '' @ file) @ line (''  DAG: '' @ dag_ID d @ '' ('' @ dag_Name d @ '')'') @
        line (''  Tasks: '' @ nat_dec (map_len (Tasks d))) @ line ''  Execution order:'' @ order_lines ts)"

definition cmdValidate ::
  "(string \<Rightarrow> err + yaml_dag) \<Rightarrow> (string \<Rightarrow> err + (err + string)) \<Rightarrow> validate_world \<Rightarrow> string \<Rightarrow> bool \<Rightarrow> cli outcome"
where
  "cmdValidate unmarshal fs w file json =
     (if file = [] then Ret \<lparr>cli_out = [], cli_err = line ''error: -f flag is required'', cli_code = 1\<rparr>
      else bind_outcome (ParseFile unmarshal fs (vw_parse w) file) (\<lambda>r.
        case r of
          Inl e \<Rightarrow>
            Ret (if json
                 then \<lparr>cli_out = json_pretty [(''error'', json_string (err_Error e)), (''file'', json_string file),
                                             (''valid'', ''false'')], cli_err = [], cli_code = 1\<rparr>
                 else \<lparr>cli_out = [], cli_err = invalid_text file e, cli_code = 1\<rparr>)
        | Inr d \<Rightarrow>
            (let ot = vw_tasks w (Tasks d); oe = vw_edges w (Edges d)
             in bind_outcome (TopologicalSort ot oe (vw_degrees w (in_degrees ot oe d)) d) (\<lambda>(d, s).
                  case s of
                    Inl e \<Rightarrow> Ret \<lparr>cli_out = [], cli_err = invalid_text file e, cli_code = 1\<rparr>
                  | Inr xs \<Rightarrow>
                      if None \<in> set xs then Panic
                      else Ret \<lparr>cli_out = valid_report file json d (map the xs), cli_err = [], cli_code = 0\<rparr>))))"

section \<open>list\<close>

text \<open>The last four or five letters of a name; without its last test, \<^verbatim>\<open>"yaml"\<close> needs no dot.\<close>

definition is_yaml :: "string \<Rightarrow> bool" where
  "is_yaml name \<longleftrightarrow> 5 \<le> length name \<and>
     (drop (length name - 4) name \<in> {''.yml'', ''yaml''} \<or> drop (length name - 5) name = ''.yaml'')"

definition list_row :: "string \<Rightarrow> err + dag \<Rightarrow> string list" where
  "list_row name r =
     (case r of
        Inl e \<Rightarrow> [name, ''ERROR'', err_Error e, ''-'', ''-'']
      | Inr d \<Rightarrow>
          [name, dag_ID d, dag_Name d, nat_dec (map_len (Tasks d)),
           case Schedule_of d of None \<Rightarrow> ''-'' | Some s \<Rightarrow> Expression s])"

text \<open>The loop over the entries, each a name and whether it is a directory.\<close>

fun list_rows ::
  "(string \<Rightarrow> err + yaml_dag) \<Rightarrow> (string \<Rightarrow> err + (err + string)) \<Rightarrow> (string \<Rightarrow> parse_world) \<Rightarrow> string \<Rightarrow>
     (string \<times> bool) list \<Rightarrow> string list list outcome"
where
  "list_rows unmarshal fs pw dir [] = Ret []"
| "list_rows unmarshal fs pw dir ((name, is_dir) # es) =
     (if is_dir \<or> \<not> is_yaml name then list_rows unmarshal fs pw dir es
      else bind_outcome (ParseFile unmarshal fs (pw name) (dir @ ''/'' @ name)) (\<lambda>r.
           bind_outcome (list_rows unmarshal fs pw dir es) (\<lambda>rows. Ret (list_row name r # rows))))"

definition cmdList ::
  "(string \<Rightarrow> err + yaml_dag) \<Rightarrow> (string \<Rightarrow> err + (err + string)) \<Rightarrow> (string \<Rightarrow> parse_world) \<Rightarrow> string \<Rightarrow>
     err + (string \<times> bool) list \<Rightarrow> (string list list \<times> string \<times> int) outcome"
where
  "cmdList unmarshal fs pw dir entries =
     (case entries of
        Inl e \<Rightarrow> Ret ([], line (''error reading directory: '' @ err_Error e), 1)
      | Inr es \<Rightarrow>
          bind_outcome (list_rows unmarshal fs pw dir es) (\<lambda>rows.
            Ret ([''FILE'', ''DAG ID'', ''NAME'', ''TASKS'', ''SCHEDULE''] # rows, [], 0)))"

section \<open>What the exit code says\<close>

definition validate_orders :: "validate_world \<Rightarrow> bool" where
  "validate_orders w \<longleftrightarrow> parse_orders (vw_parse w) \<and> (\<forall>m. ranges (vw_tasks w m) m) \<and>
     (\<forall>m. ranges (vw_edges w m) m) \<and> (\<forall>m. ranges (vw_degrees w m) m)"

lemma ParseFile_total:
  assumes "parse_orders pw"
  shows "\<exists>r. ParseFile unmarshal fs pw path = Ret r \<and>
    ((\<exists>d. r = Inr d) \<longleftrightarrow> (\<exists>data raw c ts. fs path = Inr (Inr data) \<and> unmarshal data = Inr raw \<and> document_ok raw c ts)) \<and>
    (\<forall>d. r = Inr d \<longrightarrow> wf_dag d \<and> edge_rel (Edges d) = dep_rel (Tasks d) \<and> acyclic (edge_rel (Edges d)))"
proof -
  have "acyclic (edge_rel (Edges d))" if built: "buildDAG pw raw = Ret (Inr d)" for d raw
  proof -
    obtain c ts where ok: "document_ok raw c ts" "d = document_dag (pw_now pw) raw c ts\<lparr>Edges := Edges d\<rparr>"
        "edge_rel (Edges d) = dep_rel (Tasks d)"
      using buildDAG_spec [OF assms, of raw] unfolding built by blast
    have "Tasks d = file_tasks ts fmempty" by (subst ok(2)) (simp add: document_dag_def)
    then show ?thesis using ok(1,3) by (simp add: document_ok_def)
  qed
  then show ?thesis
    using buildDAG_spec [OF assms]
    by (fastforce simp: ParseFile_def Parse_def ParseBytes_def split: sum.splits)
qed

lemma ParseFile_tasks:
  assumes "parse_orders pw" and "ParseFile unmarshal fs pw path = Ret (Inr d)"
  shows "fmdom' (Tasks d) \<noteq> {}"
proof -
  obtain raw where "buildDAG pw raw = Ret (Inr d)"
    using assms(2) by (auto simp: ParseFile_def Parse_def ParseBytes_def split: sum.splits)
  then obtain c ts where ok: "document_ok raw c ts" "d = document_dag (pw_now pw) raw c ts\<lparr>Edges := Edges d\<rparr>"
    using buildDAG_spec [OF assms(1), of raw] by auto
  have "Tasks d = file_tasks ts fmempty" by (subst ok(2)) (simp add: document_dag_def)
  then show ?thesis using ok(1) by (simp add: fmdom_file_tasks document_ok_def)
qed

subsection \<open>The report, line by line\<close>

text \<open>
  What is to be printed for a DAG in a given order of its tasks, written down as lines, apart from the functions
  that print it: for people, a numbered list of the tasks with their executors; as JSON, an object with its keys
  in alphabetical order, indented by two blanks, and a comma after every task but the last.
\<close>

definition text_lines :: "string \<Rightarrow> dag \<Rightarrow> string list \<Rightarrow> string list" where
  "text_lines file d ids =
     [''VALID: '' @ file, ''  DAG: '' @ dag_ID d @ '' ('' @ dag_Name d @ '')'', ''  Tasks: '' @ nat_dec (length ids),
      ''  Execution order:''] @
     map (\<lambda>k. ''    '' @ nat_dec (k + 1) @ ''. '' @ ids ! k @ '' ('' @
       Executor (the (fmlookup (Tasks d) (ids ! k))) @ '')'') [0..<length ids]"

definition json_lines :: "string \<Rightarrow> dag \<Rightarrow> string list \<Rightarrow> string list" where
  "json_lines file d ids =
     [''{'',
      ''  '' @ json_string ''dag_id'' @ '': '' @ json_string (dag_ID d) @ '','',
      ''  '' @ json_string ''file'' @ '': '' @ json_string file @ '','',
      ''  '' @ json_string ''name'' @ '': '' @ json_string (dag_Name d) @ '','',
      ''  '' @ json_string ''task_order'' @ '': [''] @
     map (\<lambda>i. ''    '' @ json_string i @ '','') (butlast ids) @
     [''    '' @ json_string (last ids),
      ''  ],'',
      ''  '' @ json_string ''tasks'' @ '': '' @ nat_dec (length ids) @ '','',
      ''  '' @ json_string ''valid'' @ '': true'',
      ''}'']"

definition printed :: "string list \<Rightarrow> string" where
  "printed ls = concat (map line ls)"

lemma join_commas:
  "xs \<noteq> [] \<Longrightarrow> join (line '','') (map f xs) @ line r =
     printed (map (\<lambda>x. f x @ '','') (butlast xs)) @ line (f (last xs) @ r)"
  by (induction xs rule: induct_list012) (simp_all add: printed_def line_def)

lemma order_lines_printed:
  "order_lines ts = printed (map (\<lambda>k. ''    '' @ nat_dec (k + 1) @ ''. '' @ task_ID (ts ! k) @ '' ('' @
     Executor (ts ! k) @ '')'') [0..<length ts])"
  unfolding order_lines_def printed_def
  by (rule arg_cong [where f = concat], rule nth_equalityI) (simp_all add: nth_enumerate_eq)

lemma valid_report_lines:
  assumes "wf_dag d" "distinct ids" "set ids = fmdom' (Tasks d)" "ids \<noteq> []"
  shows "valid_report file json d (map (\<lambda>i. the (fmlookup (Tasks d) i)) ids) =
    printed (if json then json_lines file d ids else text_lines file d ids)"
proof -
  have names: "map (task_ID \<circ> (\<lambda>i. the (fmlookup (Tasks d) i))) ids = ids"
  proof (rule map_idI)
    fix i assume "i \<in> set ids"
    then obtain t where "fmlookup (Tasks d) i = Some t" using assms(3) by (auto simp: fmlookup_dom'_iff)
    then show "(task_ID \<circ> (\<lambda>i. the (fmlookup (Tasks d) i))) i = i" using assms(1) by (auto simp: wf_dag_def dest: well_keyedD)
  qed
  then have nth: "task_ID (the (fmlookup (Tasks d) (ids ! k))) = ids ! k" if "k < length ids" for k
    using that by (metis comp_apply length_map nth_map)
  have count: "map_len (Tasks d) = length ids"
    using distinct_card [OF assms(2)] assms(3) by (simp add: map_len_def fcard.rep_eq fmdom'_alt_def)
  show ?thesis
  proof (cases json)
    case True
    have "join (line '','') (map (\<lambda>x. ''    '' @ json_string x) ids) @ line [] =
        printed (map (\<lambda>x. ''    '' @ json_string x @ '','') (butlast ids)) @ line (''    '' @ json_string (last ids))"
      using join_commas [OF assms(4), of "\<lambda>x. ''    '' @ json_string x" "[]"] by simp
    then show ?thesis using True assms(4) count names
      by (simp add: valid_report_def json_pretty_def json_strings_def json_lines_def printed_def line_def)
  next
    case False
    let ?row = "\<lambda>k i e. ''    '' @ nat_dec (k + 1) @ ''. '' @ i @ '' ('' @ e @ '')''" and ?ts = "map (\<lambda>i. the (fmlookup (Tasks d) i)) ids"
    have rows: "map (\<lambda>k. ?row k (task_ID (?ts ! k)) (Executor (?ts ! k))) [0..<length ids] =
        map (\<lambda>k. ?row k (ids ! k) (Executor (the (fmlookup (Tasks d) (ids ! k))))) [0..<length ids]"
      by (rule map_cong [OF refl]) (simp add: nth)
    have "order_lines ?ts = printed (map (\<lambda>k. ?row k (ids ! k) (Executor (the (fmlookup (Tasks d) (ids ! k))))) [0..<length ids])"
      unfolding order_lines_printed length_map rows ..
    then show ?thesis using False count
      by (simp add: valid_report_def text_lines_def printed_def)
  qed
qed

text \<open>
  C36. \<^verbatim>\<open>sparkflowctl validate\<close> always ends, with exit code 0 exactly when the file can be read and
  holds a document in order, and with 1 otherwise. In the first case it prints exactly the lines of the report, in text or as
  JSON, with every task once, each after the tasks it depends on. Otherwise it prints the error with which the file
  was refused: the branch for a file that parses but cannot be sorted is never taken.
\<close>

theorem cmdValidate_correct:
  assumes "validate_orders w" and "file \<noteq> ''''"
  shows "\<exists>out. cmdValidate unmarshal fs w file json = Ret out \<and>
    (cli_code out = 0 \<longleftrightarrow>
      (\<exists>data raw c ts. fs file = Inr (Inr data) \<and> unmarshal data = Inr raw \<and> document_ok raw c ts)) \<and>
    (cli_code out = 0 \<longrightarrow> (\<exists>d ids. ParseFile unmarshal fs (vw_parse w) file = Ret (Inr d) \<and>
       cli_out out = printed (if json then json_lines file d ids else text_lines file d ids) \<and> cli_err out = '''' \<and>
       distinct ids \<and> set ids = fmdom' (Tasks d) \<and> predecessors_first (dep_rel (Tasks d)) ids)) \<and>
    (cli_code out \<noteq> 0 \<longrightarrow> cli_code out = 1 \<and> (\<exists>e. ParseFile unmarshal fs (vw_parse w) file = Ret (Inl e) \<and>
       (if json
        then cli_err out = '''' \<and> cli_out out = printed [''{'', ''  '' @ json_string ''error'' @ '': '' @ json_string (err_Error e) @ '','',
          ''  '' @ json_string ''file'' @ '': '' @ json_string file @ '','', ''  '' @ json_string ''valid'' @ '': false'', ''}'']
        else cli_out out = '''' \<and> cli_err out = printed [''INVALID: '' @ file, ''  '' @ err_Error e])))"
proof -
  have orders: "parse_orders (vw_parse w)" using assms(1) by (simp add: validate_orders_def)
  obtain r where r: "ParseFile unmarshal fs (vw_parse w) file = Ret r"
      "(\<exists>d. r = Inr d) \<longleftrightarrow> (\<exists>data raw c ts. fs file = Inr (Inr data) \<and> unmarshal data = Inr raw \<and> document_ok raw c ts)"
      "\<forall>d. r = Inr d \<longrightarrow> wf_dag d \<and> edge_rel (Edges d) = dep_rel (Tasks d) \<and> acyclic (edge_rel (Edges d))"
    using ParseFile_total [OF orders] by blast
  show ?thesis
  proof (cases r)
    case (Inl e)
    then show ?thesis using r(1,2) assms(2)
      by (simp add: cmdValidate_def json_pretty_def invalid_text_def printed_def line_def)
  next
    case (Inr d)
    let ?ot = "vw_tasks w (Tasks d)" and ?oe = "vw_edges w (Edges d)"
    let ?od = "vw_degrees w (in_degrees ?ot ?oe d)"
    have d: "wf_dag d" "edge_rel (Edges d) = dep_rel (Tasks d)" "acyclic (edge_rel (Edges d))" "fmdom' (Tasks d) \<noteq> {}"
      using r(3) Inr ParseFile_tasks [OF orders] r(1) by auto
    have vo: "visit_orders ?ot ?oe ?od d" using assms(1) by (simp add: visit_orders_def validate_orders_def)
    obtain d' xs where sort: "TopologicalSort ?ot ?oe ?od d = Ret (d', Inr xs)"
      using TopologicalSort_acyclic [OF vo d(1)] d(3) by blast
    obtain ids where ids: "xs = map (fmlookup (Tasks d)) ids" "distinct ids" "set ids = fmdom' (Tasks d)"
        "predecessors_first (dep_rel (Tasks d)) ids"
      using TopologicalSort_order [OF vo d(1) sort] d(2) by auto
    have found: "None \<notin> set xs" using ids(1,3) by (force simp: fmlookup_dom'_iff)
    obtain es where "d' = d\<lparr>Edges := es\<rparr>" using TopologicalSort_frame [OF vo sort] by blast
    then have same: "valid_report file json d' = valid_report file json d" by (simp add: valid_report_def fun_eq_iff)
    have shown: "valid_report file json d (map (\<lambda>i. the (fmlookup (Tasks d) i)) ids) =
        printed (if json then json_lines file d ids else text_lines file d ids)"
      using d(4) ids(3) by (intro valid_report_lines [OF d(1) ids(2,3)]) auto
    let ?out = "\<lparr>cli_out = printed (if json then json_lines file d ids else text_lines file d ids), cli_err = [], cli_code = 0\<rparr>"
    have "cmdValidate unmarshal fs w file json = Ret ?out"
      using r(1) Inr assms(2) sort found same ids(1) shown by (simp add: cmdValidate_def Let_def comp_def)
    moreover have "\<exists>data raw c ts. fs file = Inr (Inr data) \<and> unmarshal data = Inr raw \<and> document_ok raw c ts"
      using r(2) Inr by blast
    ultimately show ?thesis using r(1) Inr ids(2-4)
      by (intro exI [of _ ?out] conjI impI exI [of _ d] exI [of _ ids]) simp_all
  qed
qed

definition sample_validate :: validate_world where
  "sample_validate = \<lparr>vw_parse = plain_world, vw_tasks = sorted_keys, vw_edges = sorted_keys, vw_degrees = sorted_keys\<rparr>"

lemma cmdValidate_correct_witness:
  "\<exists>out. cmdValidate (\<lambda>data. Inr sample_document) (\<lambda>path. Inr (Inr [])) sample_validate ''f.yaml'' False = Ret out \<and>
     cli_code out = 0"
proof -
  have "validate_orders sample_validate"
    by (simp add: validate_orders_def sample_validate_def plain_world_orders)
  then obtain out where out:
    "cmdValidate (\<lambda>data. Inr sample_document) (\<lambda>path. Inr (Inr [])) sample_validate ''f.yaml'' False = Ret out"
    "cli_code out = 0 \<longleftrightarrow> (\<exists>c ts. document_ok sample_document c ts)"
    using cmdValidate_correct [of sample_validate "''f.yaml''" "\<lambda>data. Inr sample_document" "\<lambda>path. Inr (Inr [])" False]
    by auto
  moreover have "\<exists>c ts. document_ok sample_document c ts"
    using buildDAG_spec [OF plain_world_orders, of sample_document] sample_parsed by auto
  ultimately show ?thesis by blast
qed

text \<open>A name that ends in \<open>yaml\<close> without a dot is taken for a YAML file.\<close>

lemma is_yaml_without_dot: "is_yaml ''notyaml''"
  by (simp add: is_yaml_def)

end
