(* ===== verification/Programs.thy ===== *)
theory Programs
  imports Service Goroutines Cli
begin

text \<open>
  The three programs under \<^verbatim>\<open>cmd/\<close>: the flags and the log level, the order of the calls, and the exit
  codes. \<^verbatim>\<open>flag.Parse\<close> is the argument that gives the record of flags; a program that waits for a signal that
  never comes diverges. Version and commit are set by the linker.
\<close>

section \<open>sparkflow-server and sparkflow-worker\<close>

text \<open>What a process prints, the errors that it logs, and its exit code.\<close>

record process =
  px_out :: string
  px_logged :: "(string \<times> err) list"
  px_code :: int

text \<open>The levels of \<^verbatim>\<open>slog\<close>; a name that is not known is \<^verbatim>\<open>info\<close>.\<close>

definition log_level :: "string \<Rightarrow> int" where
  "log_level name =
     (if name = ''debug'' then - 4 else if name = ''warn'' then 4 else if name = ''error'' then 8 else 0)"

record server_flags =
  sf_grpc_addr :: string
  sf_http_addr :: string
  sf_metrics_addr :: string
  sf_data_dir :: string
  sf_store_dsn :: string
  sf_log_level :: string
  sf_version :: bool

definition server_flag_defaults :: server_flags where
  "server_flag_defaults =
     \<lparr>sf_grpc_addr = '':9090'', sf_http_addr = '':8080'', sf_metrics_addr = '':9091'',
      sf_data_dir = ''/var/lib/sparkflow'', sf_store_dsn = '''', sf_log_level = ''info'', sf_version = False\<rparr>"

text \<open>
  \<open>signal\<close> says that a signal comes. The set-up of telemetry gets the level.
\<close>

definition server_main ::
  "(int \<Rightarrow> server_config \<Rightarrow> err + 's) \<Rightarrow> ('s \<Rightarrow> err option \<times> 's) \<Rightarrow> ('s \<Rightarrow> (err option \<times> 's) outcome) \<Rightarrow>
     bool \<Rightarrow> string \<Rightarrow> string \<Rightarrow> server_flags \<Rightarrow> process outcome" where
  "server_main new start shutdown signal ver cm flags =
     (if sf_version flags
      then Ret \<lparr>px_out = line (''sparkflow-server '' @ ver @ '' (commit: '' @ cm @ '')''), px_logged = [], px_code = 0\<rparr>
      else
        (case new (log_level (sf_log_level flags))
                \<lparr>GRPCAddr = sf_grpc_addr flags, HTTPAddr = sf_http_addr flags, MetricsAddr = sf_metrics_addr flags,
                 srv_DataDir = sf_data_dir flags, StoreDSN = sf_store_dsn flags\<rparr> of
           Inl e \<Rightarrow> Ret \<lparr>px_out = [], px_logged = [(''failed to create server'', e)], px_code = 1\<rparr>
         | Inr srv \<Rightarrow>
             (case start srv of
                (Some e, srv) \<Rightarrow> Ret \<lparr>px_out = [], px_logged = [(''failed to start server'', e)], px_code = 1\<rparr>
              | (None, srv) \<Rightarrow>
                  if \<not> signal then Diverge
                  else bind_outcome (shutdown srv) (\<lambda>(e, srv).
                    Ret (case e of
                           Some e \<Rightarrow> \<lparr>px_out = [], px_logged = [(''shutdown error'', e)], px_code = 1\<rparr>
                         | None \<Rightarrow> \<lparr>px_out = [], px_logged = [], px_code = 0\<rparr>)))))"

record worker_flags =
  wf_id :: string
  wf_server_addr :: string
  wf_concurrency :: int
  wf_heartbeat :: duration
  wf_log_level :: string
  wf_version :: bool

definition worker_flag_defaults :: worker_flags where
  "worker_flag_defaults =
     \<lparr>wf_id = '''', wf_server_addr = ''localhost:9090'', wf_concurrency = 4,
      wf_heartbeat = 10 * 1000000000, wf_log_level = ''info'', wf_version = False\<rparr>"

definition worker_main ::
  "(int \<Rightarrow> worker_config \<Rightarrow> (err + 'w) outcome) \<Rightarrow> ('w \<Rightarrow> err option \<times> 'w) \<Rightarrow>
     ('w \<Rightarrow> (err option \<times> 'w) outcome) \<Rightarrow> bool \<Rightarrow> string \<Rightarrow> string \<Rightarrow> worker_flags \<Rightarrow> process outcome" where
  "worker_main new start stop signal ver cm flags =
     (if wf_version flags
      then Ret \<lparr>px_out = line (''sparkflow-worker '' @ ver @ '' (commit: '' @ cm @ '')''), px_logged = [], px_code = 0\<rparr>
      else bind_outcome (new (log_level (wf_log_level flags))
                \<lparr>wc_ID = wf_id flags, wc_ServerAddr = wf_server_addr flags, wc_Concurrency = wf_concurrency flags,
                 wc_HeartbeatInterval = wf_heartbeat flags\<rparr>) (\<lambda>r.
        case r of
          Inl e \<Rightarrow> Ret \<lparr>px_out = [], px_logged = [(''failed to create worker'', e)], px_code = 1\<rparr>
        | Inr w \<Rightarrow>
            (case start w of
               (Some e, w) \<Rightarrow> Ret \<lparr>px_out = [], px_logged = [(''failed to start worker'', e)], px_code = 1\<rparr>
             | (None, w) \<Rightarrow>
                 if \<not> signal then Diverge
                 else bind_outcome (stop w) (\<lambda>(e, w).
                   Ret (case e of
                          Some e \<Rightarrow> \<lparr>px_out = [], px_logged = [(''shutdown error'', e)], px_code = 1\<rparr>
                        | None \<Rightarrow> \<lparr>px_out = [], px_logged = [], px_code = 0\<rparr>)))))"

section \<open>sparkflowctl\<close>

definition usage :: string where
  "usage = concat (map line
     [''sparkflowctl - Sparkflow CLI'', '''', ''Usage:'', ''  sparkflowctl <command> [options]'', '''',
      ''Commands:'', ''  validate    Validate a DAG YAML file'', ''  run         Run a DAG locally'',
      ''  list        List DAGs'', ''  version     Show version'', ''  help        Show this help'', '''',
      ''Examples:'', ''  sparkflowctl validate -f workflow.yaml'',
      ''  sparkflowctl run -f workflow.yaml -p date=2024-01-01'', ''  sparkflowctl list''])"

text \<open>The commands get the arguments that are left: the name of the program and what follows the command.\<close>

definition ctl_main ::
  "(string list \<Rightarrow> cli outcome) \<Rightarrow> (string list \<Rightarrow> cli outcome) \<Rightarrow> (string list \<Rightarrow> cli outcome) \<Rightarrow>
     string \<Rightarrow> string \<Rightarrow> string list \<Rightarrow> cli outcome" where
  "ctl_main validate run lister ver cm args =
     (if length args < 2 then Ret \<lparr>cli_out = usage, cli_err = [], cli_code = 1\<rparr>
      else
        let cmd = args ! 1; rest = take 1 args @ drop 2 args in
        if cmd = ''version''
        then Ret \<lparr>cli_out = line (''sparkflowctl '' @ ver @ '' (commit: '' @ cm @ '')''), cli_err = [], cli_code = 0\<rparr>
        else if cmd = ''validate'' then validate rest
        else if cmd = ''run'' then run rest
        else if cmd = ''list'' then lister rest
        else if cmd = ''help'' then Ret \<lparr>cli_out = usage, cli_err = [], cli_code = 0\<rparr>
        else Ret \<lparr>cli_out = usage, cli_err = line (''unknown command: '' @ cmd) @ line '''', cli_code = 1\<rparr>)"

section \<open>The server program on the models of its parts\<close>

text \<open>The settings of telemetry in the two servers.\<close>

definition server_telemetry :: "int \<Rightarrow> obs_config" where
  "server_telemetry lvl =
     \<lparr>ServiceName = ''sparkflow-server'', ServiceVersion = '''', OTLPEndpoint = '''', LogLevel = lvl,
      EnableTracing = False, EnableMetrics = True\<rparr>"

definition worker_telemetry :: "int \<Rightarrow> obs_config" where
  "worker_telemetry lvl =
     \<lparr>ServiceName = ''sparkflow-worker'', ServiceVersion = '''', OTLPEndpoint = '''', LogLevel = lvl,
      EnableTracing = False, EnableMetrics = True\<rparr>"

text \<open>The server as \<^verbatim>\<open>main\<close> sees it: its telemetry and the services that it runs.\<close>

definition program_New ::
  "('r, 'e, 'q) telemetry \<Rightarrow> ('r, 'e, 'q) globals \<Rightarrow> (string \<Rightarrow> int \<Rightarrow> err + 'p) \<Rightarrow> ('p \<Rightarrow> err option) \<Rightarrow>
     'x registry \<Rightarrow> int \<Rightarrow> server_config \<Rightarrow> err + ('r, 'e, 'q) provider option \<times> ('p, 'x) live" where
  "program_New lib g connect migrate reg lvl cfg =
     (let (er, obs) = (case fst (Setup lib (server_telemetry lvl) g) of
                         Inl e \<Rightarrow> (Some e, None)
                       | Inr p \<Rightarrow> (None, Some p))
      in map_sum fst (Pair obs) (live_New er connect migrate reg cfg))"

definition server_program ::
  "('r, 'e, 'q) telemetry \<Rightarrow> ('r, 'e, 'q) globals \<Rightarrow> (string \<Rightarrow> int \<Rightarrow> err + 'p) \<Rightarrow> ('p \<Rightarrow> err option) \<Rightarrow>
     'x registry \<Rightarrow> (string \<Rightarrow> err option) \<Rightarrow> (string \<Rightarrow> bool) \<Rightarrow> (signal_kind \<Rightarrow> err option) \<Rightarrow>
     bool \<Rightarrow> string \<Rightarrow> string \<Rightarrow> server_flags \<Rightarrow> process outcome" where
  "server_program lib g connect migrate reg listen bound down =
     server_main (program_New lib g connect migrate reg)
       (\<lambda>(obs, lv). let (e, lv) = live_Start listen bound lv in (e, obs, lv))
       (\<lambda>(obs, lv). bind_outcome (live_Shutdown down (the obs) lv) (\<lambda>(e, lv). Ret (e, obs, lv)))"

text \<open>
  A server ends with 0 exactly if it was asked for its version, or if its telemetry could be set up, it could
  migrate its database and listen for gRPC, and was sent a signal. Without a signal it goes on for ever, with
  any other failure it ends with 1, and it never panics. A database that cannot be reached is no failure.
\<close>

definition failed_with :: "string \<Rightarrow> err \<Rightarrow> process outcome" where
  "failed_with what e = Ret \<lparr>px_out = [], px_logged = [(what, e)], px_code = 1\<rparr>"

lemma server_setup:
  "fst (Setup lib (server_telemetry lvl) g) =
    (case tl_resource lib ''sparkflow-server'' ''dev'' of
       Inl e \<Rightarrow> Inl (Err ''create resource: %w'' [FErr e])
     | Inr res \<Rightarrow> (case tl_prometheus lib of
         Inl e \<Rightarrow> Inl (Err ''create prometheus exporter: %w'' [FErr e])
       | Inr q \<Rightarrow> Inr \<lparr>TracerProvider = Some (NeverSample res), MeterProvider = Some (WithReader res q),
           Logger = (lvl, True), Tracer = (''sparkflow-server'', Some (NeverSample res)),
           Meter = (''sparkflow-server'', Some (WithReader res q))\<rparr>))"
  by (simp add: Setup_def server_telemetry_def obs_defaults_def setup_tracing_def setup_metrics_def Let_def
      split: sum.split)

lemma server_program_exit:
  "server_program lib g connect migrate reg listen bound down signal ver cm flags =
    (if sf_version flags
     then Ret \<lparr>px_out = line (''sparkflow-server '' @ ver @ '' (commit: '' @ cm @ '')''), px_logged = [], px_code = 0\<rparr>
     else case fst (Setup lib (server_telemetry (log_level (sf_log_level flags))) g) of
       Inl e \<Rightarrow> failed_with ''failed to create server'' (Err ''setup observability: %w'' [FErr e])
     | Inr p \<Rightarrow>
         (case choose_store connect migrate (sf_store_dsn flags) of
            Inl e \<Rightarrow> failed_with ''failed to create server'' e
          | Inr st \<Rightarrow>
              (case listen (sf_grpc_addr flags) of
                 Some e \<Rightarrow> failed_with ''failed to start server'' (Err ''listen gRPC: %w'' [FErr e])
               | None \<Rightarrow> if signal then Ret \<lparr>px_out = [], px_logged = [], px_code = 0\<rparr> else Diverge)))"
  by (auto simp: server_program_def program_New_def failed_with_def server_main_def live_New_def server_New_def
      live_Start_def sched_Start_def live_Shutdown_def Shutdown_def Stop_def NewFIFOScheduler_def Let_def
      split: option.split sum.split)

text \<open>A server started with the default flags, where everything succeeds, stops cleanly on a signal.\<close>

lemma server_default_exit:
  assumes "tl_resource lib ''sparkflow-server'' ''dev'' = Inr res" "tl_prometheus lib = Inr q"
    and "listen '':9090'' = None"
  shows "server_program lib g connect migrate reg listen bound down True ver cm server_flag_defaults =
    Ret \<lparr>px_out = [], px_logged = [], px_code = 0\<rparr>"
  using assms
  by (simp add: server_program_exit server_setup server_flag_defaults_def choose_store_def split: option.split)

end
