(* ===== verification/Fleet.thy ===== *)
theory Fleet
  imports System Goroutines
begin

text \<open>
  The scheduler, its store and a pool of workers together: \<open>Submit\<close>, \<open>RegisterDAG\<close> and \<open>Schedule\<close> of
  \<^verbatim>\<open>pkg/scheduler/scheduler.go\<close> in turn with \<open>Dispatch\<close> and \<open>executeTask\<close> of \<^verbatim>\<open>internal/worker/worker.go\<close> on one
  memory store. The packages are made for this, though the server drops what \<open>Schedule\<close> hands out (\<^verbatim>\<open>Service\<close>);
  here whoever calls \<open>Schedule\<close> gives the instances to the pool, one by one. An execution is two steps, its
  first write to the store and its last; other executions, ticks and submissions may come between.
\<close>

section \<open>Steps\<close>

text \<open>
  \<open>fl_ready\<close> are the instances that wait to be dispatched, \<open>fl_busy\<close> the instances in execution.
  \<open>fl_handed\<close> and \<open>fl_begun\<close> record the IDs that were handed out and whose execution began.
\<close>

record 'x fleet =
  fl_sched :: sched
  fl_store :: memory_store
  fl_ready :: "task_instance list"
  fl_pool :: "'x pool"
  fl_busy :: "task_instance list"
  fl_handed :: "string list"
  fl_begun :: "string list"

definition new_fleet :: "duration \<Rightarrow> 'x pool \<Rightarrow> 'x fleet" where
  "new_fleet p pool =
     \<lparr>fl_sched = NewFIFOScheduler p, fl_store = NewMemoryStore, fl_ready = [], fl_pool = pool, fl_busy = [],
      fl_handed = [], fl_begun = []\<rparr>"

definition with_chan :: "nat \<Rightarrow> task_instance chan \<Rightarrow> 'x pool \<Rightarrow> 'x pool" where
  "with_chan i ch p = p\<lparr>workers := (workers p)[i := (workers p ! i)\<lparr>wk_taskCh := ch\<rparr>]\<rparr>"

definition same_task :: "task_instance \<Rightarrow> task_instance \<Rightarrow> bool" where
  "same_task a b \<longleftrightarrow> ti_ID a = ti_ID b \<and> ti_RunID a = ti_RunID b \<and> ti_TaskID a = ti_TaskID b"

inductive fleet_step :: "(string \<Rightarrow> tasks option) \<Rightarrow> 'x fleet \<Rightarrow> 'x fleet \<Rightarrow> bool" for plan where
  submits: "mem_world_ok m \<Longrightarrow> plan (dag_ID d) = Some (Tasks d) \<Longrightarrow> well_keyed (Tasks d) \<Longrightarrow>
     fresh_ids w d (runs (fl_store f)) (taskInstances (fl_store f)) \<Longrightarrow>
     Submit (memory_ops m) w d params (fl_sched f, fl_store f) = (r, sch', s') \<Longrightarrow>
     fleet_step plan f (f\<lparr>fl_sched := sch', fl_store := s'\<rparr>)"
| registers: "mem_world_ok m \<Longrightarrow> plan (dag_ID d) = Some (Tasks d) \<Longrightarrow> well_keyed (Tasks d) \<Longrightarrow>
     RegisterDAG (memory_ops m) cron_add d (fl_sched f, fl_store f) = (e, sch', s') \<Longrightarrow>
     fleet_step plan f (f\<lparr>fl_sched := sch', fl_store := s'\<rparr>)"
| hands_out: "mem_world_ok m \<Longrightarrow> orders_ok w \<Longrightarrow>
     Schedule (memory_ops m) w (fl_sched f, fl_store f) = (Inr ready, sch', s') \<Longrightarrow>
     fleet_step plan f (f\<lparr>fl_sched := sch', fl_store := s', fl_ready := fl_ready f @ ready,
       fl_handed := fl_handed f @ map ti_ID ready\<rparr>)"
| dispatches: "fl_ready f = ti # rest \<Longrightarrow> Dispatch ti (fl_pool f) = (None, p') \<Longrightarrow>
     fleet_step plan f (f\<lparr>fl_ready := rest, fl_pool := p'\<rparr>)"
| begins: "i < length (workers (fl_pool f)) \<Longrightarrow> wk = workers (fl_pool f) ! i \<Longrightarrow>
     receive (wk_taskCh wk) = Some (ti, ch) \<Longrightarrow> UpdateTaskInstance (started w wk ti) (fl_store f) = Inr s' \<Longrightarrow>
     fleet_step plan f (f\<lparr>fl_pool := with_chan i ch (fl_pool f), fl_store := s',
       fl_busy := fl_busy f @ [started w wk ti], fl_begun := fl_begun f @ [ti_ID ti]\<rparr>)"
| finishes: "ti \<in> set (fl_busy f) \<Longrightarrow> same_task ti' ti \<Longrightarrow> ti_Status ti' \<noteq> StatusPending \<Longrightarrow>
     UpdateTaskInstance ti' (fl_store f) = Inr s' \<Longrightarrow>
     fleet_step plan f (f\<lparr>fl_store := s', fl_busy := remove1 ti (fl_busy f)\<rparr>)"

text \<open>What waits in the channels of the pool, which are empty at first.\<close>

definition queued_in :: "'x pool \<Rightarrow> task_instance list" where
  "queued_in p = concat (map (\<lambda>wk. ch_buf (wk_taskCh wk)) (workers p))"

inductive fleet_reach :: "(string \<Rightarrow> tasks option) \<Rightarrow> 'x fleet \<Rightarrow> bool" for plan where
  start: "queued_in pool = [] \<Longrightarrow> fleet_reach plan (new_fleet p pool)"
| step: "fleet_reach plan f \<Longrightarrow> fleet_step plan f f' \<Longrightarrow> fleet_reach plan f'"

section \<open>Pools\<close>

lemma mset_concat_update:
  assumes "i < length xss"
  shows "mset (concat (xss[i := ys])) + mset (xss ! i) = mset (concat xss) + mset ys"
  using assms
proof (induction xss arbitrary: i)
  case (Cons xs xss)
  then show ?case by (cases i) (auto simp: ac_simps)
qed simp

lemma dispatch_loop_mset:
  "dispatch_loop ti ws = (sent, ws') \<Longrightarrow>
     mset (queued_in \<lparr>workers = ws'\<rparr>) = mset (queued_in \<lparr>workers = ws\<rparr>) + (if sent then {#ti#} else {#})"
proof (induction ws arbitrary: sent ws')
  case (Cons w ws)
  show ?case
  proof (cases "try_send ti (wk_taskCh w)")
    case None
    then show ?thesis
      using Cons by (auto simp: worker_Submit_def queued_in_def split: prod.splits if_splits)
  next
    case (Some ch)
    then have "ch_buf ch = ch_buf (wk_taskCh w) @ [ti]" by (auto simp: try_send_def split: if_splits)
    then show ?thesis using Some Cons.prems by (auto simp: worker_Submit_def queued_in_def)
  qed
qed (simp add: queued_in_def)

lemma Dispatch_mset:
  assumes "Dispatch ti p = (None, p')"
  shows "mset (queued_in p') = mset (queued_in p) + {#ti#}"
proof -
  obtain ws where "dispatch_loop ti (workers p) = (True, ws)" "p' = p\<lparr>workers := ws\<rparr>"
    using assms by (auto simp: Dispatch_def split: if_splits prod.splits)
  then show ?thesis using dispatch_loop_mset [of ti "workers p" True ws] by (simp add: queued_in_def)
qed

lemma receive_mset:
  assumes "i < length (workers p)" "receive (wk_taskCh (workers p ! i)) = Some (ti, ch)"
  shows "mset (queued_in p) = mset (queued_in (with_chan i ch p)) + {#ti#}"
proof -
  have "ch_buf (wk_taskCh (workers p ! i)) = ti # ch_buf ch"
    using assms(2) by (auto simp: receive_def split: list.splits)
  then show ?thesis
    using mset_concat_update [of i "map (\<lambda>wk. ch_buf (wk_taskCh wk)) (workers p)" "ch_buf ch"] assms(1)
    by (simp add: queued_in_def with_chan_def map_update)
qed

section \<open>The fleet is a run of the system\<close>

text \<open>
  An instance that waits is in the store as it was handed out; one in execution is there as its worker wrote
  it. No ID is handed out twice.
\<close>

definition waiting :: "'x fleet \<Rightarrow> task_instance list" where
  "waiting f = fl_ready f @ queued_in (fl_pool f)"

definition fleet_inv :: "'x fleet \<Rightarrow> bool" where
  "fleet_inv f \<longleftrightarrow>
     mset (fl_handed f) = mset (map ti_ID (waiting f)) + mset (fl_begun f) \<and> distinct (fl_handed f) \<and>
     (\<forall>i \<in> set (fl_handed f). \<exists>a. fmlookup (taskInstances (fl_store f)) i = Some a \<and> ti_Status a \<noteq> StatusPending) \<and>
     (\<forall>ti \<in> set (waiting f). fmlookup (taskInstances (fl_store f)) (ti_ID ti) = Some ti \<and> ti_Status ti = StatusQueued) \<and>
     (\<forall>ti \<in> set (fl_busy f). fmlookup (taskInstances (fl_store f)) (ti_ID ti) = Some ti \<and> ti_Status ti = StatusRunning) \<and>
     distinct (map ti_ID (fl_busy f)) \<and> ti_ID ` set (fl_busy f) \<subseteq> set (fl_begun f)"

lemma fleet_invD:
  assumes "fleet_inv f"
  shows "mset (fl_handed f) = mset (map ti_ID (waiting f)) + mset (fl_begun f)" "distinct (fl_handed f)"
    "\<And>i. i \<in> set (fl_handed f) \<Longrightarrow> \<exists>a. fmlookup (taskInstances (fl_store f)) i = Some a \<and> ti_Status a \<noteq> StatusPending"
    "\<And>ti. ti \<in> set (waiting f) \<Longrightarrow> fmlookup (taskInstances (fl_store f)) (ti_ID ti) = Some ti \<and> ti_Status ti = StatusQueued"
    "\<And>ti. ti \<in> set (fl_busy f) \<Longrightarrow> fmlookup (taskInstances (fl_store f)) (ti_ID ti) = Some ti \<and> ti_Status ti = StatusRunning"
    "distinct (map ti_ID (fl_busy f))" "ti_ID ` set (fl_busy f) \<subseteq> set (fl_begun f)"
  using assms by (simp_all add: fleet_inv_def)

text \<open>Distinct: what waits, and what began.\<close>

lemma fleet_inv_distinct:
  assumes "fleet_inv f"
  shows "distinct (map ti_ID (waiting f) @ fl_begun f)" "set (fl_handed f) = ti_ID ` set (waiting f) \<union> set (fl_begun f)"
proof -
  have "mset (fl_handed f) = mset (map ti_ID (waiting f) @ fl_begun f)" using fleet_invD(1) [OF assms] by simp
  from mset_eq_imp_distinct_iff [OF this] mset_eq_setD [OF this] fleet_invD(2) [OF assms]
  show "distinct (map ti_ID (waiting f) @ fl_begun f)" "set (fl_handed f) = ti_ID ` set (waiting f) \<union> set (fl_begun f)"
    by simp_all
qed

text \<open>A step of the scheduler that leaves all instances that are not pending.\<close>

lemma fleet_inv_keeps:
  assumes "fleet_inv f"
    and "\<And>i a. fmlookup (taskInstances (fl_store f)) i = Some a \<Longrightarrow> ti_Status a \<noteq> StatusPending \<Longrightarrow>
      fmlookup (taskInstances s') i = Some a"
  shows "fleet_inv (f\<lparr>fl_sched := sch', fl_store := s'\<rparr>)"
  unfolding fleet_inv_def
proof (intro conjI)
  note F = fleet_invD [OF assms(1)]
  let ?f = "f\<lparr>fl_sched := sch', fl_store := s'\<rparr>"
  have [simp]: "waiting ?f = waiting f" by (simp add: waiting_def)
  show "\<forall>i \<in> set (fl_handed ?f). \<exists>a. fmlookup (taskInstances (fl_store ?f)) i = Some a \<and> ti_Status a \<noteq> StatusPending"
    using F(3) assms(2) by fastforce
  show "\<forall>ti \<in> set (waiting ?f). fmlookup (taskInstances (fl_store ?f)) (ti_ID ti) = Some ti \<and> ti_Status ti = StatusQueued"
    using F(4) assms(2) by fastforce
  show "\<forall>ti \<in> set (fl_busy ?f). fmlookup (taskInstances (fl_store ?f)) (ti_ID ti) = Some ti \<and> ti_Status ti = StatusRunning"
    using F(5) assms(2) by fastforce
  show "mset (fl_handed ?f) = mset (map ti_ID (waiting ?f)) + mset (fl_begun ?f)" using F(1) by simp
qed (use fleet_invD [OF assms(1)] in simp_all)

lemma UpdateTaskInstance_Inr:
  "UpdateTaskInstance ti s = Inr s' \<Longrightarrow>
     taskInstances s' = fmupd (ti_ID ti) ti (taskInstances s) \<and> runs s' = runs s \<and> dags s' = dags s"
  by (auto simp: UpdateTaskInstance_def split: if_splits)

lemma submit_keeps:
  assumes "sys_inv plan (sch, s)" "mem_world_ok m" "well_keyed (Tasks d)"
    "fresh_ids w d (runs s) (taskInstances s)" "Submit (memory_ops m) w d params (sch, s) = (r, sch', s')"
    and "fmlookup (taskInstances s) i = Some a"
  shows "fmlookup (taskInstances s') i = Some a"
proof -
  note I = sys_invD [OF assms(1)]
  from Submit_memory [OF I(1) assms(2) I(2) assms(3,4), of params] assms(5)
  have "with_instances w d (taskInstances s) (taskInstances s')" by auto
  from with_instances_keep [OF assms(4) this assms(6)] show ?thesis .
qed

text \<open>What \<open>Schedule\<close> hands out was pending before and is queued now.\<close>

lemma handed_out:
  assumes "sys_inv plan (sch, s)" "mem_world_ok m" "orders_ok w"
    and "Schedule (memory_ops m) w (sch, s) = (Inr ready, sch', s')"
  shows "distinct (map ti_ID ready)"
    and "ti \<in> set ready \<Longrightarrow> fmlookup (taskInstances s') (ti_ID ti) = Some ti \<and> ti_Status ti = StatusQueued \<and>
      (\<exists>a. fmlookup (taskInstances s) (ti_ID ti) = Some a \<and> ti_Status a = StatusPending)"
    and "fmlookup (taskInstances s) i = Some a \<Longrightarrow> ti_Status a \<noteq> StatusPending \<Longrightarrow>
      fmlookup (taskInstances s') i = Some a"
proof -
  note I = sys_invD [OF assms(1)]
  have S: "taskInstances s' = fmmap (queue_due w (due_in sch s)) (taskInstances s)"
      "runs s' = fmmap (closed_run w (mw_now m) (known_dags sch s) (taskInstances s')) (runs s)"
      "distinct (map ti_ID ready)"
      "set ready = mark_queued w ` {ti. fmlookup (taskInstances s) (ti_ID ti) = Some ti \<and> due_in sch s ti}"
    using Schedule_memory [OF I(1) assms(2,3) I(2)] assms(4) by auto
  then show "distinct (map ti_ID ready)" by simp
  show "ti \<in> set ready \<Longrightarrow> fmlookup (taskInstances s') (ti_ID ti) = Some ti \<and> ti_Status ti = StatusQueued \<and>
      (\<exists>a. fmlookup (taskInstances s) (ti_ID ti) = Some a \<and> ti_Status a = StatusPending)"
    unfolding S(4) by (auto simp: S(1) queue_due_def mark_queued_def due_def)
  have "ticked w (mw_now m) sch s s'" using S(1,2) by (simp add: ticked_def)
  then show "fmlookup (taskInstances s) i = Some a \<Longrightarrow> ti_Status a \<noteq> StatusPending \<Longrightarrow>
      fmlookup (taskInstances s') i = Some a" by (rule ticked_keeps)
qed

text \<open>One lemma for each kind of step.\<close>

lemma schedule_fleet_inv:
  assumes inv: "fleet_inv f" and sys: "sys_inv plan (fl_sched f, fl_store f)" and w: "mem_world_ok m" "orders_ok w"
    and S: "Schedule (memory_ops m) w (fl_sched f, fl_store f) = (Inr ready, sch', s')"
  shows "fleet_inv (f\<lparr>fl_sched := sch', fl_store := s', fl_ready := fl_ready f @ ready,
    fl_handed := fl_handed f @ map ti_ID ready\<rparr>)"
proof -
  note H = handed_out [OF sys w S] and F = fleet_invD [OF inv]
  let ?f = "f\<lparr>fl_sched := sch', fl_store := s'\<rparr>"
  note K = fleet_invD [OF fleet_inv_keeps [OF inv H(3), of sch', simplified]]
  have new: "ti_ID ti \<notin> set (fl_handed f)" if "ti \<in> set ready" for ti
    using H(2) [OF that] F(3) by fastforce
  have wait: "mset (map ti_ID (waiting (f\<lparr>fl_sched := sch', fl_store := s', fl_ready := fl_ready f @ ready,
      fl_handed := fl_handed f @ map ti_ID ready\<rparr>))) = mset (map ti_ID (waiting f)) + mset (map ti_ID ready)"
      "set (waiting (f\<lparr>fl_sched := sch', fl_store := s', fl_ready := fl_ready f @ ready,
      fl_handed := fl_handed f @ map ti_ID ready\<rparr>)) = set (waiting f) \<union> set ready"
    by (auto simp: waiting_def)
  have same: "waiting ?f = waiting f" by (simp add: waiting_def)
  show ?thesis
    unfolding fleet_inv_def wait
    using F(1,2,6,7) H(1) H(2) new K(3-5) by (auto simp: same)
qed

lemma dispatch_fleet_inv:
  assumes inv: "fleet_inv f" and d: "fl_ready f = ti # rest" "Dispatch ti (fl_pool f) = (None, p')"
  shows "fleet_inv (f\<lparr>fl_ready := rest, fl_pool := p'\<rparr>)"
proof -
  let ?f = "f\<lparr>fl_ready := rest, fl_pool := p'\<rparr>"
  have m: "mset (waiting ?f) = mset (waiting f)"
    using Dispatch_mset [OF d(2)] by (simp add: waiting_def d(1))
  then have "mset (map ti_ID (waiting ?f)) = mset (map ti_ID (waiting f))" by (simp only: mset_map)
  then show ?thesis
    using inv mset_eq_setD [OF m] unfolding fleet_inv_def by simp
qed

lemma begin_fleet_inv:
  assumes inv: "fleet_inv f" and i: "i < length (workers (fl_pool f))" "wk = workers (fl_pool f) ! i"
    and r: "receive (wk_taskCh wk) = Some (ti, ch)"
    and u: "UpdateTaskInstance (started w wk ti) (fl_store f) = Inr s'"
  shows "fleet_inv (f\<lparr>fl_pool := with_chan i ch (fl_pool f), fl_store := s',
    fl_busy := fl_busy f @ [started w wk ti], fl_begun := fl_begun f @ [ti_ID ti]\<rparr>)" (is "fleet_inv ?f")
    and "ti \<in> set (waiting f)"
proof -
  note F = fleet_invD [OF inv] and D = fleet_inv_distinct [OF inv]
  have m: "mset (waiting f) = mset (waiting ?f) + {#ti#}"
    using receive_mset [OF i(1) r [unfolded i(2)]] by (simp add: waiting_def)
  have "ti \<in># mset (waiting f)" by (simp add: m)
  then show ti: "ti \<in> set (waiting f)" by (simp only: set_mset_mset)
  have ids: "mset (map ti_ID (waiting f)) = mset (map ti_ID (waiting ?f)) + {#ti_ID ti#}"
    using arg_cong [OF m, of "image_mset ti_ID"] by simp
  have t: "taskInstances s' = fmupd (ti_ID ti) (started w wk ti) (taskInstances (fl_store f))"
    using UpdateTaskInstance_Inr [OF u] by (simp add: started_def)
  have sub: "set (waiting ?f) \<subseteq> set (waiting f)"
    using m by (metis mset_subset_eq_add_left set_mset_mono set_mset_mset)
  have "distinct (map ti_ID (waiting ?f) @ [ti_ID ti])"
    using D(1) ids mset_eq_imp_distinct_iff [of "map ti_ID (waiting f)" "map ti_ID (waiting ?f) @ [ti_ID ti]"] by simp
  then have other: "ti_ID ti \<noteq> ti_ID a" if "a \<in> set (waiting ?f)" for a
    using imageI [OF that, of ti_ID] by auto
  have notbegun: "ti_ID ti \<notin> set (fl_begun f)" using D(1) ti by auto
  then have busy: "ti_ID ti \<noteq> ti_ID a" if "a \<in> set (fl_busy f)" for a using that F(7) by auto
  show "fleet_inv ?f"
    unfolding fleet_inv_def
  proof (intro conjI)
    show "mset (fl_handed ?f) = mset (map ti_ID (waiting ?f)) + mset (fl_begun ?f)" using F(1) ids by simp
    show "\<forall>i \<in> set (fl_handed ?f). \<exists>a. fmlookup (taskInstances (fl_store ?f)) i = Some a \<and> ti_Status a \<noteq> StatusPending"
      using F(3) by (simp add: t started_def)
    show "\<forall>a \<in> set (waiting ?f). fmlookup (taskInstances (fl_store ?f)) (ti_ID a) = Some a \<and> ti_Status a = StatusQueued"
      using F(4) sub other by (auto simp: t)
    show "\<forall>a \<in> set (fl_busy ?f). fmlookup (taskInstances (fl_store ?f)) (ti_ID a) = Some a \<and> ti_Status a = StatusRunning"
      using F(5) busy by (auto simp: t started_def)
    show "distinct (map ti_ID (fl_busy ?f))" using F(6) busy by (auto simp: started_def)
    show "ti_ID ` set (fl_busy ?f) \<subseteq> set (fl_begun ?f)" using F(7) by (auto simp: started_def)
  qed (use F(2) in simp)
qed

lemma finish_fleet_inv:
  assumes inv: "fleet_inv f" and ti: "ti \<in> set (fl_busy f)" "same_task ti' ti" "ti_Status ti' \<noteq> StatusPending"
    and u: "UpdateTaskInstance ti' (fl_store f) = Inr s'"
  shows "fleet_inv (f\<lparr>fl_store := s', fl_busy := remove1 ti (fl_busy f)\<rparr>)" (is "fleet_inv ?f")
proof -
  note F = fleet_invD [OF inv] and D = fleet_inv_distinct [OF inv]
  have t: "taskInstances s' = fmupd (ti_ID ti) ti' (taskInstances (fl_store f))"
    using UpdateTaskInstance_Inr [OF u] ti(2) by (simp add: same_task_def)
  have [simp]: "waiting ?f = waiting f" by (simp add: waiting_def)
  have "ti_ID ti \<in> set (fl_begun f)" using F(7) ti(1) by auto
  then have other: "ti_ID ti \<noteq> ti_ID a" if "a \<in> set (waiting f)" for a
    using imageI [OF that, of ti_ID] D(1) by auto
  have busy: "a \<in> set (fl_busy f)" "ti_ID ti \<noteq> ti_ID a" if "a \<in> set (remove1 ti (fl_busy f))" for a
  proof -
    have "a \<in> set (fl_busy f)" "a \<noteq> ti" using that F(6) by (auto simp: distinct_map)
    then show "a \<in> set (fl_busy f)" "ti_ID ti \<noteq> ti_ID a" using F(6) ti(1) by (auto simp: distinct_map dest: inj_onD)
  qed
  show ?thesis
    unfolding fleet_inv_def
  proof (intro conjI)
    show "\<forall>i \<in> set (fl_handed ?f). \<exists>a. fmlookup (taskInstances (fl_store ?f)) i = Some a \<and> ti_Status a \<noteq> StatusPending"
      using F(3) ti(3) by (simp add: t)
    show "\<forall>a \<in> set (waiting ?f). fmlookup (taskInstances (fl_store ?f)) (ti_ID a) = Some a \<and> ti_Status a = StatusQueued"
      using F(4) other by (simp add: t)
    show "\<forall>a \<in> set (fl_busy ?f). fmlookup (taskInstances (fl_store ?f)) (ti_ID a) = Some a \<and> ti_Status a = StatusRunning"
      using F(5) busy by (simp add: t)
    show "distinct (map ti_ID (fl_busy ?f))" using F(6) by (simp add: distinct_map distinct_remove1 inj_on_def set_remove1_eq)
    show "ti_ID ` set (fl_busy ?f) \<subseteq> set (fl_begun ?f)" using F(7) busy(1) by auto
    show "mset (fl_handed ?f) = mset (map ti_ID (waiting ?f)) + mset (fl_begun ?f)" using F(1) by simp
  qed (use F(2) in simp)
qed

text \<open>Every step is one step of the system or none, and keeps the invariant.\<close>

lemma fleet_step_ok:
  assumes "fleet_step plan f f'" "sys plan (fl_sched f, fl_store f)" "fleet_inv f"
  shows "sys plan (fl_sched f', fl_store f') \<and> fleet_inv f'"
proof -
  note sys = assms(2) and inv = assms(3)
  note S = sys_invariant [OF sys]
  show ?thesis
    using assms(1)
  proof (cases rule: fleet_step.cases)
    case (submits m d w params r sch' s')
    then have "sys_step plan (fl_sched f, fl_store f) (sch', s')" by (blast intro: sys_step.submit)
    moreover have "fleet_inv f'"
      unfolding submits(1) using submit_keeps [OF S submits(2,4-6)] by (intro fleet_inv_keeps [OF inv]) blast
    ultimately show ?thesis using sys submits(1) by (simp add: sys.step)
  next
    case (registers m d cron_add e sch' s')
    then have "sys_step plan (fl_sched f, fl_store f) (sch', s')" by (blast intro: sys_step.register)
    moreover have "fleet_inv f'"
      unfolding registers(1)
      using register_keeps(1) [OF registers(5) sys_invD(1) [OF S] registers(2)] by (intro fleet_inv_keeps [OF inv]) simp
    ultimately show ?thesis using sys registers(1) by (simp add: sys.step)
  next
    case (hands_out m w ready sch' s')
    then have "sys_step plan (fl_sched f, fl_store f) (sch', s')" by (blast intro: sys_step.schedule)
    then show ?thesis
      using sys hands_out schedule_fleet_inv [OF inv S hands_out(2-4)] by (simp add: sys.step)
  next
    case (dispatches ti rest p')
    then show ?thesis using sys dispatch_fleet_inv [OF inv dispatches(2,3)] by simp
  next
    case (begins i wk ti ch w s')
    note B = begin_fleet_inv [OF inv begins(2-5)]
    have "fmlookup (taskInstances (fl_store f)) (ti_ID (started w wk ti)) = Some ti \<and> ti_Status ti = StatusQueued"
      using fleet_invD(4) [OF inv B(2)] by (simp add: started_def)
    then have "sys_step plan (fl_sched f, fl_store f) (fl_sched f, s')"
      using begins(5) by (intro sys_step.work [of _ "started w wk ti" ti]) (simp_all add: started_def)
    then show ?thesis using sys B(1) begins(1) by (simp add: sys.step)
  next
    case (finishes ti ti' s')
    have "fmlookup (taskInstances (fl_store f)) (ti_ID ti') = Some ti \<and> ti_Status ti = StatusRunning"
      using fleet_invD(5) [OF inv finishes(2)] finishes(3) by (simp add: same_task_def)
    then have "sys_step plan (fl_sched f, fl_store f) (fl_sched f, s')"
      using finishes(3,5) by (intro sys_step.work [of _ ti' ti]) (simp_all add: same_task_def)
    then show ?thesis using sys finish_fleet_inv [OF inv finishes(2-5)] finishes(1) by (simp add: sys.step)
  qed
qed

lemma fleet_reach_ok: "fleet_reach plan f \<Longrightarrow> sys plan (fl_sched f, fl_store f) \<and> fleet_inv f"
proof (induction rule: fleet_reach.induct)
  case (start pool p)
  then show ?case by (simp add: new_fleet_def fleet_inv_def waiting_def sys.start)
next
  case (step f f')
  then show ?case using fleet_step_ok by blast
qed

section \<open>Executed once\<close>

text \<open>
  C11. However submissions, ticks, dispatches and the executions of all workers take turns: no instance is
  handed out twice, and none is executed twice. What was handed out waits to be dispatched, waits in
  one channel, or was begun: nothing is lost. While an instance is executed, every dependency of its task
  has succeeded in the same run.
\<close>

theorem executed_once:
  assumes "fleet_reach plan f"
  shows "distinct (fl_handed f) \<and> distinct (fl_begun f) \<and>
    mset (fl_handed f) = mset (map ti_ID (fl_ready f @ queued_in (fl_pool f))) + mset (fl_begun f) \<and>
    distinct (map ti_ID (fl_busy f)) \<and> ti_ID ` set (fl_busy f) \<subseteq> set (fl_begun f) \<and>
    (\<forall>ti \<in> set (fl_busy f). \<forall>r ts t. fmlookup (runs (fl_store f)) (ti_RunID ti) = Some r \<longrightarrow>
       plan (run_DAGID r) = Some ts \<longrightarrow> fmlookup ts (ti_TaskID ti) = Some t \<longrightarrow>
       (\<forall>dep \<in> set (Dependencies t). \<exists>a. fmlookup (taskInstances (fl_store f)) (ti_ID a) = Some a \<and>
          ti_RunID a = ti_RunID ti \<and> ti_TaskID a = dep \<and> ti_Status a = StatusSuccess))"
proof -
  have sys: "sys plan (fl_sched f, fl_store f)" and inv: "fleet_inv f" using fleet_reach_ok [OF assms] by simp_all
  have "deps_met (taskInstances (fl_store f)) (ti_RunID ti) t"
    if "ti \<in> set (fl_busy f)" "fmlookup (runs (fl_store f)) (ti_RunID ti) = Some r" "plan (run_DAGID r) = Some ts"
      "fmlookup ts (ti_TaskID ti) = Some t" for ti r ts t
    using deps_firstD [OF sys_invD(4) [OF sys_invariant [OF sys]] _ _ that(2-4), of "ti_ID ti"]
      fleet_invD(5) [OF inv that(1)] by simp
  then show ?thesis
    using fleet_invD [OF inv] fleet_inv_distinct(1) [OF inv] unfolding deps_met_def waiting_def by fastforce
qed

section \<open>An execution is two steps\<close>

definition never_pending :: "'x executor \<Rightarrow> bool" where
  "never_pending e \<longleftrightarrow> (\<forall>t p x r er y. ex_Execute e t p x = Ret ((Some r, er), y) \<longrightarrow> res_Status r \<noteq> StatusPending)"

lemma attempt_loop_writes:
  "attempt_loop oob w e t k st x = Ret (c, st', x') \<Longrightarrow> never_pending e \<Longrightarrow>
     (\<forall>r. ls_result st = Some r \<longrightarrow> res_Status r \<noteq> StatusPending) \<Longrightarrow>
     same_task (ls_ti st') (ls_ti st) \<and> ti_Status (ls_ti st') = ti_Status (ls_ti st) \<and>
     (\<forall>r. ls_result st' = Some r \<longrightarrow> res_Status r \<noteq> StatusPending)"
proof (induction "nat (max_attempts (RetryPolicy t) - int k)" arbitrary: k st x rule: less_induct)
  case less
  let ?stop = "max_attempts (RetryPolicy t) \<le> int k \<or>
    0 < k \<and> ew_done w k (retry_delay oob (ew_rand w k) (RetryPolicy t) (int k))"
  show ?case
  proof (cases ?stop)
    case True
    then show ?thesis using less.prems
      by (subst (asm) attempt_loop.simps) (auto simp: same_task_def split: if_splits)
  next
    case False
    obtain r er y where run: "ex_Execute e t fmempty x = Ret ((r, er), y)"
      using less.prems(1) False by (subst (asm) attempt_loop.simps) auto
    let ?ti = "if 0 < k then (ls_ti st)\<lparr>Attempt := int k + 1\<rparr> else ls_ti st"
    let ?st = "\<lparr>ls_ti = ?ti, ls_result = r, ls_err = er, ls_calls = ls_calls st + 1\<rparr>"
    have ok: "\<forall>q. ls_result ?st = Some q \<longrightarrow> res_Status q \<noteq> StatusPending"
      using run less.prems(2) by (simp add: never_pending_def) blast
    have goes_on: "attempt_loop oob w e t (k + 1) ?st y = Ret (c, st', x') \<or> (c, st', x') = (False, ?st, y)"
      using less.prems(1) False run
      by (subst (asm) attempt_loop.simps) (auto simp: Let_def split: option.splits if_splits)
    have smaller: "nat (max_attempts (RetryPolicy t) - int (k + 1)) < nat (max_attempts (RetryPolicy t) - int k)"
      using False by auto
    show ?thesis using goes_on less.hyps [OF smaller _ less.prems(2) ok, of y] ok by (auto simp: same_task_def)
  qed
qed

text \<open>
  The last write of an execution, on any store: an instance of the same task that is not pending, if the
  store takes it.
\<close>

definition last_write :: "'s store_ops \<Rightarrow> task_instance \<Rightarrow> 's \<Rightarrow> task_instance \<Rightarrow> 's \<Rightarrow> bool" where
  "last_write ops ti s ti' s' \<longleftrightarrow> same_task ti' ti \<and> ti_Status ti' \<noteq> StatusPending \<and>
     s' = (case op_UpdateTaskInstance ops ti' s of Inl er \<Rightarrow> s | Inr s2 \<Rightarrow> s2)"

lemma failTask_writes:
  "failTask ops w b msg s = (ti', s') \<Longrightarrow> same_task b ti \<Longrightarrow> last_write ops ti s ti' s'"
  by (auto simp: failTask_def Let_def same_task_def last_write_def)

lemma finish_writes:
  assumes "finish_task ops w ls wk s = Ret (ti', wk', s')" "same_task (ls_ti ls) ti"
    and "ti_Status (ls_ti ls) = StatusRunning" "\<And>r. ls_result ls = Some r \<Longrightarrow> res_Status r \<noteq> StatusPending"
  shows "last_write ops ti s ti' s'"
proof -
  have "ti_Status (final_instance w ls) \<noteq> StatusPending"
    using assms(3,4) by (auto simp: final_instance_def Let_def split: option.split)
  moreover have "ti' = final_instance w ls"
      "s' = (case op_UpdateTaskInstance ops (final_instance w ls) s of Inl er \<Rightarrow> s | Inr s2 \<Rightarrow> s2)"
    using assms(1) by (auto simp: finish_task_def Let_def split: if_splits)
  ultimately show ?thesis using assms(2) by (simp add: same_task_def last_write_def)
qed

lemma executeTask_writes:
  assumes run: "executeTask ops oob w ti (wk, s, x) = Ret (ti', wk', s', x')"
    and ok: "\<And>name e. Get name (wk_registry wk) = Inr e \<Longrightarrow> never_pending e"
  shows "case op_UpdateTaskInstance ops (started w wk ti) s of
      Inl er \<Rightarrow> ti' = started w wk ti \<and> s' = s
    | Inr s1 \<Rightarrow> last_write ops ti s1 ti' s'"
proof (cases "op_UpdateTaskInstance ops (started w wk ti) s")
  case (Inl er)
  then show ?thesis using run by (auto simp: executeTask_def Let_def simp flip: started_def)
next
  case (Inr s1)
  let ?b = "started w wk ti"
  let ?st = "\<lparr>ls_ti = ?b, ls_result = None, ls_err = None, ls_calls = 0\<rparr>"
  have same: "same_task ?b ti" by (simp add: same_task_def)
  have "last_write ops ti s1 ti' s'"
  proof (cases "\<exists>d t e. op_GetDAG ops (ti_DAGID ti) s1 = Inr d \<and> fmlookup (Tasks d) (ti_TaskID ti) = Some t \<and>
      Get (Executor t) (wk_registry wk) = Inr e")
    case False
    then obtain msg where "failTask ops w ?b msg s1 = (ti', s')"
      using run Inr
      by (auto simp: executeTask_def Let_def simp flip: started_def split: sum.splits option.splits prod.splits)
    then show ?thesis using same by (rule failTask_writes)
  next
    case True
    then obtain d t e where e: "op_GetDAG ops (ti_DAGID ti) s1 = Inr d" "fmlookup (Tasks d) (ti_TaskID ti) = Some t"
        "Get (Executor t) (wk_registry wk) = Inr e" by blast
    then obtain c ls y where loop: "attempt_loop oob w e t 0 ?st x = Ret (c, ls, y)"
      using run Inr by (auto simp: executeTask_def Let_def simp flip: started_def)
    have W: "same_task (ls_ti ls) ti" "ti_Status (ls_ti ls) = StatusRunning"
        "\<And>r. ls_result ls = Some r \<Longrightarrow> res_Status r \<noteq> StatusPending"
      using attempt_loop_writes [OF loop ok [OF e(3)]] by (simp_all add: same_task_def)
    from run Inr e loop consider "failTask ops w (ls_ti ls) ''context cancelled during retry'' s1 = (ti', s')"
      | wk1 where "finish_task ops w ls wk s1 = Ret (ti', wk1, s')"
      by (auto simp: executeTask_def Let_def simp flip: started_def split: prod.splits if_splits)
    then show ?thesis
    proof cases
      case 1
      then show ?thesis using W(1) by (rule failTask_writes)
    next
      case 2
      then show ?thesis using W by (rule finish_writes)
    qed
  qed
  then show ?thesis using Inr by simp
qed

text \<open>
  C21. When a worker of the pool takes an instance out of its channel and executes it with executors that
  never call a result pending, then the call of \<open>executeTask\<close> writes to the store as two steps of the fleet do,
  which start and finish this one instance: with no other step in between it leaves the same store.
\<close>

theorem execution_is_two_steps:
  assumes "fleet_reach plan f" and "i < length (workers (fl_pool f))"
    and "receive (wk_taskCh (workers (fl_pool f) ! i)) = Some (ti, ch)"
    and "\<forall>name e. Get name (wk_registry (workers (fl_pool f) ! i)) = Inr e \<longrightarrow> never_pending e"
    and "executeTask (memory_ops m) oob w ti ((workers (fl_pool f) ! i)\<lparr>wk_taskCh := ch\<rparr>, fl_store f, x) =
      Ret (ti', wk', s', x')"
  shows "\<exists>f1 f2. fleet_step plan f f1 \<and> fleet_step plan f1 f2 \<and> fl_begun f1 = fl_begun f @ [ti_ID ti] \<and>
    f2 = f\<lparr>fl_pool := with_chan i ch (fl_pool f), fl_store := s', fl_begun := fl_begun f @ [ti_ID ti]\<rparr> \<and>
    fmlookup (taskInstances s') (ti_ID ti) = Some ti'"
proof -
  let ?wk = "workers (fl_pool f) ! i"
  let ?b = "started w ?wk ti"
  have inv: "fleet_inv f" using fleet_reach_ok [OF assms(1)] by simp
  have b: "started w (?wk\<lparr>wk_taskCh := ch\<rparr>) ti = ?b" by (simp add: started_def)
  have "ti \<in> set (waiting f)"
  proof -
    have "mset (waiting f) = mset (fl_ready f @ queued_in (with_chan i ch (fl_pool f))) + {#ti#}"
      using receive_mset [OF assms(2,3)] by (simp add: waiting_def)
    then have "ti \<in># mset (waiting f)" by simp
    then show ?thesis by (simp only: set_mset_mset)
  qed
  then have here: "fmlookup (taskInstances (fl_store f)) (ti_ID ti) = Some ti" "ti_ID ti \<notin> set (fl_begun f)"
    using fleet_invD(4) [OF inv] fleet_inv_distinct(1) [OF inv] by auto
  obtain s1 where s1: "UpdateTaskInstance ?b (fl_store f) = Inr s1"
      "taskInstances s1 = fmupd (ti_ID ti) ?b (taskInstances (fl_store f))"
    using here(1) by (simp add: UpdateTaskInstance_def)
  then have fin: "same_task ti' ti" "ti_Status ti' \<noteq> StatusPending" "UpdateTaskInstance ti' s1 = Inr s'"
    using executeTask_writes [OF assms(5), unfolded b] assms(4)
    by (auto simp: memory_ops_def UpdateTaskInstance_def same_task_def last_write_def split: if_splits)
  let ?f1 = "f\<lparr>fl_pool := with_chan i ch (fl_pool f), fl_store := s1, fl_busy := fl_busy f @ [?b],
    fl_begun := fl_begun f @ [ti_ID ti]\<rparr>"
  have first: "fleet_step plan f ?f1" using assms(2) refl assms(3) s1(1) by (rule fleet_step.begins)
  have "?b \<notin> set (fl_busy f)" using fleet_invD(7) [OF inv] here(2) by force
  then have "fleet_step plan ?f1 (?f1\<lparr>fl_store := s', fl_busy := fl_busy f\<rparr>)"
    using fleet_step.finishes [of ?b ?f1 ti' s' plan] fin by (simp add: same_task_def remove1_append)
  moreover have "fmlookup (taskInstances s') (ti_ID ti) = Some ti'"
    using UpdateTaskInstance_Inr [OF fin(3)] fin(1) by (simp add: same_task_def)
  ultimately show ?thesis using first by (intro exI [of _ ?f1] exI conjI) (assumption | simp)+
qed

section \<open>Examples\<close>

text \<open>The first task of the chain is handed out and dispatched to a worker.\<close>

definition chain_ready :: "task_instance list" where
  "chain_ready = (case fst (Schedule (memory_ops plain_mem) plain_sched chain_state) of Inl _ \<Rightarrow> [] | Inr r \<Rightarrow> r)"

definition chain_fleet :: "nat fleet" where
  "chain_fleet = (new_fleet 0 (NewPool\<lparr>workers := [sample_worker]\<rparr>))
     \<lparr>fl_sched := fst a_queued, fl_store := snd a_queued, fl_handed := [''r1/a''],
      fl_pool := NewPool\<lparr>workers := [enqueued (hd chain_ready) sample_worker]\<rparr>\<rparr>"

lemma chain_fleet_reach: "fleet_reach chain_plan chain_fleet" "ti_ID (hd chain_ready) = ''r1/a''"
proof -
  let ?f = "new_fleet 0 (NewPool\<lparr>workers := [sample_worker]\<rparr>)"
  have "ch_buf (wk_taskCh sample_worker) = []"
    by (simp add: sample_worker_def New_def sample_config_def make_chan_def wrap64_def)
  then have r0: "fleet_reach chain_plan ?f" by (intro fleet_reach.start) (simp add: queued_in_def NewPool_def)
  have "dag_ID chain = ''demo''" by code_simp
  then have "fleet_step chain_plan ?f (?f\<lparr>fl_sched := fst chain_state, fl_store := snd chain_state\<rparr>)"
    by (intro fleet_step.submits [OF plain_mem_ok, where d = chain and w = chain_submit and params = fmempty and
          r = "fst (Submit (memory_ops plain_mem) chain_submit chain fmempty (NewFIFOScheduler 0, NewMemoryStore))"])
       (simp_all add: new_fleet_def chain_plan_def chain_fresh chain_state_def)
  then have r1: "fleet_reach chain_plan (?f\<lparr>fl_sched := fst chain_state, fl_store := snd chain_state\<rparr>)"
    using r0 by (rule fleet_reach.step [rotated])
  have ids: "map ti_ID chain_ready = [''r1/a''] \<and> is_ok (fst (Schedule (memory_ops plain_mem) plain_sched chain_state))"
    by code_simp
  then obtain r where ready: "chain_ready = [r]" "ti_ID r = ''r1/a''"
      "fst (Schedule (memory_ops plain_mem) plain_sched chain_state) = Inr [r]"
    by (auto simp: chain_ready_def split: sum.splits)
  then have "Schedule (memory_ops plain_mem) plain_sched (fst chain_state, snd chain_state) =
      (Inr [r], fst a_queued, snd a_queued)"
    by (simp add: a_queued_def prod_eq_iff)
  then have r2: "fleet_reach chain_plan (?f\<lparr>fl_sched := fst a_queued, fl_store := snd a_queued, fl_ready := [r],
      fl_handed := [''r1/a'']\<rparr>)"
    using fleet_reach.step [OF r1 fleet_step.hands_out [OF plain_mem_ok plain_sched_ok]] ready(2)
    by (simp add: new_fleet_def)
  have first: "hd chain_ready = r" using ready(1) by (metis list.sel(1))
  have "Dispatch r (NewPool\<lparr>workers := [sample_worker]\<rparr>) = (None, NewPool\<lparr>workers := [enqueued r sample_worker]\<rparr>)"
    using sample_worker_simps(3) by (simp add: Dispatch_def worker_Submit_cases)
  then show "fleet_reach chain_plan chain_fleet"
    using fleet_reach.step [OF r2 fleet_step.dispatches, of r "[]"] first by (simp add: new_fleet_def chain_fleet_def)
  show "ti_ID (hd chain_ready) = ''r1/a''" using ready(2) first by (simp only:)
qed

lemma chain_fleet_receive:
  "\<exists>ch. receive (wk_taskCh (workers (fl_pool chain_fleet) ! 0)) = Some (hd chain_ready, ch)"
  by (simp add: chain_fleet_def new_fleet_def NewPool_def enqueued_def receive_def sample_worker_def New_def
      sample_config_def make_chan_def wrap64_def)

lemma chain_fleet_pool:
  "length (workers (fl_pool chain_fleet)) = 1"
  "wk_registry (workers (fl_pool chain_fleet) ! 0) = Register flaky NewRegistry"
  by (simp_all add: chain_fleet_def NewPool_def enqueued_def sample_worker_simps)

text \<open>Its execution has begun.\<close>

lemma executed_once_witness:
  "\<exists>f :: nat fleet. fleet_reach chain_plan f \<and> map ti_ID (fl_busy f) = [''r1/a''] \<and>
     distinct (fl_begun f) \<and> mset (fl_handed f) = mset (map ti_ID (fl_ready f @ queued_in (fl_pool f))) + mset (fl_begun f)"
proof -
  obtain ch where r: "receive (wk_taskCh (workers (fl_pool chain_fleet) ! 0)) = Some (hd chain_ready, ch)"
    using chain_fleet_receive by blast
  have "fmlookup (taskInstances (fl_store chain_fleet)) ''r1/a'' \<noteq> None"
    unfolding chain_fleet_def by code_simp
  then obtain s' where u: "UpdateTaskInstance (started calm_world (workers (fl_pool chain_fleet) ! 0) (hd chain_ready))
      (fl_store chain_fleet) = Inr s'"
    by (simp add: UpdateTaskInstance_def chain_fleet_reach(2))
  let ?b = "started calm_world (workers (fl_pool chain_fleet) ! 0) (hd chain_ready)"
  let ?f = "chain_fleet\<lparr>fl_pool := with_chan 0 ch (fl_pool chain_fleet), fl_store := s', fl_busy := [?b],
    fl_begun := [''r1/a'']\<rparr>"
  have "fl_busy chain_fleet = []" "fl_begun chain_fleet = []" by (simp_all add: chain_fleet_def new_fleet_def)
  then have "fleet_reach chain_plan ?f"
    using fleet_reach.step [OF chain_fleet_reach(1) fleet_step.begins [OF _ refl r u]] chain_fleet_pool(1)
      chain_fleet_reach(2) by simp
  then show ?thesis using executed_once [of chain_plan ?f] chain_fleet_reach(2) by (intro exI [of _ ?f]) simp
qed

lemma execution_is_two_steps_witness:
  "\<exists>f1 f2 :: nat fleet. fleet_step chain_plan chain_fleet f1 \<and> fleet_step chain_plan f1 f2 \<and>
     fl_begun f2 = [''r1/a'']"
proof -
  obtain ch where r: "receive (wk_taskCh (workers (fl_pool chain_fleet) ! 0)) = Some (hd chain_ready, ch)"
    using chain_fleet_receive by blast
  have np: "\<forall>name e. Get name (wk_registry (workers (fl_pool chain_fleet) ! 0)) = Inr e \<longrightarrow> never_pending e"
    by (auto simp: chain_fleet_pool Get_def Register_def NewRegistry_def never_pending_def flaky_def
        split: option.splits if_splits)
  have "mem_inv plain_mem (fl_store chain_fleet)"
    using sys_invD(1) [OF sys_invariant [OF conjunct1 [OF fleet_reach_ok [OF chain_fleet_reach(1)]]]]
    by (simp add: mem_inv_def)
  moreover have "fmlookup (dags (fl_store chain_fleet)) (ti_DAGID (hd chain_ready)) = None \<and>
      fmlookup (taskInstances (fl_store chain_fleet)) (ti_ID (hd chain_ready)) \<noteq> None"
    unfolding chain_fleet_def by code_simp
  ultimately have "\<exists>ti' s'. executeTask (memory_ops plain_mem) (\<lambda>_. 0) calm_world (hd chain_ready)
      ((workers (fl_pool chain_fleet) ! 0)\<lparr>wk_taskCh := ch\<rparr>, fl_store chain_fleet, 0) =
      Ret (ti', (workers (fl_pool chain_fleet) ! 0)\<lparr>wk_taskCh := ch\<rparr>, s', 0)"
    using executeTask_rejects [of plain_mem "fl_store chain_fleet" "(workers (fl_pool chain_fleet) ! 0)\<lparr>wk_taskCh := ch\<rparr>"
        "hd chain_ready" "\<lambda>_. 0" calm_world 0]
    unfolding executor_of_def by (metis option.case(1))
  then obtain ti' wk' s' x' where "executeTask (memory_ops plain_mem) (\<lambda>_. 0) calm_world (hd chain_ready)
      ((workers (fl_pool chain_fleet) ! 0)\<lparr>wk_taskCh := ch\<rparr>, fl_store chain_fleet, 0) = Ret (ti', wk', s', x')"
    by blast
  from execution_is_two_steps [OF chain_fleet_reach(1) _ r np this]
  obtain f1 f2 where f: "fleet_step chain_plan chain_fleet f1" "fleet_step chain_plan f1 f2"
      "fl_begun f1 = fl_begun chain_fleet @ [ti_ID (hd chain_ready)]" "fl_begun f2 = fl_begun f1"
    using chain_fleet_pool(1) by fastforce
  moreover have "fl_begun f2 = [''r1/a'']"
    using f(3,4) chain_fleet_reach(2) by (simp add: chain_fleet_def new_fleet_def)
  ultimately show ?thesis by blast
qed

end
