(* ===== verification/Clients.thy ===== *)
theory Clients
  imports Exec_Hdfs
begin

text \<open>
  The clients \<^verbatim>\<open>internal/hadoop/client.go\<close> (WebHDFS and YARN) and \<^verbatim>\<open>internal/spark/client.go\<close> (Spark
  Connect, \<^verbatim>\<open>spark-submit\<close> and the status of an application), over the same environment as the
  executors. How the body of an answer is decoded is the argument \<open>cj\<close>.
\<close>

section \<open>One call\<close>

text \<open>
  A request is made and sent, and its answer checked. \<open>unmade\<close> is the error of a request that cannot
  be made, \<open>wrap\<close> the format for one without an answer, \<open>check\<close> the error of an answer, if it is one.
\<close>

definition client_call ::
  "'o exec_env \<Rightarrow> (err \<Rightarrow> err) \<Rightarrow> string \<Rightarrow> (http_response \<Rightarrow> err option) \<Rightarrow> http_request \<Rightarrow> 'o \<Rightarrow>
     (err + http_response) \<times> 'o" where
  "client_call en unmade wrap check req os =
     (case do_http en req os of
        (NoRequest e, os) \<Rightarrow> (Inl (unmade e), os)
      | (NoResponse e, os) \<Rightarrow> (Inl (Err wrap [FErr e]), os)
      | (Response resp, os) \<Rightarrow> (case check resp of Some e \<Rightarrow> Inl e | None \<Rightarrow> Inr resp, os))"

definition expect :: "string \<Rightarrow> int list \<Rightarrow> http_response \<Rightarrow> err option" where
  "expect what codes resp =
     (if rp_status resp \<in> set codes then None
      else Some (Err (what @ '' returned %d: %s'') [FInt (rp_status resp), FStr (rp_body resp)]))"

fun decoded :: "(http_response \<Rightarrow> err + 'a) \<Rightarrow> (err + http_response) \<times> 'o \<Rightarrow> (err + 'a) \<times> 'o" where
  "decoded f (Inl e, os) = (Inl e, os)"
| "decoded f (Inr resp, os) = (f resp, os)"

fun error_of :: "(err + 'a) \<times> 'o \<Rightarrow> err option \<times> 'o" where
  "error_of (Inl e, os) = (Some e, os)"
| "error_of (Inr a, os) = (None, os)"

section \<open>WebHDFS\<close>

record hdfs_client =
  hc_nameNodeURL :: string
  hc_user :: string

definition NewHDFSClient :: "string \<Rightarrow> string \<Rightarrow> hdfs_client" where
  "NewHDFSClient url user =
     \<lparr>hc_nameNodeURL = (if url = [] then ''http://localhost:9870'' else url),
      hc_user = (if user = [] then ''sparkflow'' else user)\<rparr>"

definition hdfs_url :: "hdfs_client \<Rightarrow> string \<Rightarrow> string \<Rightarrow> (string, string) fmap \<Rightarrow> string" where
  "hdfs_url c path opn extra =
     hc_nameNodeURL c @ ''/webhdfs/v1'' @ path @ ''?'' @
       query_string (fmadd (fmupd ''user.name'' (hc_user c) (fmupd ''op'' opn fmempty)) extra)"

record file_status =
  fs_Path :: string
  fs_Type :: string
  fs_Length :: int
  fs_Owner :: string
  fs_Group :: string
  fs_Permission :: string
  fs_Replication :: int
  fs_BlockSize :: int
  fs_ModificationTime :: int
  fs_AccessTime :: int

record yarn_application =
  app_ID :: string
  app_Name :: string
  app_State :: string
  app_FinalStatus :: string
  app_Progress :: f64
  app_TrackingURL :: string
  app_StartedTime :: int
  app_FinishedTime :: int
  app_ElapsedTime :: int
  app_Diagnostics :: string
  app_Queue :: string
  app_User :: string
  app_ApplicationType :: string

record cluster_info =
  ci_ID :: int
  ci_StartedOn :: int
  ci_State :: string
  ci_HAState :: string
  ci_Version :: string

record execution_result =
  er_Status :: string
  er_Data :: string
  er_Schema :: string
  er_Metrics :: "(string, gval) fmap"
  er_Error :: string

record spark_app_status =
  sa_AppID :: string
  sa_State :: string
  sa_Progress :: f64
  sa_TrackingURL :: string
  sa_StartTime :: time
  sa_EndTime :: time

record client_codec =
  cj_listing :: "http_response \<Rightarrow> err + file_status list"
  cj_file :: "http_response \<Rightarrow> err + file_status"
  cj_app :: "http_response \<Rightarrow> err + yarn_application"
  cj_apps :: "http_response \<Rightarrow> err + yarn_application list"
  cj_cluster :: "http_response \<Rightarrow> err + cluster_info"
  cj_execution :: "http_response \<Rightarrow> err + execution_result"
  cj_spark_app :: "http_response \<Rightarrow> err + spark_app_status"

definition ListStatus ::
  "'o exec_env \<Rightarrow> client_codec \<Rightarrow> hdfs_client \<Rightarrow> string \<Rightarrow> 'o \<Rightarrow> (err + file_status list) \<times> 'o" where
  "ListStatus en cj c path os =
     decoded (cj_listing cj) (client_call en id ''list status: %w'' (expect ''HDFS LISTSTATUS'' [200])
       (request_to ''GET'' (hdfs_url c path ''LISTSTATUS'' fmempty)) os)"

definition GetFileStatus ::
  "'o exec_env \<Rightarrow> client_codec \<Rightarrow> hdfs_client \<Rightarrow> string \<Rightarrow> 'o \<Rightarrow> (err + file_status) \<times> 'o" where
  "GetFileStatus en cj c path os =
     decoded (cj_file cj) (client_call en id ''get file status: %w'' (expect ''HDFS GETFILESTATUS'' [200])
       (request_to ''GET'' (hdfs_url c path ''GETFILESTATUS'' fmempty)) os)"

definition MkDirs :: "'o exec_env \<Rightarrow> hdfs_client \<Rightarrow> string \<Rightarrow> 'o \<Rightarrow> err option \<times> 'o" where
  "MkDirs en c path os =
     error_of (client_call en id ''mkdirs: %w'' (expect ''HDFS MKDIRS'' [200])
       (request_to ''PUT'' (hdfs_url c path ''MKDIRS'' fmempty)) os)"

definition bool_text :: "bool \<Rightarrow> string" where
  "bool_text b = (if b then ''true'' else ''false'')"

definition CreateFile :: "'o exec_env \<Rightarrow> hdfs_client \<Rightarrow> string \<Rightarrow> string \<Rightarrow> bool \<Rightarrow> 'o \<Rightarrow> err option \<times> 'o" where
  "CreateFile en c path data overwrite os =
     error_of (client_call en id ''create file: %w'' (expect ''HDFS CREATE'' [201, 200])
       \<lparr>hr_method = ''PUT'', hr_url = hdfs_url c path ''CREATE'' (fmupd ''overwrite'' (bool_text overwrite) fmempty),
        hr_headers = [(''Content-Type'', ''application/octet-stream'')], hr_body = data\<rparr> os)"

definition ReadFile :: "'o exec_env \<Rightarrow> hdfs_client \<Rightarrow> string \<Rightarrow> 'o \<Rightarrow> (string \<times> err option) \<times> 'o" where
  "ReadFile en c path os =
     (case client_call en id ''read file: %w'' (expect ''HDFS OPEN'' [200])
             (request_to ''GET'' (hdfs_url c path ''OPEN'' fmempty)) os of
        (Inl e, os) \<Rightarrow> (([], Some e), os)
      | (Inr resp, os) \<Rightarrow> ((rp_body resp, rp_err resp), os))"

definition Delete :: "'o exec_env \<Rightarrow> hdfs_client \<Rightarrow> string \<Rightarrow> bool \<Rightarrow> 'o \<Rightarrow> err option \<times> 'o" where
  "Delete en c path recursive os =
     error_of (client_call en id ''delete: %w'' (expect ''HDFS DELETE'' [200])
       (request_to ''DELETE'' (hdfs_url c path ''DELETE'' (fmupd ''recursive'' (bool_text recursive) fmempty))) os)"

definition Rename :: "'o exec_env \<Rightarrow> hdfs_client \<Rightarrow> string \<Rightarrow> string \<Rightarrow> 'o \<Rightarrow> err option \<times> 'o" where
  "Rename en c src dst os =
     error_of (client_call en id ''rename: %w'' (expect ''HDFS RENAME'' [200])
       (request_to ''PUT'' (hdfs_url c src ''RENAME'' (fmupd ''destination'' dst fmempty))) os)"

section \<open>YARN\<close>

definition NewYARNClient :: "string \<Rightarrow> string" where
  "NewYARNClient rm = (if rm = [] then ''http://localhost:8088'' else rm)"

definition accept_json :: "(string \<times> string) list" where
  "accept_json = [(''Accept'', ''application/json'')]"

definition get_json :: "string \<Rightarrow> http_request" where
  "get_json url = \<lparr>hr_method = ''GET'', hr_url = url, hr_headers = accept_json, hr_body = []\<rparr>"

definition GetApplication ::
  "'o exec_env \<Rightarrow> client_codec \<Rightarrow> string \<Rightarrow> string \<Rightarrow> 'o \<Rightarrow> (err + yarn_application) \<times> 'o" where
  "GetApplication en cj rm i os =
     decoded (cj_app cj) (client_call en id ''get application: %w'' (expect ''YARN'' [200])
       (get_json (rm @ ''/ws/v1/cluster/apps/'' @ i)) os)"

text \<open>The values of one key keep their order in the query.\<close>

definition states_query :: "string list \<Rightarrow> string" where
  "states_query states =
     (if 0 < length states then ''?'' @ join ''&'' (map (\<lambda>s. ''states='' @ query_escape s) states) else [])"

definition ListApplications ::
  "'o exec_env \<Rightarrow> client_codec \<Rightarrow> string \<Rightarrow> string list \<Rightarrow> 'o \<Rightarrow> (err + yarn_application list) \<times> 'o" where
  "ListApplications en cj rm states os =
     decoded (cj_apps cj) (client_call en id ''list applications: %w'' (expect ''YARN'' [200])
       (get_json (rm @ ''/ws/v1/cluster/apps'' @ states_query states)) os)"

definition below_400 :: "(http_response \<Rightarrow> err) \<Rightarrow> http_response \<Rightarrow> err option" where
  "below_400 e resp = (if 400 \<le> rp_status resp then Some (e resp) else None)"

definition KillApplication :: "'o exec_env \<Rightarrow> string \<Rightarrow> string \<Rightarrow> 'o \<Rightarrow> err option \<times> 'o" where
  "KillApplication en rm i os =
     error_of (client_call en id ''kill application: %w''
       (below_400 (\<lambda>resp. Err ''YARN kill returned %d: %s'' [FInt (rp_status resp), FStr (rp_body resp)]))
       \<lparr>hr_method = ''PUT'', hr_url = rm @ ''/ws/v1/cluster/apps/'' @ i @ ''/state'', hr_headers = content_json,
        hr_body = json_object [(''state'', json_string ''KILLED'')]\<rparr> os)"

text \<open>The status of this answer is not looked at.\<close>

definition GetClusterInfo :: "'o exec_env \<Rightarrow> client_codec \<Rightarrow> string \<Rightarrow> 'o \<Rightarrow> (err + cluster_info) \<times> 'o" where
  "GetClusterInfo en cj rm os =
     decoded (cj_cluster cj) (client_call en id ''get cluster info: %w'' (\<lambda>resp. None)
       (get_json (rm @ ''/ws/v1/cluster/info'')) os)"

section \<open>Spark Connect\<close>

record connect_config =
  cc_Host :: string
  cc_Port :: int
  cc_Token :: string
  cc_Cluster :: string

definition NewConnectClient :: "connect_config \<Rightarrow> connect_config" where
  "NewConnectClient cfg =
     (let cfg = (if cc_Host cfg = [] then cfg\<lparr>cc_Host := ''localhost''\<rparr> else cfg)
      in if cc_Port cfg = 0 then cfg\<lparr>cc_Port := 15002\<rparr> else cfg)"

record session =
  session_ID :: string
  session_client :: connect_config

definition connect_post :: "connect_config \<Rightarrow> string \<Rightarrow> (string \<times> string) list \<Rightarrow> http_request" where
  "connect_post cfg path kvs =
     \<lparr>hr_method = ''POST'',
      hr_url = ''http://'' @ cc_Host cfg @ '':'' @ int_dec (cc_Port cfg) @ path,
      hr_headers = content_json @
        (if cc_Token cfg \<noteq> [] then [(''Authorization'', ''Bearer '' @ cc_Token cfg)] else []),
      hr_body = json_object (map (\<lambda>(k, v). (k, json_string v)) kvs)\<rparr>"

definition CreateSession ::
  "'o exec_env \<Rightarrow> connect_config \<Rightarrow> string \<Rightarrow> 'o \<Rightarrow> (err + session) \<times> 'o" where
  "CreateSession en c i os =
     decoded (\<lambda>resp. Inr \<lparr>session_ID = i, session_client = c\<rparr>)
       (client_call en (\<lambda>e. Err ''create session request: %w'' [FErr e]) ''create session: %w''
         (below_400 (\<lambda>resp. Err ''create session failed with status %d'' [FInt (rp_status resp)]))
         (connect_post c ''/api/v1/sessions'' [(''session_id'', i)]) os)"

text \<open>Here, too, the status of the answer is not looked at.\<close>

definition ExecutePlan ::
  "'o exec_env \<Rightarrow> client_codec \<Rightarrow> session \<Rightarrow> string \<Rightarrow> 'o \<Rightarrow> (err + execution_result) \<times> 'o" where
  "ExecutePlan en cj s plan os =
     decoded (\<lambda>resp. case cj_execution cj resp of
                 Inl e \<Rightarrow> Inl (Err ''decode execution result: %w'' [FErr e]) | Inr r \<Rightarrow> Inr r)
       (client_call en (\<lambda>e. Err ''create execute request: %w'' [FErr e]) ''execute plan: %w'' (\<lambda>resp. None)
         (connect_post (session_client s) ''/api/v1/execute'' [(''plan'', plan), (''session_id'', session_ID s)]) os)"

definition GetApplicationStatus ::
  "'o exec_env \<Rightarrow> client_codec \<Rightarrow> string \<Rightarrow> string \<Rightarrow> 'o \<Rightarrow> (err + spark_app_status) \<times> 'o" where
  "GetApplicationStatus en cj ui i os =
     decoded (\<lambda>resp. case cj_spark_app cj resp of
                 Inl e \<Rightarrow> Inl (Err ''decode status: %w'' [FErr e]) | Inr r \<Rightarrow> Inr r)
       (client_call en (\<lambda>e. Err ''create status request: %w'' [FErr e]) ''get application status: %w'' (\<lambda>resp. None)
         (request_to ''GET'' (ui @ ''/api/v1/applications/'' @ i)) os)"

section \<open>spark-submit\<close>

record submit_config =
  sc_SparkHome :: string
  sc_Master :: string
  sc_DeployMode :: string
  sc_AppName :: string
  sc_Class :: string
  sc_Application :: string
  sc_DriverMemory :: string
  sc_ExecutorMemory :: string
  sc_ExecutorCores :: int
  sc_NumExecutors :: int
  sc_Packages :: "string list"
  sc_Jars :: "string list"
  sc_Files :: "string list"
  sc_SparkConf :: "(string, string) fmap"
  sc_AppArgs :: "string list"

record submit_result =
  sr_ExitCode :: int
  sr_Output :: string
  sr_Stderr :: string
  sr_ApplicationID :: string
  sr_Duration :: duration

definition text_flag :: "string \<Rightarrow> string \<Rightarrow> string list" where
  "text_flag flag v = (if v \<noteq> [] then [flag, v] else [])"

definition count_flag :: "string \<Rightarrow> int \<Rightarrow> string list" where
  "count_flag flag n = (if 0 < n then [flag, int_dec n] else [])"

definition strings_flag :: "string \<Rightarrow> string list \<Rightarrow> string list" where
  "strings_flag flag xs = (if 0 < length xs then [flag, join '','' xs] else [])"

text \<open>\<open>ord\<close> is the order in which the Spark settings are visited.\<close>

definition submit_args :: "string list \<Rightarrow> submit_config \<Rightarrow> string list" where
  "submit_args ord cfg =
     text_flag ''--master'' (sc_Master cfg) @ text_flag ''--deploy-mode'' (sc_DeployMode cfg) @
     text_flag ''--name'' (sc_AppName cfg) @ text_flag ''--class'' (sc_Class cfg) @
     text_flag ''--driver-memory'' (sc_DriverMemory cfg) @ text_flag ''--executor-memory'' (sc_ExecutorMemory cfg) @
     count_flag ''--executor-cores'' (sc_ExecutorCores cfg) @ count_flag ''--num-executors'' (sc_NumExecutors cfg) @
     strings_flag ''--packages'' (sc_Packages cfg) @ strings_flag ''--jars'' (sc_Jars cfg) @
     strings_flag ''--files'' (sc_Files cfg) @
     concat (map (\<lambda>k. case fmlookup (sc_SparkConf cfg) k of
                        None \<Rightarrow> [] | Some v \<Rightarrow> [''--conf'', k @ ''='' @ v]) ord) @
     (if sc_Application cfg \<noteq> [] then [sc_Application cfg] else []) @ sc_AppArgs cfg"

text \<open>The text from the first occurrence of a pattern on, and the ID of an application in an output.\<close>

fun from_first :: "string \<Rightarrow> string \<Rightarrow> string option" where
  "from_first p [] = (if p = [] then Some [] else None)"
| "from_first p (c # s) = (if take (length p) (c # s) = p then Some (c # s) else from_first p s)"

definition ends_id :: "char \<Rightarrow> bool" where
  "ends_id c \<longleftrightarrow> c = char_of (10 :: nat) \<or> c = CHR '' '' \<or> c = CHR '')''"

definition application_id :: "string \<Rightarrow> string" where
  "application_id out =
     (case from_first ''application_'' out of
        None \<Rightarrow> [] | Some s \<Rightarrow> takeWhile (\<lambda>c. \<not> ends_id c) s)"

definition spark_Submit ::
  "'o exec_env \<Rightarrow> string list \<Rightarrow> submit_config \<Rightarrow> 'o \<Rightarrow> (err + submit_result) \<times> 'o" where
  "spark_Submit en ord cfg os =
     (let cmd = \<lparr>cmd_Path = (if sc_SparkHome cfg \<noteq> [] then sc_SparkHome cfg @ ''/bin/spark-submit''
                             else ''spark-submit''),
                 cmd_Args = submit_args ord cfg, cmd_Dir = [],
                 cmd_Env = (if sc_SparkHome cfg \<noteq> [] then [''SPARK_HOME='' @ sc_SparkHome cfg] else []),
                 cmd_Timeout = None\<rparr>;
          start = en_now en os;
          (p, os) = en_run en cmd os;
          r = \<lparr>sr_ExitCode = 0, sr_Output = pr_stdout p, sr_Stderr = pr_stderr p, sr_ApplicationID = [],
               sr_Duration = time_Sub (en_now en os) start\<rparr>;
          found = (\<lambda>r. Inr (r\<lparr>sr_ApplicationID := application_id (sr_Output r @ sr_Stderr r)\<rparr>))
      in (case pr_err p of
            None \<Rightarrow> found r
          | Some (e, Some code) \<Rightarrow> found (r\<lparr>sr_ExitCode := code\<rparr>)
          | Some (e, None) \<Rightarrow> Inl (Err ''spark-submit: %w'' [FErr e]), os))"

section \<open>Two implementations of WebHDFS\<close>

text \<open>
  What the executor and the client do with an answer, side by side: the same request, the same state of
  the outside, and success in the same cases (the messages differ).
\<close>

definition same_service :: "hdfs_client \<Rightarrow> hdfs_config \<Rightarrow> bool" where
  "same_service c cfg \<longleftrightarrow> hc_nameNodeURL c = NameNodeURL cfg \<and> hc_user c = hdfs_User cfg"

lemma same_url: "same_service c cfg \<Longrightarrow> hdfs_url c path opn extra = webhdfsURL cfg path opn extra"
  by (simp add: same_service_def hdfs_url_def webhdfsURL_def)

lemma same_new: "same_service (NewHDFSClient url user) (NewHDFSExecutor \<lparr>NameNodeURL = url, hdfs_User = user\<rparr>)"
  by (simp add: same_service_def NewHDFSClient_def NewHDFSExecutor_def Let_def)

lemma calls_agree:
  "(\<exists>e e' os'. client_call en unmade wrap (expect what codes) req os = (Inl e, os') \<and>
      hdfs_call en what' codes req os = (Inl e', os')) \<or>
   (\<exists>resp os'. client_call en unmade wrap (expect what codes) req os = (Inr resp, os') \<and>
      hdfs_call en what' codes req os = (Inr resp, os'))"
  by (simp add: client_call_def hdfs_call_def expect_def split: prod.split http_outcome.split)

definition agree :: "err option \<times> 'o \<Rightarrow> (string \<times> err option) \<times> 'o \<Rightarrow> bool" where
  "agree r r' \<longleftrightarrow> snd r = snd r' \<and> (fst r = None \<longleftrightarrow> snd (fst r') = None)"

lemma agree_calls: "agree (error_of (client_call en unmade wrap (expect what codes) req os))
    (only_error (hdfs_call en what' codes req os))"
  using calls_agree [of en unmade wrap what codes req os what'] by (auto simp: agree_def)

text \<open>
  The WebHDFS client and the HDFS executor, set up with the same arguments, are the same service
  twice: making a directory, creating with overwriting, deleting, renaming and reading send the same
  request, leave the outside in the same state and succeed in the same cases; a file that is read has
  the same content.
\<close>

theorem hdfs_client_agrees:
  assumes "c = NewHDFSClient url user" and "cfg = NewHDFSExecutor \<lparr>NameNodeURL = url, hdfs_User = user\<rparr>"
  shows "agree (MkDirs en c path os) (mkdirs en cfg path os) \<and>
    agree (CreateFile en c path (put_content en t) True os) (putFile en cfg path t os) \<and>
    agree (Delete en c path (recursive_of t = ''true'') os) (deleteFile en cfg path t os) \<and>
    agree (Rename en c path dest os) (rename en cfg path dest os) \<and>
    snd (ReadFile en c path os) = snd (getFile en cfg path os) \<and>
    fst (fst (ReadFile en c path os)) = fst (fst (getFile en cfg path os)) \<and>
    (snd (fst (ReadFile en c path os)) = None \<longleftrightarrow> snd (fst (getFile en cfg path os)) = None)"
proof -
  have s: "same_service c cfg" unfolding assms by (rule same_new)
  have flag: "bool_text (recursive_of t = ''true'') = recursive_of t"
    by (simp add: bool_text_def recursive_of_def)
  show ?thesis
    using calls_agree [of en id "''read file: %w''" "''HDFS OPEN''" "[200]"
        "request_to ''GET'' (webhdfsURL cfg path ''OPEN'' fmempty)" os "''GET''"]
    by (auto simp: MkDirs_def mkdirs_def CreateFile_def putFile_def Delete_def deleteFile_def Rename_def
        rename_def ReadFile_def getFile_def same_url [OF s] flag bool_text_def [of True] intro: agree_calls)
qed

text \<open>
  Three calls do not look at the status: an answer that says the request failed counts as a success if
  its body decodes.
\<close>

lemma unchecked_status:
  assumes "en_url_ok en (ui @ ''/api/v1/applications/'' @ i) = None"
    and "en_http en (request_to ''GET'' (ui @ ''/api/v1/applications/'' @ i)) os = (Inr resp, os')"
    and "rp_status resp = 500" and "cj_spark_app cj resp = Inr st"
  shows "GetApplicationStatus en cj ui i os = (Inr st, os')"
  using assms by (simp add: GetApplicationStatus_def client_call_def do_http_def request_to_def)

text \<open>A directory made through both, over an outside that answers everything with 200.\<close>

lemma hdfs_client_agrees_witness:
  "\<exists>en :: nat exec_env. MkDirs en (NewHDFSClient '''' '''') ''/a'' 0 = (None, 1) \<and>
     mkdirs en (NewHDFSExecutor \<lparr>NameNodeURL = '''', hdfs_User = ''''\<rparr>) ''/a'' 0 = (([], None), 1)"
proof -
  let ?en = "\<lparr>en_now = int, en_run = (\<lambda>c os. (\<lparr>pr_stdout = '''', pr_stderr = '''', pr_err = None\<rparr>, os)),
      en_started = (\<lambda>c os. False), en_kill = (\<lambda>c os. (None, os)),
      en_http = (\<lambda>q os. (Inr \<lparr>rp_status = 200, rp_body = '''', rp_err = None\<rparr>, os + 1)),
      en_url_ok = (\<lambda>u. None), en_done = (\<lambda>t os. None), en_sleep = (\<lambda>d os. os),
      en_order = sorted_keys, en_float = (\<lambda>x. '''')\<rparr> :: nat exec_env"
  have "mkdirs ?en (NewHDFSExecutor \<lparr>NameNodeURL = '''', hdfs_User = ''''\<rparr>) ''/a'' 0 = (([], None), 1)"
    by (simp add: mkdirs_def hdfs_call_def do_http_def)
  then show ?thesis
    using hdfs_client_agrees [OF refl refl, where en = ?en and path = "''/a''" and url = "''''" and user = "''''"
        and os = 0, THEN conjunct1]
    by (intro exI [of _ ?en]) (simp add: agree_def prod_eq_iff)
qed

end
