(* ===== verification/Consensus.thy ===== *)
theory Consensus
  imports Prelude
begin

text \<open>
  \<^verbatim>\<open>pkg/consensus/raft.go\<close>: the replicated key-value state machine and the node around it. The Raft
  library, the JSON codec, files and the network are arguments: \<open>'d\<close> is the type of encoded data
  (log entries and snapshots), \<open>'r\<close> the state of the library.
\<close>

section \<open>Commands and the state machine\<close>

record peer_config =
  peer_ID :: string
  peer_Addr :: string

record raft_config =
  NodeID :: string
  BindAddr :: string
  DataDir :: string
  Bootstrap :: bool
  Peers :: "peer_config list"

record raft_command =
  c_Type :: string
  c_Key :: string
  c_Value :: string

text \<open>The map of the state machine, which is nil (\<open>None\<close>) if a snapshot said \<^verbatim>\<open>null\<close>.\<close>

record fsm =
  fsm_state :: "(string, string) fmap option"

definition NewFSM :: fsm where
  "NewFSM = \<lparr>fsm_state = Some fmempty\<rparr>"

text \<open>
  \<^verbatim>\<open>encoding/json\<close> on commands and states. \<open>rc_utf8\<close> is valid UTF-8: other strings are not written
  as they are.
\<close>

record 'd raft_codec =
  rc_utf8 :: "string \<Rightarrow> bool"
  rc_marshal :: "raft_command \<Rightarrow> err + 'd"
  rc_unmarshal :: "'d \<Rightarrow> err + raft_command"
  rc_marshal_state :: "(string, string) fmap option \<Rightarrow> err + 'd"
  rc_decode_state :: "'d \<Rightarrow> err + (string, string) fmap option"

text \<open>Storing into a nil map panics; deleting from one does nothing.\<close>

definition fsm_Apply :: "'d raft_codec \<Rightarrow> 'd \<Rightarrow> fsm \<Rightarrow> (err option \<times> fsm) outcome" where
  "fsm_Apply cd entry f =
     (case rc_unmarshal cd entry of
        Inl e \<Rightarrow> Ret (Some (Err ''unmarshal command: %w'' [FErr e]), f)
      | Inr cmd \<Rightarrow>
          if c_Type cmd = ''set''
          then (case fsm_state f of
                  None \<Rightarrow> Panic
                | Some m \<Rightarrow> Ret (None, f\<lparr>fsm_state := Some (fmupd (c_Key cmd) (c_Value cmd) m)\<rparr>))
          else if c_Type cmd = ''delete''
          then Ret (None, f\<lparr>fsm_state := map_option (fmdrop (c_Key cmd)) (fsm_state f)\<rparr>)
          else Ret (Some (Err ''unknown command type: %s'' [FStr (c_Type cmd)]), f))"

text \<open>\<open>ord\<close> is the order in which the map is copied; the copy of a nil map is empty.\<close>

definition fsm_Snapshot :: "string list \<Rightarrow> fsm \<Rightarrow> (string, string) fmap" where
  "fsm_Snapshot ord f =
     fold (\<lambda>k m. case fsm_state f of
                   None \<Rightarrow> m
                 | Some st \<Rightarrow> (case fmlookup st k of None \<Rightarrow> m | Some v \<Rightarrow> fmupd k v m)) ord fmempty"

definition fsm_Restore :: "'d raft_codec \<Rightarrow> 'd \<Rightarrow> fsm \<Rightarrow> err option \<times> fsm" where
  "fsm_Restore cd rc f =
     (case rc_decode_state cd rc of
        Inl e \<Rightarrow> (Some (Err ''decode snapshot: %w'' [FErr e]), f)
      | Inr st \<Rightarrow> (None, f\<lparr>fsm_state := st\<rparr>))"

definition fsm_Get :: "string \<Rightarrow> fsm \<Rightarrow> string \<times> bool" where
  "fsm_Get k f =
     (case fsm_state f of
        None \<Rightarrow> ([], False)
      | Some m \<Rightarrow> (case fmlookup m k of None \<Rightarrow> ([], False) | Some v \<Rightarrow> (v, True)))"

text \<open>What becomes of the sink of a snapshot, given what its \<^verbatim>\<open>Write\<close> and \<^verbatim>\<open>Close\<close> answer.\<close>

datatype 'd sink = SinkOpen | SinkCancelled | SinkClosed 'd

definition Persist ::
  "'d raft_codec \<Rightarrow> err option \<Rightarrow> err option \<Rightarrow> (string, string) fmap \<Rightarrow> err option \<times> 'd sink" where
  "Persist cd write close st =
     (case rc_marshal_state cd (Some st) of
        Inl e \<Rightarrow> (Some e, SinkCancelled)
      | Inr data \<Rightarrow>
          (case write of
             Some e \<Rightarrow> (Some e, SinkCancelled)
           | None \<Rightarrow> (close, if close = None then SinkClosed data else SinkOpen)))"

definition Release :: "(string, string) fmap \<Rightarrow> (string, string) fmap" where
  "Release st = st"

section \<open>The node\<close>

record ('d, 'r) raft =
  rf_leader :: "'r \<Rightarrow> bool"
  rf_leader_addr :: "'r \<Rightarrow> string"
  rf_apply :: "'d \<Rightarrow> duration \<Rightarrow> 'r \<Rightarrow> err option \<times> 'r"
  rf_add_voter :: "string \<Rightarrow> string \<Rightarrow> duration \<Rightarrow> 'r \<Rightarrow> err option \<times> 'r"
  rf_remove_server :: "string \<Rightarrow> duration \<Rightarrow> 'r \<Rightarrow> err option \<times> 'r"
  rf_shutdown :: "'r \<Rightarrow> err option \<times> 'r"
  rf_stats :: "'r \<Rightarrow> (string, string) fmap"

definition IsLeader :: "('d, 'r) raft \<Rightarrow> 'r \<Rightarrow> bool" where
  "IsLeader rf r = rf_leader rf r"

definition LeaderAddr :: "('d, 'r) raft \<Rightarrow> 'r \<Rightarrow> string" where
  "LeaderAddr rf r = rf_leader_addr rf r"

text \<open>The answer of the state machine (\<^verbatim>\<open>f.Response()\<close>) is not looked at.\<close>

definition node_Apply ::
  "'d raft_codec \<Rightarrow> ('d, 'r) raft \<Rightarrow> raft_command \<Rightarrow> duration \<Rightarrow> 'r \<Rightarrow> err option \<times> 'r" where
  "node_Apply cd rf cmd timeout r =
     (if \<not> IsLeader rf r
      then (Some (Err ''not the leader; leader is at %s'' [FStr (LeaderAddr rf r)]), r)
      else case rc_marshal cd cmd of
             Inl e \<Rightarrow> (Some (Err ''marshal command: %w'' [FErr e]), r)
           | Inr data \<Rightarrow>
               (case rf_apply rf data timeout r of
                  (Some e, r) \<Rightarrow> (Some (Err ''apply command: %w'' [FErr e]), r)
                | (None, r) \<Rightarrow> (None, r)))"

definition node_Get :: "string \<Rightarrow> fsm \<Rightarrow> string \<times> bool" where
  "node_Get k f = fsm_Get k f"

definition AddPeer :: "('d, 'r) raft \<Rightarrow> string \<Rightarrow> string \<Rightarrow> 'r \<Rightarrow> err option \<times> 'r" where
  "AddPeer rf i addr r =
     (if \<not> IsLeader rf r then (Some (Err ''not the leader'' []), r)
      else rf_add_voter rf i addr (10 * 1000000000) r)"

definition RemovePeer :: "('d, 'r) raft \<Rightarrow> string \<Rightarrow> 'r \<Rightarrow> err option \<times> 'r" where
  "RemovePeer rf i r =
     (if \<not> IsLeader rf r then (Some (Err ''not the leader'' []), r)
      else rf_remove_server rf i (10 * 1000000000) r)"

definition node_Shutdown :: "('d, 'r) raft \<Rightarrow> 'r \<Rightarrow> err option \<times> 'r" where
  "node_Shutdown rf r = rf_shutdown rf r"

definition Stats :: "('d, 'r) raft \<Rightarrow> 'r \<Rightarrow> (string, string) fmap" where
  "Stats rf r = rf_stats rf r"

text \<open>
  \<open>NewNode\<close>: the steps of the set-up and their errors, the first of which ends it. The outcome is the
  state machine and the servers the cluster was bootstrapped with, if it was; the error of bootstrapping
  is ignored.
\<close>

record node_setup =
  ns_resolve :: "string \<Rightarrow> err option"
  ns_transport :: "string \<Rightarrow> err option"
  ns_mkdir :: "string \<Rightarrow> err option"
  ns_join :: "string \<Rightarrow> string \<Rightarrow> string"
  ns_bolt :: "string \<Rightarrow> err option"
  ns_snapshots :: "string \<Rightarrow> err option"
  ns_raft :: "string \<Rightarrow> err option"

fun first_error :: "(string \<times> err option) list \<Rightarrow> err option" where
  "first_error [] = None"
| "first_error ((fmt, None) # es) = first_error es"
| "first_error ((fmt, Some e) # es) = Some (Err fmt [FErr e])"

definition servers_of :: "raft_config \<Rightarrow> (string \<times> string) list" where
  "servers_of cfg = (NodeID cfg, BindAddr cfg) # map (\<lambda>p. (peer_ID p, peer_Addr p)) (Peers cfg)"

definition NewNode :: "node_setup \<Rightarrow> raft_config \<Rightarrow> err + (fsm \<times> (string \<times> string) list option)" where
  "NewNode ns cfg =
     (case first_error
        [(''resolve bind addr: %w'', ns_resolve ns (BindAddr cfg)),
         (''create TCP transport: %w'', ns_transport ns (BindAddr cfg)),
         (''create data dir: %w'', ns_mkdir ns (DataDir cfg)),
         (''create log store: %w'', ns_bolt ns (ns_join ns (DataDir cfg) ''raft-log.db'')),
         (''create stable store: %w'', ns_bolt ns (ns_join ns (DataDir cfg) ''raft-stable.db'')),
         (''create snapshot store: %w'', ns_snapshots ns (DataDir cfg)),
         (''create raft: %w'', ns_raft ns (NodeID cfg))] of
        Some e \<Rightarrow> Inl e
      | None \<Rightarrow> Inr (NewFSM, if Bootstrap cfg then Some (servers_of cfg) else None))"

section \<open>Replaying a log\<close>

fun replay :: "'d raft_codec \<Rightarrow> 'd list \<Rightarrow> fsm \<Rightarrow> fsm outcome" where
  "replay cd [] f = Ret f"
| "replay cd (e # es) f = bind_outcome (fsm_Apply cd e f) (\<lambda>(er, f). replay cd es f)"

lemma replay_append: "replay cd (xs @ ys) f = bind_outcome (replay cd xs f) (replay cd ys)"
proof (induction xs arbitrary: f)
  case (Cons x xs)
  then show ?case by (cases "fsm_Apply cd x f") (auto split: prod.splits)
qed simp

text \<open>What the code relies on: JSON round trips on valid UTF-8, and decoding gives nothing else.\<close>

definition codec_ok :: "'d raft_codec \<Rightarrow> bool" where
  "codec_ok cd \<longleftrightarrow>
     (\<forall>c. rc_utf8 cd (c_Type c) \<and> rc_utf8 cd (c_Key c) \<longrightarrow>
          (\<exists>d. rc_marshal cd c = Inr d \<and> rc_unmarshal cd d = Inr c)) \<and>
     (\<forall>d c. rc_unmarshal cd d = Inr c \<longrightarrow> rc_utf8 cd (c_Type c) \<and> rc_utf8 cd (c_Key c)) \<and>
     (\<forall>m. (\<forall>k \<in> fmdom' m. rc_utf8 cd k) \<longrightarrow>
          (\<exists>d. rc_marshal_state cd (Some m) = Inr d \<and> rc_decode_state cd d = Inr (Some m)))"

definition fsm_ok :: "'d raft_codec \<Rightarrow> fsm \<Rightarrow> bool" where
  "fsm_ok cd f \<longleftrightarrow> (\<exists>m. fsm_state f = Some m \<and> (\<forall>k \<in> fmdom' m. rc_utf8 cd k))"

lemma fsm_ok_New [simp, intro]: "fsm_ok cd NewFSM"
  by (simp add: fsm_ok_def NewFSM_def)

lemma fsm_Apply_ok:
  assumes "codec_ok cd" "fsm_ok cd f"
  shows "\<exists>e f'. fsm_Apply cd d f = Ret (e, f') \<and> fsm_ok cd f'"
proof (cases "rc_unmarshal cd d")
  case (Inl e)
  then show ?thesis using assms(2) by (simp add: fsm_Apply_def)
next
  case (Inr c)
  then have "rc_utf8 cd (c_Key c)" using assms(1) by (auto simp: codec_ok_def)
  then show ?thesis using Inr assms(2) by (auto simp: fsm_Apply_def fsm_ok_def)
qed

lemma replay_ok: "codec_ok cd \<Longrightarrow> fsm_ok cd f \<Longrightarrow> \<exists>f'. replay cd es f = Ret f' \<and> fsm_ok cd f'"
proof (induction es arbitrary: f)
  case (Cons e es)
  then show ?case using fsm_Apply_ok [of cd f e] by fastforce
qed simp

section \<open>The last write\<close>

definition touches :: "'d raft_codec \<Rightarrow> string \<Rightarrow> 'd \<Rightarrow> bool" where
  "touches cd k d \<longleftrightarrow>
     (case rc_unmarshal cd d of Inl e \<Rightarrow> False | Inr c \<Rightarrow> c_Key c = k \<and> c_Type c \<in> {''set'', ''delete''})"

definition written :: "'d raft_codec \<Rightarrow> 'd list \<Rightarrow> string \<Rightarrow> string \<times> bool" where
  "written cd es k =
     (case rev (filter (touches cd k) es) of
        [] \<Rightarrow> ([], False)
      | d # ds \<Rightarrow>
          (case rc_unmarshal cd d of
             Inr c \<Rightarrow> if c_Type c = ''set'' then (c_Value c, True) else ([], False)
           | Inl e \<Rightarrow> ([], False)))"

lemma replay_spec:
  "\<exists>f. replay cd es NewFSM = Ret f \<and> fsm_state f \<noteq> None \<and> (\<forall>k. node_Get k f = written cd es k)"
proof (induction es rule: rev_induct)
  case Nil
  show ?case by (simp add: NewFSM_def node_Get_def fsm_Get_def written_def)
next
  case (snoc d es)
  then obtain f m where f: "replay cd es NewFSM = Ret f" "fsm_state f = Some m"
    "\<forall>k. node_Get k f = written cd es k" by blast
  show ?case
  proof (cases "rc_unmarshal cd d")
    case (Inl e)
    then show ?thesis using f by (simp add: replay_append fsm_Apply_def written_def touches_def)
  next
    case (Inr c)
    then show ?thesis using f
      by (auto simp: replay_append fsm_Apply_def written_def touches_def node_Get_def fsm_Get_def)
  qed
qed

text \<open>
  Replaying any log, also one with entries that do not decode and commands of unknown types,
  never panics, and then \<open>Get\<close> of a key gives the value of the last command on that key if it was
  a set, and nothing if it was a delete or if there was none.
\<close>

theorem replay_last_write:
  "\<exists>f. replay cd es NewFSM = Ret f \<and> fsm_state f \<noteq> None \<and> (\<forall>k. node_Get k f = written cd es k)"
  by (rule replay_spec)

section \<open>Snapshots\<close>

lemma snapshot_copy:
  assumes "fsm_state f = Some m" "ranges ord m"
  shows "fsm_Snapshot ord f = m"
proof -
  let ?step = "\<lambda>k acc. case fmlookup m k of None \<Rightarrow> acc | Some v \<Rightarrow> fmupd k v acc"
  have "fmlookup (fold ?step ks acc) k = (if k \<in> set ks \<and> fmlookup m k \<noteq> None then fmlookup m k else fmlookup acc k)"
    for ks acc k
    by (induction ks arbitrary: acc) (auto split: option.splits)
  then show ?thesis using assms
    by (intro fmap_ext) (auto simp: fsm_Snapshot_def ranges_def fmlookup_dom'_iff)
qed

definition visits :: "string list \<Rightarrow> fsm \<Rightarrow> bool" where
  "visits ord f \<longleftrightarrow> (case fsm_state f of None \<Rightarrow> True | Some m \<Rightarrow> ranges ord m)"

lemma persist_restore:
  assumes "codec_ok cd" "fsm_ok cd f" "visits ord f" "Persist cd w c (fsm_Snapshot ord f) = (e, SinkClosed d)"
  shows "fsm_Restore cd d g = (None, f)"
proof -
  obtain m where m: "fsm_state f = Some m" "\<forall>k \<in> fmdom' m. rc_utf8 cd k"
    using assms(2) by (auto simp: fsm_ok_def)
  then have "fsm_Snapshot ord f = m" using assms(3) snapshot_copy by (simp add: visits_def)
  moreover obtain d' where "rc_marshal_state cd (Some m) = Inr d'" "rc_decode_state cd d' = Inr (Some m)"
    using assms(1) m(2) unfolding codec_ok_def by blast
  ultimately have "rc_decode_state cd d = Inr (Some m)"
    using assms(4) by (simp add: Persist_def split: option.splits if_splits)
  then show ?thesis using m(1) by (simp add: fsm_Restore_def fsm.equality)
qed

text \<open>
  C23. A snapshot of a state machine that has applied the entries \<open>xs\<close>, written without an error and
  restored into any other one, is that state machine again: whatever follows in the log, going on
  from the snapshot gives what replaying the whole log gives.
\<close>

theorem snapshot_roundtrip:
  assumes "codec_ok cd" and "replay cd xs NewFSM = Ret f" and "visits ord f"
  shows "\<exists>d. Persist cd None None (fsm_Snapshot ord f) = (None, SinkClosed d) \<and>
    (\<forall>g. fsm_Restore cd d g = (None, f) \<and>
         (\<forall>ys. replay cd ys (snd (fsm_Restore cd d g)) = replay cd (xs @ ys) NewFSM))"
proof -
  have ok: "fsm_ok cd f" using replay_ok [OF assms(1) fsm_ok_New, of xs] assms(2) by auto
  then obtain m where m: "fsm_state f = Some m" "\<forall>k \<in> fmdom' m. rc_utf8 cd k"
    by (auto simp: fsm_ok_def)
  then have "fsm_Snapshot ord f = m" using assms(3) snapshot_copy by (simp add: visits_def)
  moreover obtain d where "rc_marshal_state cd (Some m) = Inr d"
    using assms(1) m(2) unfolding codec_ok_def by blast
  ultimately have p: "Persist cd None None (fsm_Snapshot ord f) = (None, SinkClosed d)"
    by (simp add: Persist_def)
  then show ?thesis using persist_restore [OF assms(1) ok assms(3) p] assms(2) by (simp add: replay_append)
qed

section \<open>A cluster\<close>

text \<open>
  The log the library has committed, and for each node its state machine and how many entries it has
  been given; the snapshots that were written, each with the length of the log they stand for.
\<close>

record 'd cluster =
  cl_log :: "'d list"
  cl_fsm :: "nat \<Rightarrow> fsm"
  cl_index :: "nat \<Rightarrow> nat"
  cl_snaps :: "(nat \<times> 'd) list"

text \<open>
  The library over its committed log: \<^verbatim>\<open>Apply\<close> without an error has appended the entry; with one it may
  have.
\<close>

definition appends :: "('d, 'd list) raft \<Rightarrow> bool" where
  "appends rf \<longleftrightarrow>
     (\<forall>d tm l. snd (rf_apply rf d tm l) = l @ [d] \<or> snd (rf_apply rf d tm l) = l \<and> fst (rf_apply rf d tm l) \<noteq> None)"

inductive cluster_reach :: "'d raft_codec \<Rightarrow> 'd cluster \<Rightarrow> bool" for cd :: "'d raft_codec" where
  start: "cluster_reach cd \<lparr>cl_log = [], cl_fsm = (\<lambda>n. NewFSM), cl_index = (\<lambda>n. 0), cl_snaps = []\<rparr>"
| submit: "cluster_reach cd c \<Longrightarrow> appends rf \<Longrightarrow> node_Apply cd rf cmd tm (cl_log c) = (e, l) \<Longrightarrow>
    cluster_reach cd (c\<lparr>cl_log := l\<rparr>)"
| deliver: "cluster_reach cd c \<Longrightarrow> cl_index c n < length (cl_log c) \<Longrightarrow>
    fsm_Apply cd (cl_log c ! cl_index c n) (cl_fsm c n) = Ret (e, f) \<Longrightarrow>
    cluster_reach cd (c\<lparr>cl_fsm := (cl_fsm c)(n := f), cl_index := (cl_index c)(n := cl_index c n + 1)\<rparr>)"
| snapshot: "cluster_reach cd c \<Longrightarrow> visits ord (cl_fsm c n) \<Longrightarrow>
    Persist cd wr cl (fsm_Snapshot ord (cl_fsm c n)) = (e, SinkClosed d) \<Longrightarrow>
    cluster_reach cd (c\<lparr>cl_snaps := (cl_index c n, d) # cl_snaps c\<rparr>)"
| restore: "cluster_reach cd c \<Longrightarrow> (i, d) \<in> set (cl_snaps c) \<Longrightarrow> fsm_Restore cd d (cl_fsm c n) = (None, f) \<Longrightarrow>
    cluster_reach cd (c\<lparr>cl_fsm := (cl_fsm c)(n := f), cl_index := (cl_index c)(n := i)\<rparr>)"
| restart: "cluster_reach cd c \<Longrightarrow>
    cluster_reach cd (c\<lparr>cl_fsm := (cl_fsm c)(n := NewFSM), cl_index := (cl_index c)(n := 0)\<rparr>)"

text \<open>Each state machine is the replay of a prefix of the log, and each snapshot stands for one.\<close>

definition replica :: "'d raft_codec \<Rightarrow> 'd list \<Rightarrow> nat \<Rightarrow> fsm \<Rightarrow> bool" where
  "replica cd l i f \<longleftrightarrow> i \<le> length l \<and> replay cd (take i l) NewFSM = Ret f"

definition cluster_inv :: "'d raft_codec \<Rightarrow> 'd cluster \<Rightarrow> bool" where
  "cluster_inv cd c \<longleftrightarrow> (\<forall>n. replica cd (cl_log c) (cl_index c n) (cl_fsm c n)) \<and>
     (\<forall>(i, d) \<in> set (cl_snaps c). \<exists>f. replica cd (cl_log c) i f \<and> (\<forall>g. fsm_Restore cd d g = (None, f)))"

lemma replica_grows: "replica cd l i f \<Longrightarrow> replica cd (l @ l') i f"
  by (simp add: replica_def)

lemma replica_next:
  "replica cd l i f \<Longrightarrow> i < length l \<Longrightarrow> fsm_Apply cd (l ! i) f = Ret (e, f') \<Longrightarrow> replica cd l (i + 1) f'"
  by (simp add: replica_def take_Suc_conv_app_nth replay_append)

lemma node_Apply_log:
  "appends rf \<Longrightarrow> node_Apply cd rf cmd tm l = (e, l') \<Longrightarrow> l' = l \<or> (\<exists>d. l' = l @ [d])"
proof -
  assume rf: "appends rf" and run: "node_Apply cd rf cmd tm l = (e, l')"
  show ?thesis
  proof (cases "l' = l")
    case False
    then obtain d where "l' = snd (rf_apply rf d tm l)"
      using run by (auto simp: node_Apply_def split: if_splits sum.splits prod.splits option.splits) (metis snd_conv)+
    then show ?thesis using rf False unfolding appends_def by metis
  qed simp
qed

lemma cluster_reach_inv: "cluster_reach cd c \<Longrightarrow> codec_ok cd \<Longrightarrow> cluster_inv cd c"
proof (induction rule: cluster_reach.induct)
  case start
  show ?case by (simp add: cluster_inv_def replica_def)
next
  case (submit c rf cmd tm e l)
  then obtain es where l: "l = cl_log c @ es" using node_Apply_log [of rf] by blast
  then show ?case using submit.IH [OF submit.prems] unfolding cluster_inv_def
    by (fastforce intro: replica_grows)
next
  case (deliver c n e f)
  then have "replica cd (cl_log c) (cl_index c n) (cl_fsm c n)" by (simp add: cluster_inv_def)
  then have "replica cd (cl_log c) (cl_index c n + 1) f" using deliver.hyps(2,3) by (rule replica_next)
  then show ?case using deliver.IH [OF deliver.prems] by (simp add: cluster_inv_def)
next
  case (snapshot c ord n wr cl e d)
  have r: "replica cd (cl_log c) (cl_index c n) (cl_fsm c n)"
    using snapshot.IH snapshot.prems by (simp add: cluster_inv_def)
  then have "fsm_ok cd (cl_fsm c n)"
    using replay_ok [OF snapshot.prems fsm_ok_New, of "take (cl_index c n) (cl_log c)"] by (auto simp: replica_def)
  then have "fsm_Restore cd d g = (None, cl_fsm c n)" for g
    using persist_restore [OF snapshot.prems] snapshot.hyps by blast
  then show ?case using snapshot.IH snapshot.prems r by (auto simp: cluster_inv_def)
next
  case (restore c i d n f)
  then obtain f' where "replica cd (cl_log c) i f'" "fsm_Restore cd d (cl_fsm c n) = (None, f')"
    by (fastforce simp: cluster_inv_def)
  then show ?case using restore by (auto simp: cluster_inv_def)
next
  case (restart c n)
  then show ?case by (auto simp: cluster_inv_def replica_def)
qed

text \<open>
  C7. However the nodes of a cluster submit commands, receive entries of the log, take and install
  snapshots and restart: the state of every node is the replay of the prefix of the log that it has
  been given, so that two nodes that are equally far give the same answer to every \<open>Get\<close>, the one
  that the last command on the key in that prefix wrote; and the next entry never crashes a node.
\<close>

theorem replicas_agree:
  assumes "codec_ok cd" and "cluster_reach cd c"
  shows "(\<forall>n k. node_Get k (cl_fsm c n) = written cd (take (cl_index c n) (cl_log c)) k) \<and>
    (\<forall>n n'. cl_index c n = cl_index c n' \<longrightarrow> cl_fsm c n = cl_fsm c n') \<and>
    (\<forall>n d. fsm_Apply cd d (cl_fsm c n) \<noteq> Panic)"
proof -
  have r: "replay cd (take (cl_index c n) (cl_log c)) NewFSM = Ret (cl_fsm c n)" for n
    using cluster_reach_inv [OF assms(2,1)] by (simp add: cluster_inv_def replica_def)
  have "fsm_ok cd (cl_fsm c n)" for n
    using replay_ok [OF assms(1) fsm_ok_New, of "take (cl_index c n) (cl_log c)"] r [of n] by auto
  then have "fsm_Apply cd d (cl_fsm c n) \<noteq> Panic" for n d
    using fsm_Apply_ok [OF assms(1), of "cl_fsm c n" d] by auto
  then show ?thesis using r replay_spec [of cd] by (metis outcome.inject)
qed

section \<open>What the client of a node is told\<close>

text \<open>
  \<^verbatim>\<open>Apply\<close> on the leader answers nil for a command of an unknown type once it is in the log, although
  every state machine refuses it: the error of the state machine is dropped.
\<close>

lemma node_Apply_hides_refusal:
  assumes "codec_ok cd" and "appends rf" and "rf_leader rf l" and "\<forall>d. fst (rf_apply rf d tm l) = None"
    and "rc_utf8 cd (c_Type cmd)" and "rc_utf8 cd (c_Key cmd)" and "c_Type cmd \<notin> {''set'', ''delete''}"
  shows "\<exists>d. node_Apply cd rf cmd tm l = (None, l @ [d]) \<and>
    fsm_Apply cd d f = Ret (Some (Err ''unknown command type: %s'' [FStr (c_Type cmd)]), f)"
proof -
  obtain d where d: "rc_marshal cd cmd = Inr d" "rc_unmarshal cd d = Inr cmd"
    using assms(1,5,6) unfolding codec_ok_def by blast
  have "rf_apply rf d tm l = (None, l @ [d])"
    using assms(2,4) unfolding appends_def by (metis prod.collapse)
  then show ?thesis using d assms(3,7) by (auto simp: node_Apply_def IsLeader_def fsm_Apply_def)
qed

section \<open>A concrete cluster\<close>

text \<open>Commands and states as they are, and a library that always appends.\<close>

definition plain_codec :: "(raft_command + (string, string) fmap option) raft_codec" where
  "plain_codec =
     \<lparr>rc_utf8 = (\<lambda>s. True), rc_marshal = (\<lambda>c. Inr (Inl c)),
      rc_unmarshal = (\<lambda>d. case d of Inl c \<Rightarrow> Inr c | Inr m \<Rightarrow> Inl (Err ''no command'' [])),
      rc_marshal_state = (\<lambda>m. Inr (Inr m)),
      rc_decode_state = (\<lambda>d. case d of Inr m \<Rightarrow> Inr m | Inl c \<Rightarrow> Inl (Err ''no state'' []))\<rparr>"

lemma plain_codec_ok: "codec_ok plain_codec"
  by (simp add: codec_ok_def plain_codec_def)

definition plain_raft :: "('d, 'd list) raft" where
  "plain_raft =
     \<lparr>rf_leader = (\<lambda>l. True), rf_leader_addr = (\<lambda>l. ''''), rf_apply = (\<lambda>d tm l. (None, l @ [d])),
      rf_add_voter = (\<lambda>i a tm l. (None, l)), rf_remove_server = (\<lambda>i tm l. (None, l)),
      rf_shutdown = (\<lambda>l. (None, l)), rf_stats = (\<lambda>l. fmempty)\<rparr>"

definition set_cmd :: "string \<Rightarrow> string \<Rightarrow> raft_command" where
  "set_cmd k v = \<lparr>c_Type = ''set'', c_Key = k, c_Value = v\<rparr>"

lemma snapshot_roundtrip_witness:
  "\<exists>d. Persist plain_codec None None
        (fsm_Snapshot [''k''] \<lparr>fsm_state = Some (fmupd ''k'' ''v'' fmempty)\<rparr>) = (None, SinkClosed d) \<and>
     fsm_Restore plain_codec d NewFSM = (None, \<lparr>fsm_state = Some (fmupd ''k'' ''v'' fmempty)\<rparr>)"
proof -
  have "replay plain_codec [Inl (set_cmd ''k'' ''v'')] NewFSM = Ret \<lparr>fsm_state = Some (fmupd ''k'' ''v'' fmempty)\<rparr>"
    by (simp add: fsm_Apply_def plain_codec_def set_cmd_def NewFSM_def)
  moreover have "visits [''k''] \<lparr>fsm_state = Some (fmupd ''k'' ''v'' fmempty)\<rparr>"
    by (simp add: visits_def ranges_def)
  ultimately show ?thesis using snapshot_roundtrip [OF plain_codec_ok] by blast
qed

text \<open>A command is submitted and delivered to node 1 of the cluster only.\<close>

lemma replicas_agree_witness:
  "\<exists>c. cluster_reach plain_codec c \<and> length (cl_log c) = 1 \<and> node_Get ''k'' (cl_fsm c 1) = (''v'', True) \<and>
     node_Get ''k'' (cl_fsm c 0) = ('''', False)"
proof -
  let ?d = "Inl (set_cmd ''k'' ''v'') :: raft_command + (string, string) fmap option"
  let ?start = "\<lparr>cl_log = [], cl_fsm = (\<lambda>n. NewFSM), cl_index = (\<lambda>n. 0), cl_snaps = []\<rparr> ::
    (raft_command + (string, string) fmap option) cluster"
  let ?f = "\<lparr>fsm_state = Some (fmupd ''k'' ''v'' fmempty)\<rparr>"
  let ?logged = "?start\<lparr>cl_log := [?d]\<rparr>"
  let ?given = "?logged\<lparr>cl_fsm := (cl_fsm ?logged)(1 := ?f), cl_index := (cl_index ?logged)(1 := cl_index ?logged 1 + 1)\<rparr>"
  have "node_Apply plain_codec plain_raft (set_cmd ''k'' ''v'') 0 (cl_log ?start) = (None, [?d])"
    by (simp add: node_Apply_def plain_codec_def plain_raft_def IsLeader_def)
  then have "cluster_reach plain_codec ?logged"
    by (rule cluster_reach.submit [OF cluster_reach.start, rotated]) (simp add: appends_def plain_raft_def)
  moreover have "fsm_Apply plain_codec (cl_log ?logged ! cl_index ?logged 1) (cl_fsm ?logged 1) = Ret (None, ?f)"
    by (simp add: fsm_Apply_def plain_codec_def set_cmd_def NewFSM_def)
  ultimately have reach: "cluster_reach plain_codec ?given"
    by (intro cluster_reach.deliver [where e = None]) simp_all
  have "node_Get ''k'' (cl_fsm ?given 1) = (''v'', True) \<and> node_Get ''k'' (cl_fsm ?given 0) = ('''', False)"
    using replicas_agree [OF plain_codec_ok reach, THEN conjunct1, THEN spec, THEN spec, of "''k''" 1]
      replicas_agree [OF plain_codec_ok reach, THEN conjunct1, THEN spec, THEN spec, of "''k''" 0]
    by (simp add: written_def touches_def plain_codec_def set_cmd_def)
  then show ?thesis using reach by (intro exI [of _ ?given]) simp
qed

end
