(* ===== verification/Exec_Contract.thy ===== *)
theory Exec_Contract
  imports Exec_Docker Worker
begin

text \<open>
  The contract of the interface \<^verbatim>\<open>Executor\<close> as a locale, its consequences for the retry loop of a
  worker, and the proofs that all six built-in executors keep it.
\<close>

section \<open>The contract\<close>

text \<open>
  What a caller of \<open>Execute\<close> gets: a result that has ended, with an error exactly if it is not a
  success, or an error and no result.
\<close>

fun concluded :: "exec_result option \<times> err option \<Rightarrow> bool" where
  "concluded (Some r, None) \<longleftrightarrow> IsTerminal (res_Status r) \<and> (res_Status r = StatusSuccess \<longleftrightarrow> res_Error r = None)"
| "concluded (None, Some e) \<longleftrightarrow> True"
| "concluded _ \<longleftrightarrow> False"

text \<open>A table after the execution of the task \<open>i\<close>: as before, or without \<open>i\<close>.\<close>

definition forgets :: "string \<Rightarrow> (string, 'v) fmap \<Rightarrow> (string, 'v) fmap \<Rightarrow> bool" where
  "forgets i tab tab' \<longleftrightarrow> tab' = tab \<or> tab' = fmdrop i tab"

definition settled :: "string \<Rightarrow> 'o machine \<Rightarrow> 'o machine \<Rightarrow> bool" where
  "settled i m m' \<longleftrightarrow> forgets i (m_shell m) (m_shell m') \<and> forgets i (m_python m) (m_python m') \<and>
     forgets i (m_spark m) (m_spark m') \<and> forgets i (m_docker m) (m_docker m')"

lemma fmdrop_again [simp]: "fmdrop i (fmdrop i m) = fmdrop i m" "fmdrop i (fmupd i v m) = fmdrop i m"
  by (rule fmap_ext, simp)+

lemma forgets_refl [simp, intro]: "forgets i tab tab" "forgets i tab (fmdrop i tab)"
  by (simp_all add: forgets_def)

lemma forgets_trans: "forgets i a b \<Longrightarrow> forgets i b c \<Longrightarrow> forgets i a c"
  by (auto simp: forgets_def)

lemma forgets_lookup:
  "forgets i a b \<Longrightarrow> j \<noteq> i \<Longrightarrow> fmlookup b j = fmlookup a j"
  "forgets i a b \<Longrightarrow> fmlookup a i = None \<Longrightarrow> b = a"
  by (auto simp: forgets_def intro!: fmap_ext)

lemma settled_refl [simp, intro]: "settled i m m" "settled i m (m\<lparr>m_os := os\<rparr>)"
  by (simp_all add: settled_def)

lemma settled_trans: "settled i a b \<Longrightarrow> settled i b c \<Longrightarrow> settled i a c"
  by (auto simp: settled_def intro: forgets_trans)

locale task_executor =
  fixes e :: "'o machine executor"
  assumes rejects: "ex_Validate e t = Some er \<Longrightarrow> ex_Execute e t p m = Ret ((None, Some er), m)"
    and concludes: "ex_Execute e t p m = Ret (x, m') \<Longrightarrow> concluded x"
    and settles: "ex_Execute e t p m = Ret (x, m') \<Longrightarrow> settled (task_ID t) m m'"
begin

text \<open>An executor that always returns is one that \<open>executeTask\<close> can rely on.\<close>

lemma returns_iff: "returns e t \<longleftrightarrow> (\<forall>m. \<exists>x m'. ex_Execute e t fmempty m = Ret (x, m'))"
proof
  assume *: "\<forall>m. \<exists>x m'. ex_Execute e t fmempty m = Ret (x, m')"
  show "returns e t" unfolding returns_def
  proof
    fix m
    obtain x m' where x: "ex_Execute e t fmempty m = Ret (x, m')" using * by blast
    then have "x \<noteq> (None, None)" using concludes [OF x] by auto
    then show "\<exists>r y. ex_Execute e t fmempty m = Ret (r, y) \<and> r \<noteq> (None, None)" using x by blast
  qed
qed (unfold returns_def, blast)

text \<open>The retry loop: what it leaves in its variables and in the tables.\<close>

lemma attempt_loop_settles:
  "attempt_loop oob w e t k st m = Ret (c, st', m') \<Longrightarrow>
     settled (task_ID t) m m' \<and> ti_ID (ls_ti st') = ti_ID (ls_ti st) \<and>
     (concluded (ls_result st', ls_err st') \<or>
      st' = st \<and> (c \<or> max_attempts (RetryPolicy t) \<le> int k))"
proof (induction "nat (max_attempts (RetryPolicy t) - int k)" arbitrary: k st m rule: less_induct)
  case less
  let ?over = "max_attempts (RetryPolicy t) \<le> int k"
  let ?cancelled = "0 < k \<and> ew_done w k (retry_delay oob (ew_rand w k) (RetryPolicy t) (int k))"
  let ?ti = "if 0 < k then (ls_ti st)\<lparr>Attempt := int k + 1\<rparr> else ls_ti st"
  show ?case
  proof (cases "?over \<or> ?cancelled")
    case True
    then show ?thesis using less.prems
      by (subst (asm) attempt_loop.simps) (auto split: if_splits)
  next
    case False
    obtain r er y where run: "ex_Execute e t fmempty m = Ret ((r, er), y)"
      using less.prems False by (subst (asm) attempt_loop.simps) auto
    let ?st = "\<lparr>ls_ti = ?ti, ls_result = r, ls_err = er, ls_calls = ls_calls st + 1\<rparr>"
    have ok: "concluded (r, er)" "settled (task_ID t) m y" using concludes [OF run] settles [OF run] .
    have goes_on: "attempt_loop oob w e t (k + 1) ?st y = Ret (c, st', m') \<or> (c, st', m') = (False, ?st, y)"
      using less.prems False run ok(1)
      by (subst (asm) attempt_loop.simps) (auto simp: Let_def split: option.splits if_splits)
    have smaller: "nat (max_attempts (RetryPolicy t) - int (k + 1)) < nat (max_attempts (RetryPolicy t) - int k)"
      using False by auto
    show ?thesis using goes_on less.hyps [OF smaller, of ?st y] ok settled_trans [OF ok(2), of m']
      by auto
  qed
qed

end

section \<open>The built-in executors\<close>

lemma concluded_new [simp]: "res_Error (new_result now) = None" "res_Status (new_result now) = StatusRunning"
  by (simp_all add: new_result_def)

lemma concluded_process [simp]:
  "IsTerminal (res_Status (process_result en start p m))"
  "res_Status (process_result en start p m) = StatusSuccess \<longleftrightarrow> res_Error (process_result en start p m) = None"
  by (simp_all add: process_result_def Let_def split: option.splits prod.splits)

lemma concluded_fail [simp]:
  "res_Status (fail_result r er stop) = StatusFailed" "res_Error (fail_result r er stop) = Some er"
  by (simp_all add: fail_result_def)

lemma concluded_note [simp]:
  "res_Status (note_app_id r) = res_Status r" "res_Error (note_app_id r) = res_Error r"
  by (simp_all add: note_app_id_def)

lemma bind_outcome_RetE:
  "bind_outcome x f = Ret b \<Longrightarrow> (\<And>a. x = Ret a \<Longrightarrow> f a = Ret b \<Longrightarrow> P) \<Longrightarrow> P"
  by auto

text \<open>A process is tracked while it runs and forgotten afterwards.\<close>

lemma run_tracked_settled:
  "run_tracked en m_shell_update t cmd m = (p, m') \<Longrightarrow> settled (task_ID t) m m'"
  "run_tracked en m_python_update t cmd m = (p, m') \<Longrightarrow> settled (task_ID t) m m'"
  "run_tracked en m_spark_update t cmd m = (p, m') \<Longrightarrow> settled (task_ID t) m m'"
  by (auto simp: run_tracked_def settled_def Let_def split: prod.splits)

interpretation shell: task_executor "ShellExecutor en" for en :: "'o exec_env"
proof unfold_locales
  fix t p m x m'
  assume "ex_Execute (ShellExecutor en) t p m = Ret (x, m')"
  then show "concluded x" "settled (task_ID t) m m'"
    by (auto simp: ShellExecutor_def shell_Execute_def Let_def simp del: bind_outcome_Ret elim!: bind_outcome_RetE split: option.splits prod.split_asm
             dest: run_tracked_settled)
qed (simp add: ShellExecutor_def shell_Execute_def)

interpretation python: task_executor "PythonExecutor en cfg" for en :: "'o exec_env" and cfg
proof unfold_locales
  fix t p m x m'
  assume "ex_Execute (PythonExecutor en cfg) t p m = Ret (x, m')"
  then show "concluded x" "settled (task_ID t) m m'"
    by (auto simp: PythonExecutor_def python_Execute_def Let_def simp del: bind_outcome_Ret elim!: bind_outcome_RetE split: option.splits prod.split_asm
             dest: run_tracked_settled)
qed (simp add: PythonExecutor_def python_Execute_def)

lemma executeSubmit_contract:
  "executeSubmit en cfg t p m = Ret (x, m') \<Longrightarrow> concluded x \<and> settled (task_ID t) m m'"
  by (auto simp: executeSubmit_def Let_def simp del: bind_outcome_Ret elim!: bind_outcome_RetE split: prod.split_asm dest: run_tracked_settled)

lemma executeConnect_contract:
  "executeConnect en cfg t p m = (x, m') \<Longrightarrow> concluded x \<and> settled (task_ID t) m m'"
  by (auto simp: executeConnect_def Let_def split: option.splits gval.splits prod.splits http_outcome.splits if_splits)

interpretation spark: task_executor "SparkExecutor en cfg" for en :: "'o exec_env" and cfg
proof unfold_locales
  fix t p m x m'
  assume "ex_Execute (SparkExecutor en cfg) t p m = Ret (x, m')"
  then show "concluded x" "settled (task_ID t) m m'"
    by (auto simp: SparkExecutor_def spark_Execute_def simp del: bind_outcome_Ret elim!: bind_outcome_RetE split: option.splits if_splits
             dest: executeSubmit_contract executeConnect_contract)
qed (simp add: SparkExecutor_def spark_Execute_def)

lemma concluded_yarn:
  "yarn_outcome i st stop r = Some r' \<Longrightarrow> res_Error r = None \<Longrightarrow> concluded (Some r', None)"
  by (auto simp: yarn_outcome_def set_metric_def Let_def split: if_splits)

lemma set_metric_simps [simp]:
  "res_Error (set_metric k x r) = res_Error r" "res_Status (set_metric k x r) = res_Status r"
  "res_StartTime (set_metric k x r) = res_StartTime r" "res_ExitCode (set_metric k x r) = res_ExitCode r"
  by (simp_all add: set_metric_def)

lemma poll_concluded:
  "poll en js cfg fuel t i r os = Ret (r', os') \<Longrightarrow> res_Error r = None \<Longrightarrow> concluded (Some r', None)"
proof (induction fuel arbitrary: r os)
  case (Suc fuel)
  then show ?case
    by (auto simp: Let_def dest!: concluded_yarn split: option.split_asm prod.split_asm sum.split_asm)
qed simp

interpretation hadoop: task_executor "HadoopExecutor en js fuel cfg" for en :: "'o exec_env" and js fuel cfg
proof unfold_locales
  fix t p m x m'
  assume "ex_Execute (HadoopExecutor en js fuel cfg) t p m = Ret (x, m')"
  then show "concluded x" "settled (task_ID t) m m'"
    by (auto simp: HadoopExecutor_def hadoop_Execute_def Let_def simp del: bind_outcome_Ret elim!: bind_outcome_RetE dest!: poll_concluded
             split: option.split_asm prod.split_asm sum.split_asm)
qed (simp add: HadoopExecutor_def hadoop_Execute_def)

interpretation hdfs: task_executor "HDFSExecutor en js cfg" for en :: "'o exec_env" and js cfg
proof unfold_locales
  fix t p m x m'
  assume "ex_Execute (HDFSExecutor en js cfg) t p m = Ret (x, m')"
  then show "concluded x" "settled (task_ID t) m m'"
    by (auto simp: HDFSExecutor_def hdfs_Execute_def Let_def simp del: bind_outcome_Ret elim!: bind_outcome_RetE
             split: option.split_asm prod.split_asm option.split)
qed (simp add: HDFSExecutor_def hdfs_Execute_def)

lemma run_container_concluded:
  "run_container en dk cid r os = (x, os') \<Longrightarrow> res_Error r = None \<Longrightarrow> concluded x"
  by (auto simp: run_container_def collect_def Let_def
           split: option.split_asm prod.split_asm wait_result.split_asm sum.splits if_splits)

lemma clean_up_settled: "settled (task_ID t) m (clean_up dk t cid (m\<lparr>m_docker := fmupd (task_ID t) c (m_docker m), m_os := os\<rparr>))"
  by (simp add: clean_up_def settled_def Let_def)

interpretation docker: task_executor "DockerExecutor en dk cfg" for en :: "'o exec_env" and dk cfg
proof unfold_locales
  fix t p m x m'
  assume "ex_Execute (DockerExecutor en dk cfg) t p m = Ret (x, m')"
  then show "concluded x" "settled (task_ID t) m m'"
    by (auto simp: DockerExecutor_def docker_Execute_def Let_def simp: clean_up_settled simp del: bind_outcome_Ret elim!: bind_outcome_RetE dest!: run_container_concluded
             split: option.split_asm prod.split_asm sum.split_asm)
qed (simp add: DockerExecutor_def docker_Execute_def)

section \<open>The registry\<close>

lemma Get_NewRegistry: "Get ty NewRegistry \<noteq> Inr e"
  by (simp add: Get_def NewRegistry_def)

lemma ex_Type_builtin [simp]:
  "ex_Type (ShellExecutor en) = ''shell''" "ex_Type (PythonExecutor en pc) = ''python''"
  "ex_Type (DockerExecutor en dk dc) = ''docker''" "ex_Type (SparkExecutor en sc) = ''spark''"
  "ex_Type (HadoopExecutor en js fuel hc) = ''hadoop''" "ex_Type (HDFSExecutor en js fc) = ''hdfs''"
  by (simp_all add: ShellExecutor_def PythonExecutor_def DockerExecutor_def SparkExecutor_def
      HadoopExecutor_def HDFSExecutor_def)

lemma builtin_cases:
  assumes "Get ty (DefaultRegistry en dk js fuel) = Inr e"
  shows "ex_Type e = ty \<and> task_executor e"
  using assms unfolding DefaultRegistry_def Let_def
  by (auto simp: go_simps Get_NewRegistry intro: shell.task_executor_axioms python.task_executor_axioms
      docker.task_executor_axioms spark.task_executor_axioms hadoop.task_executor_axioms hdfs.task_executor_axioms
      split: if_splits)

text \<open>
  C9. Every executor of the default registry, whatever the processes, services and clocks around it do:
  it is filed under its own type; a task that its \<open>Validate\<close> refuses is refused by \<open>Execute\<close> with
  the same error and nothing is run; an \<open>Execute\<close> that returns gives either an error and no result
  or a result with a final status that has an error exactly if it is not a success; and the tables of
  running commands and containers are as before, except that the task is no longer in one.
\<close>

theorem builtin_executors_contract:
  assumes "Get ty (DefaultRegistry en dk js fuel) = Inr e"
  shows "ex_Type e = ty \<and>
    (\<forall>er. ex_Validate e t = Some er \<longrightarrow> ex_Execute e t p m = Ret ((None, Some er), m)) \<and>
    (\<forall>x m'. ex_Execute e t p m = Ret (x, m') \<longrightarrow> concluded x \<and> settled (task_ID t) m m')"
  using builtin_cases [OF assms] task_executor.rejects [of e] task_executor.concludes [of e]
    task_executor.settles [of e] by auto

section \<open>A task on a worker with the built-in executors\<close>

lemma final_instance_terminal:
  assumes "concluded (ls_result ls, ls_err ls)"
  shows "IsTerminal (ti_Status (final_instance w ls))"
proof -
  have "IsTerminal (final_status (ls_result ls, ls_err ls))"
    using assms by (cases "(ls_result ls, ls_err ls)" rule: concluded.cases) auto
  then show ?thesis using assms final_instance_status(1) [of ls w] by (cases "ls_result ls"; cases "ls_err ls") auto
qed

context store_contract
begin

lemma executeTask_steps:
  assumes "inv s" "fmlookup (ti_map s) (ti_ID ti) \<noteq> None"
    and "executor_of (dag_map s) (wk_registry wk) ti = Some (t, e)"
  obtains s1 where "inv s1" "ti_map s1 = fmupd (ti_ID ti) (started w wk ti) (ti_map s)"
    "executeTask ops oob w ti (wk, s, x) =
       bind_outcome (attempt_loop oob w e t 0
         \<lparr>ls_ti = started w wk ti, ls_result = None, ls_err = None, ls_calls = 0\<rparr> x)
       (\<lambda>(c, ls, x'). if c
          then let (ti', s') = failTask ops w (ls_ti ls) ''context cancelled during retry'' s1
               in Ret (ti', wk, s', x')
          else bind_outcome (finish_task ops w ls wk s1) (\<lambda>(ti', wk', s'). Ret (ti', wk', s', x')))"
proof -
  obtain s1 where s1: "op_UpdateTaskInstance ops (started w wk ti) s = Inr s1" "inv s1"
    "ti_map s1 = fmupd (ti_ID ti) (started w wk ti) (ti_map s)" "dag_map s1 = dag_map s" "run_map s1 = run_map s"
    using assms(1,2) by (rule executeTask_started)
  obtain d where d: "op_GetDAG ops (ti_DAGID ti) s1 = Inr d" "fmlookup (Tasks d) (ti_TaskID ti) = Some t"
      "Get (Executor t) (wk_registry wk) = Inr e"
    using assms(3) s1(4) get_dag [OF s1(2)] by (auto simp: executor_of_def Get_def split: option.splits)
  show ?thesis using that [OF s1(2,3)] s1(1) d
    by (simp add: executeTask_def Let_def flip: started_def cong: if_cong)
qed

text \<open>
  However the retry loop ends, the instance that is stored has ended; and there is no such end only if a call of the
  executor panics or goes on for ever.
\<close>

lemma executeTask_ends:
  assumes "inv s" "fmlookup (ti_map s) (ti_ID ti) \<noteq> None"
    and "executor_of (dag_map s) (wk_registry wk) ti = Some (t, e)" and "dlq_inv (wk_dlq wk)"
    and "0 < max_attempts (RetryPolicy t)" and "task_executor e"
  shows "case executeTask ops oob w ti (wk, s, m) of
      Ret (ti', wk', s', m') \<Rightarrow>
        IsTerminal (ti_Status ti') \<and> ti_map s' = fmupd (ti_ID ti) ti' (ti_map s) \<and> settled (task_ID t) m m'
    | Panic \<Rightarrow> \<exists>x. ex_Execute e t fmempty x = Panic
    | Diverge \<Rightarrow> \<exists>x. ex_Execute e t fmempty x = Diverge"
proof -
  let ?st = "\<lparr>ls_ti = started w wk ti, ls_result = None, ls_err = None, ls_calls = 0\<rparr>"
  obtain s1 where s1: "inv s1" "ti_map s1 = fmupd (ti_ID ti) (started w wk ti) (ti_map s)"
    "executeTask ops oob w ti (wk, s, m) =
       bind_outcome (attempt_loop oob w e t 0 ?st m)
       (\<lambda>(c, ls, x'). if c
          then let (ti', s') = failTask ops w (ls_ti ls) ''context cancelled during retry'' s1
               in Ret (ti', wk, s', x')
          else bind_outcome (finish_task ops w ls wk s1) (\<lambda>(ti', wk', s'). Ret (ti', wk', s', x')))"
    using executeTask_steps [OF assms(1-3)] by blast
  show ?thesis
  proof (cases "attempt_loop oob w e t 0 ?st m")
    case (Ret r)
    then obtain c ls y where loop: "attempt_loop oob w e t 0 ?st m = Ret (c, ls, y)" by (cases r) auto
    then have ends: "settled (task_ID t) m y" "ti_ID (ls_ti ls) = ti_ID ti"
        "\<not> c \<Longrightarrow> concluded (ls_result ls, ls_err ls)"
      using task_executor.attempt_loop_settles [OF assms(6) loop] assms(5) by auto
    show ?thesis
    proof (cases c)
      case True
      obtain tx sx where f: "failTask ops w (ls_ti ls) ''context cancelled during retry'' s1 = (tx, sx)"
          "ti_Status tx = StatusFailed" "ti_map sx = fmupd (ti_ID ti) tx (ti_map s1)"
        using failTask_spec [OF s1(1), of "ls_ti ls" w "''context cancelled during retry''"] ends(2) s1(2) by auto
      then show ?thesis using s1(2,3) loop True ends(1) by simp
    next
      case False
      then have returned: "attempt_loop oob w e t 0 ?st m = Ret (False, ls, y)" using loop by simp
      obtain q sx where "executeTask ops oob w ti (wk, s, m) = Ret (final_instance w ls, wk\<lparr>wk_dlq := q\<rparr>, sx, y)"
          "ti_map sx = fmupd (ti_ID ti) (final_instance w ls) (ti_map s)"
        using executeTask_known [OF assms(1-3) returned ends(2) assms(4)] by blast
      then show ?thesis using ends(1) final_instance_terminal [OF ends(3)] False by simp
    qed
  next
    case Panic
    moreover have "ex_Execute e t fmempty y \<noteq> Ret ((None, None), y')" for y y'
      using task_executor.concludes [OF assms(6), of t fmempty y "(None, None)" y'] by auto
    ultimately have "\<exists>x. ex_Execute e t fmempty x = Panic" using attempt_loop_Panic [of e t oob w 0 ?st m] by blast
    then show ?thesis using s1(3) Panic by simp
  next
    case Diverge
    then have "\<exists>x. ex_Execute e t fmempty x = Diverge" using attempt_loop_Diverge [of e t oob w 0 ?st m] by blast
    then show ?thesis using s1(3) Diverge by simp
  qed
qed

end

text \<open>
  C20. A worker with the default registry, given an instance in the store whose executor is known and whose policy allows
  at least one attempt: when \<open>executeTask\<close> returns, a cancelled context and a failing executor included, the stored instance
  has succeeded, failed, was cancelled or skipped, and no command or container of the task is tracked that was not
  before. It fails to return only if a call of the executor panics (a setting of the wrong type) or never ends (an
  application that YARN does not finish). Nothing is said of a policy without an attempt.
\<close>

theorem builtin_task_ends:
  assumes "mem_inv mw s" and "fmlookup (taskInstances s) (ti_ID ti) \<noteq> None" and "dlq_inv (wk_dlq wk)"
    and "wk_registry wk = DefaultRegistry en dk js fuel"
    and "executor_of (dags s) (wk_registry wk) ti = Some (t, e)" and "0 < max_attempts (RetryPolicy t)"
  shows "case executeTask (memory_ops mw) oob w ti (wk, s, m) of
      Ret (ti', wk', s', m') \<Rightarrow>
        IsTerminal (ti_Status ti') \<and> taskInstances s' = fmupd (ti_ID ti) ti' (taskInstances s) \<and>
        settled (task_ID t) m m'
    | Panic \<Rightarrow> \<exists>x. ex_Execute e t fmempty x = Panic
    | Diverge \<Rightarrow> \<exists>x. ex_Execute e t fmempty x = Diverge"
proof -
  have "Get (Executor t) (DefaultRegistry en dk js fuel) = Inr e"
    using assms(4,5) by (auto simp: executor_of_def Get_iff split: option.splits)
  then show ?thesis
    using builtin_cases mem.executeTask_ends [OF assms(1,2,5,3,6)] by blast
qed

section \<open>Type assertions\<close>

text \<open>A setting that is absent or a string: what the unchecked assertions \<^verbatim>\<open>v.(string)\<close> rely on.\<close>

definition is_text :: "task \<Rightarrow> string \<Rightarrow> bool" where
  "is_text t key \<longleftrightarrow> (case fmlookup (Config t) key of Some v \<Rightarrow> (\<exists>s. v = VStr s) | None \<Rightarrow> True)"

lemma as_string_cases: "as_string v = Panic \<longleftrightarrow> (\<forall>s. v \<noteq> VStr s)"
  by (cases v) auto

lemma string_or_Panic: "string_or key t x = Panic \<longleftrightarrow> \<not> is_text t key"
  by (auto simp: string_or_def is_text_def as_string_cases split: option.split)

lemma string_or_Ret: "(\<exists>s. string_or key t x = Ret s) \<longleftrightarrow> is_text t key"
  by (auto simp: string_or_def is_text_def split: option.split)

lemma string_flag_Panic: "string_flag flag key t = Panic \<longleftrightarrow> \<not> is_text t key"
  by (auto simp: string_flag_def is_text_def as_string_cases bind_outcome_Panic split: option.split)

lemma string_flag_Ret: "(\<exists>s. string_flag flag key t = Ret s) \<longleftrightarrow> is_text t key"
  by (auto simp: string_flag_def is_text_def split: option.split)

lemma shell_command_Panic:
  "shell_Validate t = None \<Longrightarrow> shell_command en t p = Panic \<longleftrightarrow> \<not> (is_text t ''shell'' \<and> is_text t ''working_dir'')"
  by (auto simp: shell_command_def shell_Validate_def bind_outcome_Panic string_or_Panic Let_def string_or_Ret
      is_text_def [of t "''command''"] split: option.splits gval.splits)

lemma python_args_Panic:
  "python_args en t p = Panic \<longleftrightarrow>
     \<not> is_text t (if fmlookup (Config t) ''script'' = None then ''code'' else ''script'')"
  by (auto simp: python_args_def bind_outcome_Panic string_or_Panic as_string_cases is_text_def
      split: option.splits)

lemma python_command_Panic:
  "python_command en cfg t p = Panic \<longleftrightarrow>
     \<not> (is_text t ''python_path'' \<and> is_text t ''working_dir'' \<and>
        is_text t (if fmlookup (Config t) ''script'' = None then ''code'' else ''script''))"
proof -
  have path: "python_path cfg t = Panic \<longleftrightarrow> \<not> is_text t ''python_path''"
      "(\<exists>s. python_path cfg t = Ret s) \<longleftrightarrow> is_text t ''python_path''"
    by (simp_all add: python_path_def bind_outcome_Panic string_or_Panic string_or_Ret)
  have args: "(\<exists>s. python_args en t p = Ret s) \<longleftrightarrow>
      is_text t (if fmlookup (Config t) ''script'' = None then ''code'' else ''script'')"
    by (auto simp: python_args_def string_or_Ret is_text_def string_or_def split: option.splits)
  show ?thesis
    by (auto simp: python_command_def bind_outcome_Panic path(1) python_args_Panic string_or_Panic
        simp flip: path(2) args)
qed

lemma buildSubmitArgs_Panic:
  "buildSubmitArgs en cfg t p = Panic \<longleftrightarrow>
     (\<exists>key \<in> {''master'', ''deploy_mode'', ''class'', ''driver_memory'', ''executor_memory'', ''application''}.
        \<not> is_text t key)"
  by (simp add: buildSubmitArgs_def bind_outcome_Panic string_or_Panic string_flag_Panic string_or_Ret
      string_flag_Ret) blast

lemma shell_Execute_Panic:
  "shell_Execute en t p m = Panic \<longleftrightarrow>
     shell_Validate t = None \<and> \<not> (is_text t ''shell'' \<and> is_text t ''working_dir'')"
  by (auto simp: shell_Execute_def Let_def bind_outcome_Panic shell_command_Panic case_prod_unfold
      split: option.splits)

lemma python_Execute_Panic:
  "python_Execute en pc t p m = Panic \<longleftrightarrow>
     python_Validate t = None \<and>
     \<not> (is_text t ''python_path'' \<and> is_text t ''working_dir'' \<and>
        is_text t (if fmlookup (Config t) ''script'' = None then ''code'' else ''script''))"
  by (simp add: python_Execute_def Let_def bind_outcome_Panic python_command_Panic case_prod_unfold
      split: option.split)

lemma spark_Execute_Panic:
  "spark_Execute en sc t p m = Panic \<longleftrightarrow>
     spark_Validate t = None \<and>
     (\<not> is_text t ''mode'' \<or>
      (fmlookup (Config t) ''mode'' = None \<or> fmlookup (Config t) ''mode'' = Some (VStr ''submit'')) \<and>
      (\<exists>key \<in> {''master'', ''deploy_mode'', ''class'', ''driver_memory'', ''executor_memory'', ''application''}.
         \<not> is_text t key))"
proof -
  have mode: "string_or ''mode'' t ''submit'' = Ret ''submit'' \<longleftrightarrow>
      fmlookup (Config t) ''mode'' = None \<or> fmlookup (Config t) ''mode'' = Some (VStr ''submit'')"
    by (auto simp: string_or_def split: option.split)
  have submit: "executeSubmit en cfg t p m = Panic \<longleftrightarrow> buildSubmitArgs en cfg t p = Panic" for cfg
    by (simp add: executeSubmit_def Let_def bind_outcome_Panic case_prod_unfold)
  have "spark_Execute en sc t p m = Panic \<longleftrightarrow>
      spark_Validate t = None \<and> (\<not> is_text t ''mode'' \<or>
        string_or ''mode'' t ''submit'' = Ret ''submit'' \<and> buildSubmitArgs en sc t p = Panic)"
    by (cases "spark_Validate t"; cases "string_or ''mode'' t ''submit''")
       (simp_all add: spark_Execute_def submit flip: string_or_Panic [of _ _ "''submit''"])
  then show ?thesis unfolding mode buildSubmitArgs_Panic .
qed

lemma hdfs_Execute_Panic:
  "hdfs_Execute en js hc t p m = Panic \<longleftrightarrow> hdfs_Validate t = None \<and> \<not> is_text t ''path''"
proof -
  have "hdfs_Validate t = None \<Longrightarrow> is_text t ''operation''"
    by (auto simp: hdfs_Validate_def is_text_def split: option.splits gval.splits)
  then show ?thesis
    by (auto simp: hdfs_Execute_def Let_def bind_outcome_Panic string_or_Panic string_or_Ret case_prod_unfold
        split: option.splits)
qed

text \<open>
  C34. The executors that start a process and the HDFS executor crash on a task exactly when \<open>Validate\<close>
  accepts it and one of the settings that \<open>Execute\<close> asserts to be a string has a value of another
  type: \<open>Validate\<close> checks the type of the shell command and of the HDFS operation only.
\<close>

theorem executors_panic_iff:
  "(shell_Execute en t p m = Panic \<longleftrightarrow>
      shell_Validate t = None \<and> \<not> (is_text t ''shell'' \<and> is_text t ''working_dir'')) \<and>
   (python_Execute en pc t p m = Panic \<longleftrightarrow>
      python_Validate t = None \<and>
      \<not> (is_text t ''python_path'' \<and> is_text t ''working_dir'' \<and>
         is_text t (if fmlookup (Config t) ''script'' = None then ''code'' else ''script''))) \<and>
   (spark_Execute en sc t p m = Panic \<longleftrightarrow>
      spark_Validate t = None \<and>
      (\<not> is_text t ''mode'' \<or>
       (fmlookup (Config t) ''mode'' = None \<or> fmlookup (Config t) ''mode'' = Some (VStr ''submit'')) \<and>
       (\<exists>key \<in> {''master'', ''deploy_mode'', ''class'', ''driver_memory'', ''executor_memory'', ''application''}.
          \<not> is_text t key))) \<and>
   (hdfs_Execute en js hc t p m = Panic \<longleftrightarrow> hdfs_Validate t = None \<and> \<not> is_text t ''path'')"
  by (intro conjI shell_Execute_Panic python_Execute_Panic spark_Execute_Panic hdfs_Execute_Panic)

section \<open>Polling an application\<close>

text \<open>
  A round of the loop that neither finds the context done nor fails to read the state nor finds the
  application ended; and the state of the outside when the next round starts.
\<close>

definition pending :: "'o exec_env \<Rightarrow> json_codec \<Rightarrow> hadoop_config \<Rightarrow> task \<Rightarrow> string \<Rightarrow> 'o \<Rightarrow> bool" where
  "pending en js cfg t i os \<longleftrightarrow> en_done en t os = None \<and>
     (case fst (getApplicationStatus en js cfg i os) of
        Inl e \<Rightarrow> False
      | Inr st \<Rightarrow> ya_State st \<notin> {''FINISHED'', ''KILLED'', ''FAILED''})"

definition next_round :: "'o exec_env \<Rightarrow> json_codec \<Rightarrow> hadoop_config \<Rightarrow> task \<Rightarrow> string \<Rightarrow> 'o \<Rightarrow> 'o" where
  "next_round en js cfg t i os = en_sleep en (poll_interval t) (snd (getApplicationStatus en js cfg i os))"

text \<open>The status that the last round stands for.\<close>

definition verdict :: "'o exec_env \<Rightarrow> json_codec \<Rightarrow> hadoop_config \<Rightarrow> task \<Rightarrow> string \<Rightarrow> 'o \<Rightarrow> status" where
  "verdict en js cfg t i os =
     (case (en_done en t os, fst (getApplicationStatus en js cfg i os)) of
        (None, Inr st) \<Rightarrow>
          if ya_State st = ''KILLED'' then StatusCancelled
          else if ya_State st = ''FINISHED'' \<and> ya_FinalStatus st = ''SUCCEEDED'' then StatusSuccess
          else StatusFailed
      | _ \<Rightarrow> StatusFailed)"

lemma yarn_outcome_None: "yarn_outcome i st stop r = None \<longleftrightarrow> ya_State st \<notin> {''FINISHED'', ''KILLED'', ''FAILED''}"
  by (auto simp: yarn_outcome_def Let_def)

lemma yarn_outcome_Some:
  "yarn_outcome i st stop r = Some r' \<Longrightarrow> res_Status r' =
     (if ya_State st = ''KILLED'' then StatusCancelled
      else if ya_State st = ''FINISHED'' \<and> ya_FinalStatus st = ''SUCCEEDED'' then StatusSuccess
      else StatusFailed)"
  by (auto simp: yarn_outcome_def Let_def split: if_splits)

lemma poll_pending:
  "pending en js cfg t i os \<Longrightarrow>
     \<exists>r'. poll en js cfg (Suc fuel) t i r os = poll en js cfg fuel t i r' (next_round en js cfg t i os)"
  by (auto simp: pending_def next_round_def Let_def yarn_outcome_None [THEN iffD2]
      split: sum.splits prod.splits option.splits)

lemma poll_last:
  "\<not> pending en js cfg t i os \<Longrightarrow>
     \<exists>r' os'. poll en js cfg (Suc fuel) t i r os = Ret (r', os') \<and> res_Status r' = verdict en js cfg t i os"
  by (auto simp: pending_def verdict_def Let_def yarn_outcome_None yarn_outcome_Some
      split: sum.splits prod.splits option.splits)

lemma poll_first_round:
  assumes "\<forall>j<k. pending en js cfg t i ((next_round en js cfg t i ^^ j) os)"
  shows "(k < fuel \<and> \<not> pending en js cfg t i ((next_round en js cfg t i ^^ k) os) \<longrightarrow>
     (\<exists>r' os'. poll en js cfg fuel t i r os = Ret (r', os') \<and>
        res_Status r' = verdict en js cfg t i ((next_round en js cfg t i ^^ k) os))) \<and>
    (fuel \<le> k \<longrightarrow> poll en js cfg fuel t i r os = Diverge)"
  using assms
proof (induction k arbitrary: fuel r os)
  case 0
  show ?case using poll_last [of en js cfg t i os] by (cases fuel) (auto simp del: poll.simps(2))
next
  case (Suc k)
  let ?next = "next_round en js cfg t i"
  have now: "pending en js cfg t i os" using Suc.prems by (metis funpow_0 zero_less_Suc)
  have later: "\<forall>j<k. pending en js cfg t i ((?next ^^ j) (?next os))"
    using Suc.prems by (metis Suc_mono comp_apply funpow_Suc_right)
  show ?case
  proof (cases fuel)
    case (Suc n)
    obtain r' where step: "poll en js cfg (Suc n) t i r os = poll en js cfg n t i r' (?next os)"
      using poll_pending [OF now] by blast
    have "((?next ^^ Suc k) os) = ((?next ^^ k) (?next os))" by (simp add: funpow_swap1)
    then show ?thesis using Suc.IH [OF later, of n r'] step \<open>fuel = Suc n\<close> by (simp del: poll.simps(2))
  qed simp
qed

text \<open>
  C35. The loop in which the Hadoop executor waits for an application never crashes and returns, for
  enough rounds, exactly when in some round the context is done, the state cannot be read or the
  application is finished, killed or failed; the first such round decides, and the result is a success
  only if that application finished and succeeded. Without such a round (a task without a timeout whose
  application stays in a queue) it polls for ever.
\<close>

theorem poll_correct:
  "(poll en js cfg fuel t i r os = Diverge \<longleftrightarrow>
      (\<forall>k<fuel. pending en js cfg t i ((next_round en js cfg t i ^^ k) os))) \<and>
   (\<forall>k<fuel. \<not> pending en js cfg t i ((next_round en js cfg t i ^^ k) os) \<and>
        (\<forall>j<k. pending en js cfg t i ((next_round en js cfg t i ^^ j) os)) \<longrightarrow>
      (\<exists>r' os'. poll en js cfg fuel t i r os = Ret (r', os') \<and>
         res_Status r' = verdict en js cfg t i ((next_round en js cfg t i ^^ k) os)))"
proof -
  let ?p = "\<lambda>k. pending en js cfg t i ((next_round en js cfg t i ^^ k) os)"
  have decided: "\<exists>r' os'. poll en js cfg fuel t i r os = Ret (r', os') \<and>
      res_Status r' = verdict en js cfg t i ((next_round en js cfg t i ^^ k) os)"
    if "k < fuel" "\<not> ?p k" "\<forall>j<k. ?p j" for k
    using poll_first_round [OF that(3), of fuel r] that(1,2) by blast
  have "poll en js cfg fuel t i r os \<noteq> Diverge" if k: "k < fuel" "\<not> ?p k" for k
  proof -
    obtain n where "\<not> ?p n" "\<forall>j<n. ?p j" "n \<le> k" using k(2) exists_least_iff [of "\<lambda>k. \<not> ?p k"]
      by (metis (no_types, lifting) leI)
    then show ?thesis using decided [of n] k(1) by auto
  qed
  then show ?thesis using decided poll_first_round [of fuel en js cfg t i os fuel r] by auto
qed

section \<open>Concrete executions\<close>

text \<open>An outside that is a clock: every process succeeds, every request is answered, at tick 3 the state is final.\<close>

definition sample_env :: "nat exec_env" where
  "sample_env =
     \<lparr>en_now = int, en_run = (\<lambda>c os. (\<lparr>pr_stdout = ''ok'', pr_stderr = '''', pr_err = None\<rparr>, os + 1)),
      en_started = (\<lambda>c os. False), en_kill = (\<lambda>c os. (None, os)),
      en_http = (\<lambda>q os. (Inr \<lparr>rp_status = 200, rp_body = nat_dec os, rp_err = None\<rparr>, os + 1)),
      en_url_ok = (\<lambda>u. None), en_done = (\<lambda>t os. None), en_sleep = (\<lambda>d os. os + 1),
      en_order = sorted_keys, en_float = (\<lambda>x. '''')\<rparr>"

definition sample_codec :: json_codec where
  "sample_codec =
     \<lparr>js_application = (\<lambda>resp. Inr ''application_1''),
      js_status = (\<lambda>resp. Inr
        \<lparr>ya_ID = ''application_1'', ya_State = (if rp_body resp = ''3'' then ''FINISHED'' else ''RUNNING''),
         ya_FinalStatus = ''SUCCEEDED'', ya_Progress = Fin 0, ya_TrackingURL = '''', ya_StartedTime = 0,
         ya_FinishedTime = 0, ya_ElapsedTime = 0, ya_Diagnostics = ''''\<rparr>),
      js_object = (\<lambda>resp. Inr fmempty), js_indent = (\<lambda>m. Inr ''{}'')\<rparr>"

definition sample_docker :: "nat docker_api" where
  "sample_docker =
     \<lparr>dk_client = (\<lambda>os. None), dk_pull = (\<lambda>i os. (None, os)), dk_create = (\<lambda>c h n os. (Inr ''c1'', os)),
      dk_start = (\<lambda>c os. (None, os)), dk_wait = (\<lambda>c os. (WaitStatus 0, os)),
      dk_logs = (\<lambda>c os. (Inr ''done'', os)), dk_remove = (\<lambda>c os. os), dk_stop = (\<lambda>c n os. (None, os))\<rparr>"

definition sample_machine :: "nat machine" where
  "sample_machine = \<lparr>m_shell = fmempty, m_python = fmempty, m_spark = fmempty, m_docker = fmempty, m_os = 0\<rparr>"

definition shell_task :: "gval \<Rightarrow> task" where
  "shell_task sh = (worker_task ''a'' ''shell'' 0)
     \<lparr>Config := fmupd ''shell'' sh (fmupd ''command'' (VStr ''echo'') fmempty)\<rparr>"

text \<open>A shell task succeeds, and is refused without a command.\<close>

lemma builtin_executors_contract_witness:
  "\<exists>e. Get ''shell'' (DefaultRegistry sample_env sample_docker sample_codec 9) = Inr e \<and>
     (\<exists>r m'. ex_Execute e (shell_task (VStr ''/bin/bash'')) fmempty sample_machine = Ret ((Some r, None), m') \<and>
        res_Status r = StatusSuccess \<and> concluded (Some r, None)) \<and>
     ex_Execute e (worker_task ''a'' ''shell'' 0) fmempty sample_machine =
       Ret ((None, Some (Err ''shell executor requires 'command' in config'' [])), sample_machine)"
proof -
  let ?e = "ShellExecutor sample_env"
  let ?t = "shell_task (VStr ''/bin/bash'')"
  have get: "Get ''shell'' (DefaultRegistry sample_env sample_docker sample_codec 9) = Inr ?e"
    by (simp add: DefaultRegistry_def go_simps)
  obtain r m' where run: "ex_Execute ?e ?t fmempty sample_machine = Ret ((Some r, None), m')"
      "res_Status r = StatusSuccess"
    by (simp add: ShellExecutor_def shell_Execute_def shell_Validate_def shell_command_def shell_task_def
        string_or_def run_tracked_def process_result_def sample_env_def Let_def)
  have "ex_Validate ?e (worker_task ''a'' ''shell'' 0) =
      Some (Err ''shell executor requires 'command' in config'' [])"
    by (simp add: ShellExecutor_def shell_Validate_def worker_task_def plain_task_def)
  then show ?thesis
    using get run builtin_executors_contract [OF get, of ?t fmempty sample_machine]
      builtin_executors_contract [OF get, of "worker_task ''a'' ''shell'' 0" fmempty sample_machine]
    by blast
qed

text \<open>A shell given as a number crashes the executor, a shell given as a string does not.\<close>

lemma executors_panic_iff_witness:
  "shell_Execute sample_env (shell_task (VInt 1)) fmempty sample_machine = Panic \<and>
   shell_Execute sample_env (shell_task (VStr ''/bin/bash'')) fmempty sample_machine \<noteq> Panic"
  using executors_panic_iff [of sample_env "shell_task (VInt 1)" fmempty sample_machine]
    executors_panic_iff [of sample_env "shell_task (VStr ''/bin/bash'')" fmempty sample_machine]
  by (simp add: shell_task_def shell_Validate_def is_text_def worker_task_def plain_task_def)

text \<open>The application is running when asked at tick 1 and finished when asked at tick 3.\<close>

definition sample_yarn :: hadoop_config where
  "sample_yarn = \<lparr>ResourceManagerURL = ''http://rm'', TimelineServerURL = '''', hadoop_User = ''''\<rparr>"

lemma sample_rounds:
  "getApplicationStatus sample_env sample_codec sample_yarn ''application_1'' os =
     (Inr \<lparr>ya_ID = ''application_1'', ya_State = (if nat_dec os = ''3'' then ''FINISHED'' else ''RUNNING''),
         ya_FinalStatus = ''SUCCEEDED'', ya_Progress = Fin 0, ya_TrackingURL = '''', ya_StartedTime = 0,
         ya_FinishedTime = 0, ya_ElapsedTime = 0, ya_Diagnostics = ''''\<rparr>, os + 1)"
  by (simp add: getApplicationStatus_def do_http_def sample_env_def sample_codec_def)

lemma poll_correct_witness:
  "poll sample_env sample_codec sample_yarn 1 (worker_task ''a'' ''hadoop'' 0) ''application_1'' (new_result 0) 1 = Diverge \<and>
   (\<exists>r' os'. poll sample_env sample_codec sample_yarn 2 (worker_task ''a'' ''hadoop'' 0) ''application_1'' (new_result 0) 1 =
       Ret (r', os') \<and> res_Status r' = StatusSuccess)"
proof -
  let ?t = "worker_task ''a'' ''hadoop'' 0"
  let ?p = "pending sample_env sample_codec sample_yarn ?t ''application_1''"
  let ?n = "next_round sample_env sample_codec sample_yarn ?t ''application_1''"
  have digits: "nat_dec (Suc 0) \<noteq> ''3''" "nat_dec (Suc (Suc (Suc 0))) = ''3''" "nat_dec 3 = ''3''" by (simp_all add: nat_dec.simps digit_def, code_simp+)
  have rounds: "?p ((?n ^^ 0) 1)" "\<not> ?p ((?n ^^ 1) 1)" "?n 1 = 3"
    by (simp_all add: pending_def next_round_def sample_rounds digits) (simp_all add: sample_env_def digits)
  have "verdict sample_env sample_codec sample_yarn ?t ''application_1'' ((?n ^^ 1) 1) = StatusSuccess"
    using rounds(3) by (simp add: verdict_def sample_rounds digits) (simp add: sample_env_def digits)
  then have "\<exists>r' os'. poll sample_env sample_codec sample_yarn 2 ?t ''application_1'' (new_result 0) 1 =
      Ret (r', os') \<and> res_Status r' = StatusSuccess"
    using poll_correct [of sample_env sample_codec sample_yarn 2 ?t "''application_1''" "new_result 0" 1,
        THEN conjunct2, THEN spec [of _ 1]] rounds(1,2) by (simp del: poll.simps)
  moreover have "poll sample_env sample_codec sample_yarn 1 ?t ''application_1'' (new_result 0) 1 = Diverge"
    using poll_correct [of sample_env sample_codec sample_yarn 1 ?t "''application_1''" "new_result 0" 1,
        THEN conjunct1] rounds(1) by (simp del: poll.simps)
  ultimately show ?thesis by blast
qed

text \<open>A shell task without a command is tried four times and then stored as failed.\<close>

definition sample_builtin :: "nat machine worker" where
  "sample_builtin =
     \<lparr>wk_config = sample_config, wk_id = ''w1'',
      wk_registry = DefaultRegistry sample_env sample_docker sample_codec 9,
      wk_dlq = NewDeadLetterQueue 1000, wk_stopped = False, wk_taskCh = \<lparr>ch_buf = [], ch_cap = 8\<rparr>\<rparr>"

lemma sample_builtin_simps:
  "wk_registry sample_builtin = DefaultRegistry sample_env sample_docker sample_codec 9"
  "dlq_inv (wk_dlq sample_builtin)"
  "executor_of (dags worker_store) (DefaultRegistry sample_env sample_docker sample_codec 9) (queued_instance ''a'') =
     Some (worker_task ''a'' ''shell'' 3, ShellExecutor sample_env)"
proof -
  have "Get ''shell'' (DefaultRegistry sample_env sample_docker sample_codec 9) = Inr (ShellExecutor sample_env)"
    by (simp add: DefaultRegistry_def go_simps)
  then show "executor_of (dags worker_store) (DefaultRegistry sample_env sample_docker sample_codec 9)
      (queued_instance ''a'') = Some (worker_task ''a'' ''shell'' 3, ShellExecutor sample_env)"
    unfolding Get_iff
    by (simp add: executor_of_def worker_store_def worker_dag_def worker_task_def queued_instance_def
        NewDAG_def NewMemoryStore_def plain_task_def)
qed (simp_all add: sample_builtin_def NewDeadLetterQueue_def dlq_inv_def)

lemma builtin_task_ends_witness:
  "\<exists>ti' wk' s' m'. executeTask (memory_ops plain_mem) (\<lambda>_. 0) calm_world (queued_instance ''a'')
       (sample_builtin, worker_store, sample_machine) = Ret (ti', wk', s', m') \<and> IsTerminal (ti_Status ti')"
proof -
  let ?t = "worker_task ''a'' ''shell'' 3"
  let ?st = "\<lparr>ls_ti = started calm_world sample_builtin (queued_instance ''a''), ls_result = None,
    ls_err = None, ls_calls = 0\<rparr>"
  have known: "fmlookup (taskInstances worker_store) (ti_ID (queued_instance ''a'')) \<noteq> None"
    using worker_lookups(4) .
  have ex: "executor_of (dags worker_store) (wk_registry sample_builtin) (queued_instance ''a'') =
      Some (?t, ShellExecutor sample_env)" using sample_builtin_simps(1,3) by simp
  have pos: "0 < max_attempts (RetryPolicy ?t)" by (simp add: max_attempts_def wrap64_def)
  have "returns (ShellExecutor sample_env) ?t"
    by (simp add: returns_def ShellExecutor_def shell_Execute_def shell_Validate_def worker_task_def plain_task_def)
  then obtain rs x' where "attempt_loop (\<lambda>_. 0) calm_world (ShellExecutor sample_env) ?t 0 ?st sample_machine =
      Ret (False, \<lparr>ls_ti = attempted (length rs) (started calm_world sample_builtin (queued_instance ''a'')),
        ls_result = fst (last rs), ls_err = snd (last rs), ls_calls = length rs\<rparr>, x')" (is "_ = Ret (False, ?ls, x')")
    using attempt_loop_spec [of "ShellExecutor sample_env" ?t calm_world 0 "\<lambda>_. 0" ?st sample_machine] pos
    by (auto simp: calm_world_def)
  then obtain q s' where run: "executeTask (memory_ops plain_mem) (\<lambda>_. 0) calm_world (queued_instance ''a'')
      (sample_builtin, worker_store, sample_machine) =
        Ret (final_instance calm_world ?ls, sample_builtin\<lparr>wk_dlq := q\<rparr>, s', x')"
    using mem.executeTask_known [OF worker_store_ok known ex, of "\<lambda>_. 0" calm_world sample_machine ?ls x']
      sample_builtin_simps(2) by auto
  then show ?thesis
    using builtin_task_ends [OF worker_store_ok known sample_builtin_simps(2,1) ex pos, where m = sample_machine and oob = "\<lambda>_. 0" and w = calm_world]
    by (simp add: run)
qed

end
