(* ===== verification/Postgres.thy ===== *)
theory Postgres
  imports Store Exec_Hadoop
begin

text \<open>
  \<^verbatim>\<open>pkg/store/postgres.go\<close>: the implementation of the interface \<^verbatim>\<open>Store\<close> on PostgreSQL. The SQL texts
  of the code are translated into functions on tables with the constraints of the schema; a table is
  a map from its primary key, so the order of its rows is an argument. What is not in the repository
  is the argument \<open>pg_world\<close>: the network, the clock, the JSON codec and the server's error values. A call can fail
  before or after the server ran the statement, and a result can break off after some rows.
\<close>

section \<open>Tables\<close>

record dag_row =
  dr_id :: string
  dr_name :: string
  dr_description :: string
  dr_spec :: string
  dr_version :: int
  dr_created_at :: time
  dr_updated_at :: time

record run_row =
  rr_id :: string
  rr_dag_id :: string
  rr_status :: status
  rr_params :: string
  rr_start_time :: time
  rr_end_time :: time
  rr_created_at :: time
  rr_updated_at :: time

text \<open>
  A row of \<^verbatim>\<open>task_instances\<close> has the fields of \<open>task_instance\<close>. A status travels as its number.
\<close>

record pg_tables =
  pt_schema :: bool
  pt_dags :: "(string, dag_row) fmap"
  pt_runs :: "(string, run_row) fmap"
  pt_tis :: "(string, task_instance) fmap"

definition pg_fresh :: pg_tables where
  "pg_fresh = \<lparr>pt_schema = False, pt_dags = fmempty, pt_runs = fmempty, pt_tis = fmempty\<rparr>"

text \<open>
  \<^item> \<open>pw_lost\<close>: the failure of a call, and whether the server had run the statement;
  \<^item> \<open>pw_cut\<close>: after how many rows a result breaks off; \<open>pw_scan\<close>: the row that cannot be scanned;
  \<^item> \<open>pw_refuse\<close>: the error for a violated constraint or an argument out of range;
  \<^item> \<open>pw_stamp\<close>: a time as the column keeps it, in microseconds; \<open>pw_collate\<close>: the collation's sort key;
  \<^item> \<open>pw_dags\<close>, \<open>pw_runs\<close>, \<open>pw_tis\<close>: the order of the rows of a table;
  \<^item> \<open>pw_jsonb\<close>: the text of a JSONB value as it is read back.
\<close>

record pg_world =
  pw_now :: "string \<Rightarrow> time"
  pw_lost :: "string \<Rightarrow> pg_tables \<Rightarrow> (err \<times> bool) option"
  pw_cut :: "string \<Rightarrow> pg_tables \<Rightarrow> (nat \<times> err) option"
  pw_scan :: "string \<Rightarrow> string \<Rightarrow> err option"
  pw_refuse :: "string \<Rightarrow> err"
  pw_stamp :: "time \<Rightarrow> time"
  pw_collate :: "string \<Rightarrow> string"
  pw_dags :: "pg_tables \<Rightarrow> string list"
  pw_runs :: "pg_tables \<Rightarrow> string list"
  pw_tis :: "pg_tables \<Rightarrow> string list"
  pw_marshal :: "dag \<Rightarrow> err + string"
  pw_unmarshal :: "string \<Rightarrow> err + dag"
  pw_params :: "(string, string) fmap \<Rightarrow> string"
  pw_unparams :: "string \<Rightarrow> (string, string) fmap"
  pw_jsonb :: "string \<Rightarrow> string"

section \<open>The calls of the pool\<close>

type_synonym 'a stmt = "pg_tables \<Rightarrow> err + 'a"

definition ErrNoRows :: err where
  "ErrNoRows = Err ''no rows in result set'' []"

definition on_schema :: "pg_world \<Rightarrow> 'a stmt \<Rightarrow> 'a stmt" where
  "on_schema w st db = (if pt_schema db then st db else Inl (pw_refuse w ''undefined_table''))"

text \<open>The command tag carries the number of rows affected.\<close>

definition pool_Exec ::
  "pg_world \<Rightarrow> string \<Rightarrow> (nat \<times> pg_tables) stmt \<Rightarrow> pg_tables \<Rightarrow> (err + nat) \<times> pg_tables" where
  "pool_Exec w call st db =
     (case pw_lost w call db of
        Some (e, executed) \<Rightarrow> (Inl e, if executed then (case st db of Inl _ \<Rightarrow> db | Inr (_, db') \<Rightarrow> db') else db)
      | None \<Rightarrow> (case st db of Inl e \<Rightarrow> (Inl e, db) | Inr (n, db') \<Rightarrow> (Inr n, db')))"

definition pool_Query :: "pg_world \<Rightarrow> string \<Rightarrow> 'r list stmt \<Rightarrow> pg_tables \<Rightarrow> err + 'r list" where
  "pool_Query w call st db =
     (case pw_lost w call db of Some (e, _) \<Rightarrow> Inl e | None \<Rightarrow> st db)"

definition pool_QueryRow ::
  "pg_world \<Rightarrow> string \<Rightarrow> 'r list stmt \<Rightarrow> ('r \<Rightarrow> string) \<Rightarrow> pg_tables \<Rightarrow> err + 'r" where
  "pool_QueryRow w call st key db =
     (case pool_Query w call st db of
        Inl e \<Rightarrow> Inl e
      | Inr [] \<Rightarrow> Inl ErrNoRows
      | Inr (r # _) \<Rightarrow> (case pw_scan w call (key r) of Some e \<Rightarrow> Inl e | None \<Rightarrow> Inr r))"

definition exec_error :: "err + nat \<Rightarrow> err option" where
  "exec_error r = (case r of Inl e \<Rightarrow> Some e | Inr _ \<Rightarrow> None)"

text \<open>
  The loop over \<^verbatim>\<open>rows.Next()\<close>, which an undecodable row leaves, and \<^verbatim>\<open>return result, rows.Err()\<close>
  after it: the rows so far are returned together with the error that broke the result off.
\<close>

fun scan_rows :: "('r \<Rightarrow> err + 'a) \<Rightarrow> 'r list \<Rightarrow> 'a list \<Rightarrow> err + 'a list" where
  "scan_rows dec [] result = Inr result"
| "scan_rows dec (r # rs) result =
     (case dec r of Inl e \<Rightarrow> Inl e | Inr a \<Rightarrow> scan_rows dec rs (result @ [a]))"

definition list_rows ::
  "pg_world \<Rightarrow> string \<Rightarrow> 'r list stmt \<Rightarrow> ('r \<Rightarrow> err + 'a) \<Rightarrow> pg_tables \<Rightarrow> 'a list \<times> err option" where
  "list_rows w call st dec db =
     (case pool_Query w call st db of
        Inl e \<Rightarrow> ([], Some e)
      | Inr rs \<Rightarrow>
          (let (rs, end_err) = (case pw_cut w call db of
                                  None \<Rightarrow> (rs, None) | Some (n, e) \<Rightarrow> (take n rs, Some e))
           in (case scan_rows dec rs [] of Inl e \<Rightarrow> ([], Some e) | Inr xs \<Rightarrow> (xs, end_err))))"

definition scanned :: "pg_world \<Rightarrow> string \<Rightarrow> string \<Rightarrow> err + 'a \<Rightarrow> err + 'a" where
  "scanned w call key r = (case pw_scan w call key of Some e \<Rightarrow> Inl e | None \<Rightarrow> r)"

text \<open>The range of an \<^verbatim>\<open>INTEGER\<close> column.\<close>

definition int4 :: "int \<Rightarrow> bool" where
  "int4 n \<longleftrightarrow> - (2 ^ 31) \<le> n \<and> n < 2 ^ 31"

section \<open>NewPostgresStore and Migrate\<close>

record pool_config =
  MaxConns :: int
  MinConns :: int
  MaxConnLifetime :: duration
  MaxConnIdleTime :: duration

record postgres_config =
  pg_DSN :: string
  pg_MaxConns :: int
  pg_MinConns :: int
  pg_MaxConnLifetime :: duration
  pg_MaxConnIdleTime :: duration

definition pool_settings :: "postgres_config \<Rightarrow> pool_config \<Rightarrow> pool_config" where
  "pool_settings cfg p =
     (let p = (if 0 < pg_MaxConns cfg then p\<lparr>MaxConns := pg_MaxConns cfg\<rparr> else p);
          p = (if 0 < pg_MinConns cfg then p\<lparr>MinConns := pg_MinConns cfg\<rparr> else p);
          p = (if 0 < pg_MaxConnLifetime cfg then p\<lparr>MaxConnLifetime := pg_MaxConnLifetime cfg\<rparr> else p);
          p = (if 0 < pg_MaxConnIdleTime cfg then p\<lparr>MaxConnIdleTime := pg_MaxConnIdleTime cfg\<rparr> else p)
      in p)"

text \<open>With the result, the pools that were closed again.\<close>

definition NewPostgresStore ::
  "(string \<Rightarrow> err + pool_config) \<Rightarrow> (pool_config \<Rightarrow> err + 'p) \<Rightarrow> ('p \<Rightarrow> err option) \<Rightarrow>
     postgres_config \<Rightarrow> (err + 'p) \<times> 'p list" where
  "NewPostgresStore parse create ping cfg =
     (case parse (pg_DSN cfg) of
        Inl e \<Rightarrow> (Inl (Err ''parse postgres DSN: %w'' [FErr e]), [])
      | Inr p \<Rightarrow>
          (case create (pool_settings cfg p) of
             Inl e \<Rightarrow> (Inl (Err ''create postgres pool: %w'' [FErr e]), [])
           | Inr pool \<Rightarrow>
               (case ping pool of
                  Some e \<Rightarrow> (Inl (Err ''ping postgres: %w'' [FErr e]), [pool])
                | None \<Rightarrow> (Inr pool, []))))"

text \<open>All statements of the schema are \<^verbatim>\<open>IF NOT EXISTS\<close> and run in one transaction.\<close>

definition Migrate :: "pg_world \<Rightarrow> pg_tables \<Rightarrow> err option \<times> pg_tables" where
  "Migrate w db =
     (let (r, db) = pool_Exec w ''Migrate'' (\<lambda>db. Inr (0, db\<lparr>pt_schema := True\<rparr>)) db
      in (exec_error r, db))"

section \<open>DAGs\<close>

definition upsert_dag :: "pg_world \<Rightarrow> dag_row \<Rightarrow> (nat \<times> pg_tables) stmt" where
  "upsert_dag w row db =
     (if \<not> int4 (dr_version row) then Inl (pw_refuse w ''int4'')
      else case fmlookup (pt_dags db) (dr_id row) of
        None \<Rightarrow> Inr (1, db\<lparr>pt_dags := fmupd (dr_id row) row (pt_dags db)\<rparr>)
      | Some old \<Rightarrow>
          Inr (1, db\<lparr>pt_dags := fmupd (dr_id row)
            (old\<lparr>dr_name := dr_name row, dr_description := dr_description row, dr_spec := dr_spec row,
                 dr_version := dr_version row, dr_updated_at := dr_updated_at row\<rparr>) (pt_dags db)\<rparr>))"

definition pg_SaveDAG :: "pg_world \<Rightarrow> dag \<Rightarrow> pg_tables \<Rightarrow> err option \<times> pg_tables" where
  "pg_SaveDAG w d db =
     (case pw_marshal w d of
        Inl e \<Rightarrow> (Some (Err ''marshal DAG spec: %w'' [FErr e]), db)
      | Inr spec \<Rightarrow>
          (let now = pw_stamp w (pw_now w (dag_ID d));
               (r, db) = pool_Exec w ''SaveDAG'' (on_schema w (upsert_dag w
                 \<lparr>dr_id = dag_ID d, dr_name = dag_Name d, dr_description = Description d,
                  dr_spec = pw_jsonb w spec, dr_version = Version d,
                  dr_created_at = now, dr_updated_at = now\<rparr>)) db
           in (exec_error r, db)))"

text \<open>\<^verbatim>\<open>SELECT ... WHERE id = $1\<close>\<close>

definition by_id :: "(pg_tables \<Rightarrow> (string, 'r) fmap) \<Rightarrow> string \<Rightarrow> 'r list stmt" where
  "by_id tab i db = Inr (case fmlookup (tab db) i of None \<Rightarrow> [] | Some r \<Rightarrow> [r])"

definition pg_GetDAG :: "pg_world \<Rightarrow> string \<Rightarrow> pg_tables \<Rightarrow> err + dag" where
  "pg_GetDAG w i db =
     (case pool_QueryRow w ''GetDAG'' (on_schema w (by_id pt_dags i)) dr_id db of
        Inl e \<Rightarrow> if e = ErrNoRows then Inl (Err ''DAG %q not found'' [FStr i]) else Inl e
      | Inr row \<Rightarrow>
          (case pw_unmarshal w (dr_spec row) of
             Inl e \<Rightarrow> Inl (Err ''unmarshal DAG spec: %w'' [FErr e])
           | Inr d \<Rightarrow> Inr d))"

text \<open>\<^verbatim>\<open>SELECT spec FROM dags ORDER BY id [LIMIT n]\<close>; of the filter only the limit is read.\<close>

definition select_dags :: "pg_world \<Rightarrow> int \<Rightarrow> dag_row list stmt" where
  "select_dags w mx db =
     (let rs = sort_key (pw_collate w \<circ> dr_id) (List.map_filter (fmlookup (pt_dags db)) (pw_dags w db))
      in Inr (if 0 < mx then take (nat mx) rs else rs))"

definition pg_ListDAGs :: "pg_world \<Rightarrow> dag_filter \<Rightarrow> pg_tables \<Rightarrow> dag list \<times> err option" where
  "pg_ListDAGs w f db =
     list_rows w ''ListDAGs'' (on_schema w (select_dags w (df_Limit f)))
       (\<lambda>row. scanned w ''ListDAGs'' (dr_id row) (pw_unmarshal w (dr_spec row))) db"

text \<open>Runs refer to their DAG: the server refuses to delete a DAG that has one.\<close>

definition delete_dag :: "pg_world \<Rightarrow> string \<Rightarrow> (nat \<times> pg_tables) stmt" where
  "delete_dag w i db =
     (if fmlookup (pt_dags db) i = None then Inr (0, db)
      else if \<not> fmpred (\<lambda>_ r. rr_dag_id r \<noteq> i) (pt_runs db) then Inl (pw_refuse w ''dag_runs_dag_id_fkey'')
      else Inr (1, db\<lparr>pt_dags := fmdrop i (pt_dags db)\<rparr>))"

definition pg_DeleteDAG :: "pg_world \<Rightarrow> string \<Rightarrow> pg_tables \<Rightarrow> err option \<times> pg_tables" where
  "pg_DeleteDAG w i db =
     (let (tag, db) = pool_Exec w ''DeleteDAG'' (on_schema w (delete_dag w i)) db
      in (case tag of
            Inl e \<Rightarrow> (Some e, db)
          | Inr n \<Rightarrow> if n = 0 then (Some (Err ''DAG %q not found'' [FStr i]), db) else (None, db)))"

section \<open>Runs\<close>

definition insert_run :: "pg_world \<Rightarrow> run_row \<Rightarrow> (nat \<times> pg_tables) stmt" where
  "insert_run w row db =
     (if \<not> int4 (status_code (rr_status row)) then Inl (pw_refuse w ''int4'')
      else if fmlookup (pt_runs db) (rr_id row) \<noteq> None then Inl (pw_refuse w ''dag_runs_pkey'')
      else if fmlookup (pt_dags db) (rr_dag_id row) = None then Inl (pw_refuse w ''dag_runs_dag_id_fkey'')
      else Inr (1, db\<lparr>pt_runs := fmupd (rr_id row) row (pt_runs db)\<rparr>))"

definition pg_CreateRun :: "pg_world \<Rightarrow> dag_run \<Rightarrow> pg_tables \<Rightarrow> err option \<times> pg_tables" where
  "pg_CreateRun w r db =
     (let params = pw_params w (run_Params r);
          now = pw_stamp w (pw_now w (run_ID r));
          (res, db) = pool_Exec w ''CreateRun'' (on_schema w (insert_run w
            \<lparr>rr_id = run_ID r, rr_dag_id = run_DAGID r, rr_status = run_Status r,
             rr_params = pw_jsonb w params, rr_start_time = pw_stamp w (run_StartTime r),
             rr_end_time = pw_stamp w (run_EndTime r), rr_created_at = now, rr_updated_at = now\<rparr>)) db
      in (exec_error res, db))"

definition scan_run :: "pg_world \<Rightarrow> run_row \<Rightarrow> dag_run" where
  "scan_run w row =
     \<lparr>run_ID = rr_id row, run_DAGID = rr_dag_id row, run_Status = rr_status row,
      run_Params = pw_unparams w (rr_params row), run_StartTime = rr_start_time row,
      run_EndTime = rr_end_time row, run_CreatedAt = rr_created_at row, run_UpdatedAt = rr_updated_at row\<rparr>"

definition pg_GetRun :: "pg_world \<Rightarrow> string \<Rightarrow> pg_tables \<Rightarrow> err + dag_run" where
  "pg_GetRun w i db =
     (case pool_QueryRow w ''GetRun'' (on_schema w (by_id pt_runs i)) rr_id db of
        Inl e \<Rightarrow> if e = ErrNoRows then Inl (Err ''run %q not found'' [FStr i]) else Inl e
      | Inr row \<Rightarrow> Inr (scan_run w row))"

definition update_run :: "pg_world \<Rightarrow> dag_run \<Rightarrow> time \<Rightarrow> (nat \<times> pg_tables) stmt" where
  "update_run w r now db =
     (if \<not> int4 (status_code (run_Status r)) then Inl (pw_refuse w ''int4'')
      else case fmlookup (pt_runs db) (run_ID r) of
        None \<Rightarrow> Inr (0, db)
      | Some row \<Rightarrow>
          Inr (1, db\<lparr>pt_runs := fmupd (run_ID r)
            (row\<lparr>rr_status := run_Status r, rr_start_time := pw_stamp w (run_StartTime r),
                 rr_end_time := pw_stamp w (run_EndTime r), rr_updated_at := pw_stamp w now\<rparr>)
            (pt_runs db)\<rparr>))"

definition pg_UpdateRun :: "pg_world \<Rightarrow> dag_run \<Rightarrow> pg_tables \<Rightarrow> err option \<times> pg_tables" where
  "pg_UpdateRun w r db =
     (let (res, db) = pool_Exec w ''UpdateRun'' (on_schema w (update_run w r (pw_now w (run_ID r)))) db
      in (exec_error res, db))"

text \<open>
  The query of \<open>ListRuns\<close> is put together from clauses, with numbered placeholders for its
  arguments.
\<close>

datatype sql_arg = AText string | AStatus status

datatype run_clause = AndEq string int | OrderByCreatedDesc | OffsetN int | LimitN int

fun clause_sql :: "run_clause \<Rightarrow> string" where
  "clause_sql (AndEq col n) = '' AND '' @ col @ '' = $'' @ int_dec n"
| "clause_sql OrderByCreatedDesc = '' ORDER BY created_at DESC''"
| "clause_sql (OffsetN n) = '' OFFSET '' @ int_dec n"
| "clause_sql (LimitN n) = '' LIMIT '' @ int_dec n"

definition runs_query :: "run_filter \<Rightarrow> run_clause list \<times> sql_arg list" where
  "runs_query f =
     (let (query, args, argIdx) = ([], [], 1);
          (query, args, argIdx) =
            (if rf_DAGID f \<noteq> ''''
             then (query @ [AndEq ''dag_id'' argIdx], args @ [AText (rf_DAGID f)], argIdx + 1)
             else (query, args, argIdx));
          (query, args, argIdx) =
            (case rf_Status f of
               Some st \<Rightarrow> (query @ [AndEq ''status'' argIdx], args @ [AStatus st], argIdx + 1)
             | None \<Rightarrow> (query, args, argIdx));
          query = query @ [OrderByCreatedDesc];
          query = (if 0 < rf_Offset f then query @ [OffsetN (rf_Offset f)] else query);
          query = (if 0 < rf_Limit f then query @ [LimitN (rf_Limit f)] else query)
      in (query, args))"

text \<open>
  How the server evaluates it: the placeholders must be the numbers of the arguments, the conditions are
  joined, the result is ordered, and the offset is taken before the limit wherever they stand.
\<close>

fun placeholders :: "run_clause list \<Rightarrow> int list" where
  "placeholders (AndEq col n # cs) = n # placeholders cs"
| "placeholders (c # cs) = placeholders cs"
| "placeholders [] = []"

definition run_cell :: "run_row \<Rightarrow> string \<Rightarrow> sql_arg option" where
  "run_cell r col =
     (if col = ''dag_id'' then Some (AText (rr_dag_id r))
      else if col = ''status'' then Some (AStatus (rr_status r)) else None)"

fun holds :: "sql_arg list \<Rightarrow> run_row \<Rightarrow> run_clause \<Rightarrow> bool" where
  "holds args r (AndEq col n) \<longleftrightarrow> run_cell r col = Some (args ! nat (n - 1))"
| "holds args r c \<longleftrightarrow> True"

fun clause_offset :: "run_clause \<Rightarrow> 'r list \<Rightarrow> 'r list" where
  "clause_offset (OffsetN n) = drop (nat n)"
| "clause_offset c = id"

fun clause_limit :: "run_clause \<Rightarrow> 'r list \<Rightarrow> 'r list" where
  "clause_limit (LimitN n) = take (nat n)"
| "clause_limit c = id"

definition select_runs :: "pg_world \<Rightarrow> run_clause list \<times> sql_arg list \<Rightarrow> run_row list stmt" where
  "select_runs w q db =
     (let (cs, args) = q in
      if sort (placeholders cs) \<noteq> [1..int (length args)] then Inl (pw_refuse w ''parameters'')
      else
        let rs = filter (\<lambda>r. list_all (holds args r) cs)
                   (List.map_filter (fmlookup (pt_runs db)) (pw_runs w db));
            rs = (if OrderByCreatedDesc \<in> set cs then sort_key (\<lambda>r. - rr_created_at r) rs else rs)
        in Inr (fold clause_limit cs (fold clause_offset cs rs)))"

definition pg_ListRuns :: "pg_world \<Rightarrow> run_filter \<Rightarrow> pg_tables \<Rightarrow> dag_run list \<times> err option" where
  "pg_ListRuns w f db =
     list_rows w ''ListRuns'' (on_schema w (select_runs w (runs_query f)))
       (\<lambda>row. scanned w ''ListRuns'' (rr_id row) (Inr (scan_run w row))) db"

section \<open>Task instances\<close>

text \<open>The times of a row are kept as the columns keep them.\<close>

definition ti_row :: "pg_world \<Rightarrow> task_instance \<Rightarrow> task_instance" where
  "ti_row w ti = ti\<lparr>ti_StartTime := pw_stamp w (ti_StartTime ti), ti_EndTime := pw_stamp w (ti_EndTime ti),
     QueuedAt := pw_stamp w (QueuedAt ti)\<rparr>"

definition insert_ti :: "pg_world \<Rightarrow> task_instance \<Rightarrow> (nat \<times> pg_tables) stmt" where
  "insert_ti w row db =
     (if \<not> int4 (status_code (ti_Status row)) \<or> \<not> int4 (Attempt row) then Inl (pw_refuse w ''int4'')
      else if fmlookup (pt_tis db) (ti_ID row) \<noteq> None then Inl (pw_refuse w ''task_instances_pkey'')
      else if \<not> fmpred (\<lambda>_ ti. IdempotencyKey ti \<noteq> IdempotencyKey row) (pt_tis db)
      then Inl (pw_refuse w ''task_instances_idempotency_key_key'')
      else if fmlookup (pt_runs db) (ti_RunID row) = None
      then Inl (pw_refuse w ''task_instances_run_id_fkey'')
      else Inr (1, db\<lparr>pt_tis := fmupd (ti_ID row) row (pt_tis db)\<rparr>))"

definition pg_CreateTaskInstance ::
  "pg_world \<Rightarrow> task_instance \<Rightarrow> pg_tables \<Rightarrow> err option \<times> pg_tables" where
  "pg_CreateTaskInstance w ti db =
     (let (r, db) = pool_Exec w ''CreateTaskInstance'' (on_schema w (insert_ti w (ti_row w ti))) db
      in (exec_error r, db))"

definition pg_GetTaskInstance :: "pg_world \<Rightarrow> string \<Rightarrow> pg_tables \<Rightarrow> err + task_instance" where
  "pg_GetTaskInstance w i db =
     (case pool_QueryRow w ''GetTaskInstance'' (on_schema w (by_id pt_tis i)) ti_ID db of
        Inl e \<Rightarrow> if e = ErrNoRows then Inl (Err ''task instance %q not found'' [FStr i]) else Inl e
      | Inr ti \<Rightarrow> Inr ti)"

definition update_ti :: "pg_world \<Rightarrow> task_instance \<Rightarrow> (nat \<times> pg_tables) stmt" where
  "update_ti w ti db =
     (if \<not> int4 (status_code (ti_Status ti)) \<or> \<not> int4 (Attempt ti) then Inl (pw_refuse w ''int4'')
      else case fmlookup (pt_tis db) (ti_ID ti) of
        None \<Rightarrow> Inr (0, db)
      | Some row \<Rightarrow>
          Inr (1, db\<lparr>pt_tis := fmupd (ti_ID ti)
            (row\<lparr>ti_Status := ti_Status ti, Attempt := Attempt ti, WorkerID := WorkerID ti,
                 ti_Output := ti_Output ti, ti_Error := ti_Error ti,
                 ti_StartTime := pw_stamp w (ti_StartTime ti),
                 ti_EndTime := pw_stamp w (ti_EndTime ti)\<rparr>) (pt_tis db)\<rparr>))"

definition pg_UpdateTaskInstance ::
  "pg_world \<Rightarrow> task_instance \<Rightarrow> pg_tables \<Rightarrow> err option \<times> pg_tables" where
  "pg_UpdateTaskInstance w ti db =
     (let (r, db) = pool_Exec w ''UpdateTaskInstance'' (on_schema w (update_ti w ti)) db
      in (exec_error r, db))"

definition select_tis ::
  "pg_world \<Rightarrow> (task_instance \<Rightarrow> bool) \<Rightarrow> task_instance list stmt" where
  "select_tis w p db = Inr (filter p (List.map_filter (fmlookup (pt_tis db)) (pw_tis w db)))"

definition select_tis_of_run :: "pg_world \<Rightarrow> string \<Rightarrow> task_instance list stmt" where
  "select_tis_of_run w rid db =
     (case select_tis w (\<lambda>ti. ti_RunID ti = rid) db of
        Inl e \<Rightarrow> Inl e
      | Inr rs \<Rightarrow> Inr (sort_key (pw_collate w \<circ> ti_TaskID) rs))"

definition pg_ListTaskInstances ::
  "pg_world \<Rightarrow> string \<Rightarrow> pg_tables \<Rightarrow> task_instance list \<times> err option" where
  "pg_ListTaskInstances w rid db =
     list_rows w ''ListTaskInstances'' (on_schema w (select_tis_of_run w rid))
       (\<lambda>ti. scanned w ''ListTaskInstances'' (ti_ID ti) (Inr ti)) db"

definition pg_GetTaskInstanceByIdempotencyKey ::
  "pg_world \<Rightarrow> string \<Rightarrow> pg_tables \<Rightarrow> err + task_instance" where
  "pg_GetTaskInstanceByIdempotencyKey w k db =
     (case pool_QueryRow w ''GetTaskInstanceByIdempotencyKey''
             (on_schema w (select_tis w (\<lambda>ti. IdempotencyKey ti = k))) ti_ID db of
        Inl e \<Rightarrow> if e = ErrNoRows then Inl (Err ''no task instance with idempotency key %q'' [FStr k])
                 else Inl e
      | Inr ti \<Rightarrow> Inr ti)"

definition pg_Ping :: "pg_world \<Rightarrow> pg_tables \<Rightarrow> err option" where
  "pg_Ping w db = map_option fst (pw_lost w ''Ping'' db)"

text \<open>With the pools closed so far.\<close>

definition pg_Close :: "'p \<Rightarrow> 'p list \<Rightarrow> err option \<times> 'p list" where
  "pg_Close pool gone = (None, gone @ [pool])"

section \<open>The constraints hold in every reachable database\<close>

definition pg_wf :: "pg_tables \<Rightarrow> bool" where
  "pg_wf db \<longleftrightarrow>
     fmpred (\<lambda>i row. dr_id row = i) (pt_dags db) \<and>
     fmpred (\<lambda>i row. rr_id row = i \<and> rr_dag_id row \<in> fmdom' (pt_dags db)) (pt_runs db) \<and>
     fmpred (\<lambda>i ti. ti_ID ti = i \<and> ti_RunID ti \<in> fmdom' (pt_runs db)) (pt_tis db) \<and>
     (\<forall>i j a b. fmlookup (pt_tis db) i = Some a \<longrightarrow> fmlookup (pt_tis db) j = Some b \<longrightarrow>
        IdempotencyKey a = IdempotencyKey b \<longrightarrow> i = j)"

lemma pg_wfD:
  assumes "pg_wf db"
  shows "fmlookup (pt_dags db) i = Some row \<Longrightarrow> dr_id row = i"
    and "fmlookup (pt_runs db) i = Some r \<Longrightarrow> rr_id r = i"
    and "fmlookup (pt_runs db) i = Some r \<Longrightarrow> rr_dag_id r \<in> fmdom' (pt_dags db)"
    and "fmlookup (pt_tis db) i = Some ti \<Longrightarrow> ti_ID ti = i"
    and "fmlookup (pt_tis db) i = Some ti \<Longrightarrow> ti_RunID ti \<in> fmdom' (pt_runs db)"
    and "fmlookup (pt_tis db) i = Some ti \<Longrightarrow> fmlookup (pt_tis db) j = Some ti' \<Longrightarrow>
      IdempotencyKey ti = IdempotencyKey ti' \<Longrightarrow> i = j"
  using assms by (auto simp: pg_wf_def dest: fmpredD)

lemmas pg_wf_lookups = pg_wf_def fmpred_iff fmlookup_dom'_iff

lemma upsert_dag_wf: "pg_wf db \<Longrightarrow> upsert_dag w row db = Inr (n, db') \<Longrightarrow> pg_wf db'"
  by (fastforce simp: upsert_dag_def pg_wf_lookups split: if_splits option.splits)

lemma delete_dag_wf: "pg_wf db \<Longrightarrow> delete_dag w i db = Inr (n, db') \<Longrightarrow> pg_wf db'"
  by (fastforce simp: delete_dag_def pg_wf_lookups split: if_splits)

lemma insert_run_wf: "pg_wf db \<Longrightarrow> insert_run w row db = Inr (n, db') \<Longrightarrow> pg_wf db'"
  by (fastforce simp: insert_run_def pg_wf_lookups split: if_splits)

lemma update_run_wf: "pg_wf db \<Longrightarrow> update_run w r now db = Inr (n, db') \<Longrightarrow> pg_wf db'"
  by (fastforce simp: update_run_def pg_wf_lookups split: if_splits option.splits)

lemma insert_ti_wf: "pg_wf db \<Longrightarrow> insert_ti w row db = Inr (n, db') \<Longrightarrow> pg_wf db'"
  by (fastforce simp: insert_ti_def pg_wf_lookups split: if_splits)

lemma update_ti_wf: "pg_wf db \<Longrightarrow> update_ti w ti db = Inr (n, db') \<Longrightarrow> pg_wf db'"
  by (fastforce simp: update_ti_def pg_wf_lookups split: if_splits option.splits)

lemmas stmt_wf = upsert_dag_wf delete_dag_wf insert_run_wf update_run_wf insert_ti_wf update_ti_wf

text \<open>Lost connections included: a statement ran as a whole or not at all.\<close>

lemma pool_Exec_wf:
  assumes "pg_wf db" "\<And>n db'. st db = Inr (n, db') \<Longrightarrow> pg_wf db'"
  shows "pg_wf (snd (pool_Exec w call (on_schema w st) db))"
  using assms by (auto simp: pool_Exec_def on_schema_def split: option.splits sum.splits)

inductive pg_reach :: "pg_tables \<Rightarrow> bool" where
  fresh: "pg_reach pg_fresh"
| migrate: "pg_reach db \<Longrightarrow> pg_reach (snd (Migrate w db))"
| save_dag: "pg_reach db \<Longrightarrow> pg_reach (snd (pg_SaveDAG w d db))"
| delete_dag: "pg_reach db \<Longrightarrow> pg_reach (snd (pg_DeleteDAG w i db))"
| create_run: "pg_reach db \<Longrightarrow> pg_reach (snd (pg_CreateRun w r db))"
| update_run: "pg_reach db \<Longrightarrow> pg_reach (snd (pg_UpdateRun w r db))"
| create_ti: "pg_reach db \<Longrightarrow> pg_reach (snd (pg_CreateTaskInstance w ti db))"
| update_ti: "pg_reach db \<Longrightarrow> pg_reach (snd (pg_UpdateTaskInstance w ti db))"

lemma snd_DeleteDAG:
  "snd (pg_DeleteDAG w i db) = snd (pool_Exec w ''DeleteDAG'' (on_schema w (delete_dag w i)) db)"
  by (simp add: pg_DeleteDAG_def split: prod.splits sum.splits)

lemmas pg_write_defs = pg_SaveDAG_def pg_CreateRun_def pg_UpdateRun_def pg_CreateTaskInstance_def
  pg_UpdateTaskInstance_def

lemma pg_wf_fresh [simp]: "pg_wf pg_fresh"
  by (simp add: pg_fresh_def pg_wf_def)

lemma pg_reach_wf: "pg_reach db \<Longrightarrow> pg_wf db"
proof (induction rule: pg_reach.induct)
  case (migrate db w)
  then show ?case by (auto simp: Migrate_def pool_Exec_def pg_wf_def split: option.splits)
next
  case (save_dag db w d)
  then show ?case
    by (auto simp: pg_SaveDAG_def case_prod_unfold Let_def split: sum.split intro: pool_Exec_wf stmt_wf)
qed (auto simp: snd_DeleteDAG pg_write_defs
       case_prod_unfold Let_def intro: pool_Exec_wf stmt_wf)

section \<open>What the code asks of ListRuns\<close>

text \<open>The rows that \<open>runs_query\<close> selects, said without clauses and placeholders.\<close>

definition row_passes :: "run_filter \<Rightarrow> run_row \<Rightarrow> bool" where
  "row_passes f r \<longleftrightarrow> (rf_DAGID f = '''' \<or> rr_dag_id r = rf_DAGID f) \<and>
     (\<forall>st. rf_Status f = Some st \<longrightarrow> rr_status r = st)"

definition page :: "int \<Rightarrow> int \<Rightarrow> 'a list \<Rightarrow> 'a list" where
  "page off mx xs = (let xs = drop (nat off) xs in if 0 < mx then take (nat mx) xs else xs)"

lemma select_runs_query:
  "select_runs w (runs_query f) db =
     Inr (page (rf_Offset f) (rf_Limit f) (sort_key (\<lambda>r. - rr_created_at r)
       (filter (row_passes f) (List.map_filter (fmlookup (pt_runs db)) (pw_runs w db)))))"
  by (cases "rf_Status f"; cases "rf_DAGID f = ''''")
     (simp_all add: select_runs_def runs_query_def row_passes_def [abs_def] page_def run_cell_def
        upto.simps Let_def)

lemma scan_rows_ok:
  "(\<And>r. r \<in> set rs \<Longrightarrow> dec r = Inr (f r)) \<Longrightarrow> scan_rows dec rs acc = Inr (acc @ map f rs)"
  by (induction rs arbitrary: acc) auto

text \<open>A world in which no call fails and text is ordered bytewise.\<close>

definition pg_plain :: "pg_world \<Rightarrow> bool" where
  "pg_plain w \<longleftrightarrow> pw_lost w = (\<lambda>_ _. None) \<and> pw_cut w = (\<lambda>_ _. None) \<and> pw_scan w = (\<lambda>_ _. None) \<and>
     pw_collate w = (\<lambda>x. x)"

lemma plain_Exec:
  "pg_plain w \<Longrightarrow> pool_Exec w call st db = (case st db of Inl e \<Rightarrow> (Inl e, db) | Inr (n, db') \<Rightarrow> (Inr n, db'))"
  by (simp add: pool_Exec_def pg_plain_def)

lemma plain_QueryRow:
  "pg_plain w \<Longrightarrow> pool_QueryRow w call st key db =
     (case st db of Inl e \<Rightarrow> Inl e | Inr [] \<Rightarrow> Inl ErrNoRows | Inr (r # _) \<Rightarrow> Inr r)"
  by (simp add: pool_QueryRow_def pool_Query_def pg_plain_def split: sum.split list.split)

lemma plain_list_rows:
  assumes "pg_plain w" "st db = Inr rs" "\<And>r. r \<in> set rs \<Longrightarrow> dec r = Inr (f r)"
  shows "list_rows w call st dec db = (map f rs, None)"
  using assms scan_rows_ok [of rs dec f "[]"]
  by (simp add: list_rows_def pool_Query_def pg_plain_def)

lemma plain_scanned: "pg_plain w \<Longrightarrow> scanned w call key r = r"
  by (simp add: scanned_def pg_plain_def)

lemmas plain_simps = plain_Exec plain_QueryRow plain_scanned on_schema_def

lemma map_filter_total:
  "(\<And>k. k \<in> set ks \<Longrightarrow> f k \<noteq> None) \<Longrightarrow> List.map_filter f ks = map (\<lambda>k. the (f k)) ks"
  by (induction ks) (auto simp: List.map_filter_def)

lemma map_filter_map_option:
  "List.map_filter (\<lambda>k. map_option g (f k)) ks = map g (List.map_filter f ks)"
  by (induction ks) (auto simp: List.map_filter_def)

lemma lookup_fmmap: "fmlookup (fmmap g m) = (\<lambda>k. map_option g (fmlookup m k))"
  by (rule ext) simp

lemma sort_key_map: "sort_key k (map g xs) = map g (sort_key (\<lambda>x. k (g x)) xs)"
proof -
  have ins: "insort_key k (g x) (map g ys) = map g (insort_key (\<lambda>x. k (g x)) x ys)" for x ys
    by (induction ys) auto
  show ?thesis by (induction xs) (simp_all add: ins)
qed

section \<open>A DAG that went through JSON\<close>

text \<open>
  \<^verbatim>\<open>encoding/json\<close> reads every number of a value of type \<^verbatim>\<open>any\<close> back as a \<^verbatim>\<open>float64\<close>; the other fields
  of a DAG have types of their own and come back as they were.
\<close>

primrec json_any :: "gval \<Rightarrow> gval" where
  "json_any VNil = VNil"
| "json_any (VStr s) = VStr s"
| "json_any (VInt n) = VFloat (f64_of_int n)"
| "json_any (VFloat x) = VFloat x"
| "json_any (VBool b) = VBool b"
| "json_any (VList vs) = VList (map json_any vs)"
| "json_any (VMap m) = VMap (fmmap json_any m)"

definition json_dag :: "dag \<Rightarrow> dag" where
  "json_dag d = d\<lparr>Tasks := fmmap (\<lambda>t. t\<lparr>Config := fmmap json_any (Config t)\<rparr>) (Tasks d)\<rparr>"

definition stored_as :: "dag \<Rightarrow> dag \<Rightarrow> bool" where
  "stored_as d' d \<longleftrightarrow> d' = (json_dag d)\<lparr>dag_CreatedAt := dag_CreatedAt d', dag_UpdatedAt := dag_UpdatedAt d'\<rparr>"

section \<open>PostgresStore against MemoryStore\<close>

datatype store_call = CallSaveDAG dag | CallGetDAG string | CallListDAGs dag_filter
  | CallDeleteDAG string | CallCreateRun dag_run | CallGetRun string | CallUpdateRun dag_run
  | CallListRuns run_filter | CallCreateTaskInstance task_instance | CallGetTaskInstance string
  | CallUpdateTaskInstance task_instance | CallListTaskInstances string
  | CallGetTaskInstanceByIdempotencyKey string

datatype reply = RDone "err option" | RDAG "err + dag" | RDAGs "dag list" "err option"
  | RRun "err + dag_run" | RRuns "dag_run list" "err option"
  | RTI "err + task_instance" | RTIs "task_instance list" "err option"

fun pg_step :: "pg_world \<Rightarrow> store_call \<Rightarrow> pg_tables \<Rightarrow> reply \<times> pg_tables" where
  "pg_step w (CallSaveDAG d) db = map_prod RDone id (pg_SaveDAG w d db)"
| "pg_step w (CallGetDAG i) db = (RDAG (pg_GetDAG w i db), db)"
| "pg_step w (CallListDAGs f) db = (case_prod RDAGs (pg_ListDAGs w f db), db)"
| "pg_step w (CallDeleteDAG i) db = map_prod RDone id (pg_DeleteDAG w i db)"
| "pg_step w (CallCreateRun r) db = map_prod RDone id (pg_CreateRun w r db)"
| "pg_step w (CallGetRun i) db = (RRun (pg_GetRun w i db), db)"
| "pg_step w (CallUpdateRun r) db = map_prod RDone id (pg_UpdateRun w r db)"
| "pg_step w (CallListRuns f) db = (case_prod RRuns (pg_ListRuns w f db), db)"
| "pg_step w (CallCreateTaskInstance ti) db = map_prod RDone id (pg_CreateTaskInstance w ti db)"
| "pg_step w (CallGetTaskInstance i) db = (RTI (pg_GetTaskInstance w i db), db)"
| "pg_step w (CallUpdateTaskInstance ti) db = map_prod RDone id (pg_UpdateTaskInstance w ti db)"
| "pg_step w (CallListTaskInstances r) db = (case_prod RTIs (pg_ListTaskInstances w r db), db)"
| "pg_step w (CallGetTaskInstanceByIdempotencyKey k) db =
     (RTI (pg_GetTaskInstanceByIdempotencyKey w k db), db)"

text \<open>A call of the memory store: with an error its state is the one before.\<close>

definition mem_write :: "err + memory_store \<Rightarrow> memory_store \<Rightarrow> reply \<times> memory_store" where
  "mem_write r s = (case r of Inl e \<Rightarrow> (RDone (Some e), s) | Inr s' \<Rightarrow> (RDone None, s'))"

definition mem_list :: "('a list \<Rightarrow> err option \<Rightarrow> reply) \<Rightarrow> err + 'a list \<Rightarrow> reply" where
  "mem_list R r = (case r of Inl e \<Rightarrow> R [] (Some e) | Inr xs \<Rightarrow> R xs None)"

fun mem_step :: "mem_world \<Rightarrow> store_call \<Rightarrow> memory_store \<Rightarrow> reply \<times> memory_store" where
  "mem_step m (CallSaveDAG d) s = mem_write (map_sum id snd (SaveDAG (mw_now m (dag_ID d)) d s)) s"
| "mem_step m (CallGetDAG i) s = (RDAG (GetDAG i s), s)"
| "mem_step m (CallListDAGs f) s = (mem_list RDAGs (ListDAGs (mw_dags m s) f s), s)"
| "mem_step m (CallDeleteDAG i) s = mem_write (DeleteDAG i s) s"
| "mem_step m (CallCreateRun r) s = mem_write (map_sum id snd (CreateRun (mw_now m (run_ID r)) r s)) s"
| "mem_step m (CallGetRun i) s = (RRun (GetRun i s), s)"
| "mem_step m (CallUpdateRun r) s = mem_write (map_sum id snd (UpdateRun (mw_now m (run_ID r)) r s)) s"
| "mem_step m (CallListRuns f) s = (mem_list RRuns (ListRuns (mw_runs m s) f s), s)"
| "mem_step m (CallCreateTaskInstance ti) s = mem_write (CreateTaskInstance ti s) s"
| "mem_step m (CallGetTaskInstance i) s = (RTI (GetTaskInstance i s), s)"
| "mem_step m (CallUpdateTaskInstance ti) s = mem_write (UpdateTaskInstance ti s) s"
| "mem_step m (CallListTaskInstances r) s = (mem_list RTIs (ListTaskInstances (mw_tis m r s) r s), s)"
| "mem_step m (CallGetTaskInstanceByIdempotencyKey k) s = (RTI (GetTaskInstanceByIdempotencyKey k s), s)"

text \<open>
  An instance as far as it is compared: with \<open>q\<close> all of it, without \<open>q\<close> all but the time it was queued at, which
  the \<^verbatim>\<open>UPDATE\<close> of PostgresStore does not write.
\<close>

definition ti_seen :: "bool \<Rightarrow> task_instance \<Rightarrow> task_instance" where
  "ti_seen q ti = (if q then ti else ti\<lparr>QueuedAt := 0\<rparr>)"

lemma ti_seen_all [simp]: "ti_seen True = (\<lambda>ti. ti)"
  by (rule ext) (simp add: ti_seen_def)

lemma ti_seen_fields [simp]:
  "ti_ID (ti_seen q ti) = ti_ID ti" "ti_RunID (ti_seen q ti) = ti_RunID ti" "ti_TaskID (ti_seen q ti) = ti_TaskID ti"
  "ti_DAGID (ti_seen q ti) = ti_DAGID ti" "IdempotencyKey (ti_seen q ti) = IdempotencyKey ti"
  by (simp_all add: ti_seen_def)

text \<open>
  The replies agree: a write fails in both stores or in none, a DAG is the same up to JSON and the
  times, an instance is the same as far as it is compared, and everything else is the same.
\<close>

fun agree :: "bool \<Rightarrow> reply \<Rightarrow> reply \<Rightarrow> bool" where
  "agree q (RDone e) (RDone e') \<longleftrightarrow> (e = None \<longleftrightarrow> e' = None)"
| "agree q (RDAG r) (RDAG r') \<longleftrightarrow> rel_sum (=) stored_as r r'"
| "agree q (RDAGs ds e) (RDAGs ds' e') \<longleftrightarrow> list_all2 stored_as ds ds' \<and> e = e'"
| "agree q (RTI r) (RTI r') \<longleftrightarrow> map_sum id (ti_seen q) r = map_sum id (ti_seen q) r'"
| "agree q (RTIs ts e) (RTIs ts' e') \<longleftrightarrow> map (ti_seen q) ts = map (ti_seen q) ts' \<and> e = e'"
| "agree q r r' \<longleftrightarrow> r = r'"

definition pg_sim :: "bool \<Rightarrow> pg_world \<Rightarrow> pg_tables \<Rightarrow> memory_store \<Rightarrow> bool" where
  "pg_sim q w db s \<longleftrightarrow> pt_schema db \<and> pg_wf db \<and> store_wf s \<and>
     (\<forall>i. rel_option (\<lambda>row d. \<exists>d'. pw_unmarshal w (dr_spec row) = Inr d' \<and> stored_as d' d)
       (fmlookup (pt_dags db) i) (fmlookup (dags s) i)) \<and>
     runs s = fmmap (scan_run w) (pt_runs db) \<and> 
     fmmap (ti_seen q) (taskInstances s) = fmmap (ti_seen q) (pt_tis db) \<and>
     (\<forall>k i. k \<noteq> '''' \<longrightarrow> (fmlookup (idempotencyIdx s) k = Some i \<longleftrightarrow>
        (\<exists>ti. fmlookup (pt_tis db) i = Some ti \<and> IdempotencyKey ti = k)))"

text \<open>
  The calls on which the two stores agree. They exclude what PostgreSQL refuses (a number out of range, a
  run of an unknown DAG, the deletion of a DAG with runs, an instance of an unknown run or with a used or
  empty key), what it does silently (updating a missing row, or columns that \<^verbatim>\<open>UPDATE\<close> does not name, but for the
  time an instance was queued at, which is only kept if it is compared), and
  where the memory store is odd (filters of DAGs, which PostgreSQL ignores, and an offset past the end).
\<close>

definition kept :: "pg_world \<Rightarrow> time \<Rightarrow> bool" where
  "kept w t \<longleftrightarrow> pw_stamp w t = t"

fun fits :: "bool \<Rightarrow> pg_world \<Rightarrow> mem_world \<Rightarrow> store_call \<Rightarrow> pg_tables \<Rightarrow> memory_store \<Rightarrow> bool" where
  "fits q w m (CallSaveDAG d) db s \<longleftrightarrow> int4 (Version d) \<and>
     (\<exists>j. pw_marshal w d = Inr j \<and> pw_unmarshal w (pw_jsonb w j) = Inr (json_dag d))"
| "fits q w m (CallListDAGs f) db s \<longleftrightarrow> df_Tags f = [] \<and> df_Owner f = '''' \<and>
     mw_dags m s = pw_dags w db \<and> ranges (pw_dags w db) (pt_dags db)"
| "fits q w m (CallDeleteDAG i) db s \<longleftrightarrow> fmpred (\<lambda>_ r. run_DAGID r \<noteq> i) (runs s)"
| "fits q w m (CallCreateRun r) db s \<longleftrightarrow> int4 (status_code (run_Status r)) \<and>
     fmlookup (dags s) (run_DAGID r) \<noteq> None \<and> pw_unparams w (pw_jsonb w (pw_params w (run_Params r))) = run_Params r \<and>
     mw_now m (run_ID r) = pw_now w (run_ID r) \<and>
     kept w (run_StartTime r) \<and> kept w (run_EndTime r) \<and> kept w (pw_now w (run_ID r))"
| "fits q w m (CallUpdateRun r) db s \<longleftrightarrow> int4 (status_code (run_Status r)) \<and>
     (\<exists>q. fmlookup (runs s) (run_ID r) = Some q \<and> run_DAGID q = run_DAGID r \<and>
          run_Params q = run_Params r \<and> run_CreatedAt q = run_CreatedAt r) \<and>
     mw_now m (run_ID r) = pw_now w (run_ID r) \<and>
     kept w (run_StartTime r) \<and> kept w (run_EndTime r) \<and> kept w (pw_now w (run_ID r))"
| "fits q w m (CallListRuns f) db s \<longleftrightarrow> mw_runs m s = pw_runs w db \<and>
     (rf_Offset f \<le> 0 \<or>
      rf_Offset f < int (length (filter (run_passes f) (List.map_filter (fmlookup (runs s)) (pw_runs w db)))))"
| "fits q w m (CallCreateTaskInstance ti) db s \<longleftrightarrow> int4 (status_code (ti_Status ti)) \<and> int4 (Attempt ti) \<and>
     IdempotencyKey ti \<noteq> '''' \<and> fmpred (\<lambda>_ t. IdempotencyKey t \<noteq> IdempotencyKey ti) (taskInstances s) \<and>
     fmlookup (runs s) (ti_RunID ti) \<noteq> None \<and>
     kept w (ti_StartTime ti) \<and> kept w (ti_EndTime ti) \<and> kept w (QueuedAt ti)"
| "fits q w m (CallUpdateTaskInstance ti) db s \<longleftrightarrow> int4 (status_code (ti_Status ti)) \<and> int4 (Attempt ti) \<and>
     (\<exists>t. fmlookup (taskInstances s) (ti_ID ti) = Some t \<and> ti_RunID t = ti_RunID ti \<and>
          ti_TaskID t = ti_TaskID ti \<and> ti_DAGID t = ti_DAGID ti \<and> (q \<longrightarrow> QueuedAt t = QueuedAt ti) \<and>
          IdempotencyKey t = IdempotencyKey ti) \<and>
     kept w (ti_StartTime ti) \<and> kept w (ti_EndTime ti)"
| "fits q w m (CallListTaskInstances r) db s \<longleftrightarrow> mw_tis m r s = pw_tis w db"
| "fits q w m (CallGetTaskInstanceByIdempotencyKey k) db s \<longleftrightarrow> k \<noteq> '''' \<and> ranges (pw_tis w db) (pt_tis db)"
| "fits q w m c db s \<longleftrightarrow> True"

fun pg_replies :: "pg_world \<Rightarrow> store_call list \<Rightarrow> pg_tables \<Rightarrow> reply list" where
  "pg_replies w [] db = []"
| "pg_replies w (c # cs) db = (case pg_step w c db of (r, db') \<Rightarrow> r # pg_replies w cs db')"

fun mem_replies :: "mem_world \<Rightarrow> store_call list \<Rightarrow> memory_store \<Rightarrow> reply list" where
  "mem_replies m [] s = []"
| "mem_replies m (c # cs) s = (case mem_step m c s of (r, s') \<Rightarrow> r # mem_replies m cs s')"

fun all_fit :: "bool \<Rightarrow> pg_world \<Rightarrow> mem_world \<Rightarrow> store_call list \<Rightarrow> pg_tables \<Rightarrow> memory_store \<Rightarrow> bool" where
  "all_fit q w m [] db s \<longleftrightarrow> True"
| "all_fit q w m (c # cs) db s \<longleftrightarrow> fits q w m c db s \<and>
     all_fit q w m cs (snd (pg_step w c db)) (snd (mem_step m c s))"

lemma pg_simD:
  assumes "pg_sim q w db s"
  shows "pt_schema db" and "pg_wf db" and "store_wf s"
    and "rel_option (\<lambda>row d. \<exists>d'. pw_unmarshal w (dr_spec row) = Inr d' \<and> stored_as d' d)
       (fmlookup (pt_dags db) i) (fmlookup (dags s) i)"
    and "runs s = fmmap (scan_run w) (pt_runs db)"
    and "fmmap (ti_seen q) (taskInstances s) = fmmap (ti_seen q) (pt_tis db)"
    and "k \<noteq> '''' \<Longrightarrow> fmlookup (idempotencyIdx s) k = Some j \<longleftrightarrow>
        (\<exists>ti. fmlookup (pt_tis db) j = Some ti \<and> IdempotencyKey ti = k)"
  using assms by (auto simp: pg_sim_def)

lemma sim_dag_None: "pg_sim q w db s \<Longrightarrow> fmlookup (pt_dags db) i = None \<longleftrightarrow> fmlookup (dags s) i = None"
  using pg_simD(4) [of q w db s i] by (cases "fmlookup (pt_dags db) i"; cases "fmlookup (dags s) i") auto

lemma SaveDAG_form:
  "\<exists>d'. SaveDAG now d s = Inr (d', s\<lparr>dags := fmupd (dag_ID d) d' (dags s)\<rparr>) \<and>
     dag_ID d' = dag_ID d \<and> stored_as (json_dag d) d'"
  by (auto simp: SaveDAG_def Let_def stored_as_def json_dag_def)

lemmas store_wf_lookups = store_wf_def fmpred_iff fmlookup_dom'_iff

lemma store_wf_put_dag: "store_wf s \<Longrightarrow> dag_ID d = i \<Longrightarrow> store_wf (s\<lparr>dags := fmupd i d (dags s)\<rparr>)"
  by (auto simp: store_wf_def)

lemma sim_put_dag:
  "pg_sim q w db s \<Longrightarrow> pg_wf (db\<lparr>pt_dags := fmupd i row (pt_dags db)\<rparr>) \<Longrightarrow>
     store_wf (s\<lparr>dags := fmupd i d (dags s)\<rparr>) \<Longrightarrow> pw_unmarshal w (dr_spec row) = Inr d' \<Longrightarrow> stored_as d' d \<Longrightarrow>
     pg_sim q w (db\<lparr>pt_dags := fmupd i row (pt_dags db)\<rparr>) (s\<lparr>dags := fmupd i d (dags s)\<rparr>)"
  by (auto simp: pg_sim_def)

text \<open>The instances of the two stores, one by one and as lists.\<close>

lemma seen_fields:
  assumes "ti_seen q t = ti_seen q t'"
  shows "ti_ID t = ti_ID t'" "ti_RunID t = ti_RunID t'" "ti_TaskID t = ti_TaskID t'" "ti_DAGID t = ti_DAGID t'"
    "IdempotencyKey t = IdempotencyKey t'" "q \<longrightarrow> QueuedAt t = QueuedAt t'"
  using assms [THEN arg_cong [where f = ti_ID]] assms [THEN arg_cong [where f = ti_RunID]]
    assms [THEN arg_cong [where f = ti_TaskID]] assms [THEN arg_cong [where f = ti_DAGID]]
    assms [THEN arg_cong [where f = IdempotencyKey]]
  by (simp_all only: ti_seen_fields) (use assms in \<open>auto simp: ti_seen_def\<close>)

lemma sim_tis:
  assumes "pg_sim q w db s"
  shows "map_option (ti_seen q) (fmlookup (taskInstances s) i) = map_option (ti_seen q) (fmlookup (pt_tis db) i)"
    and "fmlookup (taskInstances s) i = None \<longleftrightarrow> fmlookup (pt_tis db) i = None"
    and "map (ti_seen q) (List.map_filter (fmlookup (taskInstances s)) ord) =
      map (ti_seen q) (List.map_filter (fmlookup (pt_tis db)) ord)"
proof -
  show same: "map_option (ti_seen q) (fmlookup (taskInstances s) i) = map_option (ti_seen q) (fmlookup (pt_tis db) i)" for i
    using arg_cong [OF pg_simD(6) [OF assms], of "\<lambda>m. fmlookup m i"] by simp
  show "fmlookup (taskInstances s) i = None \<longleftrightarrow> fmlookup (pt_tis db) i = None"
    using same [of i] by (metis map_option_is_None)
  show "map (ti_seen q) (List.map_filter (fmlookup (taskInstances s)) ord) =
      map (ti_seen q) (List.map_filter (fmlookup (pt_tis db)) ord)"
    by (simp flip: map_filter_map_option add: same)
qed

lemma sim_ti:
  assumes "pg_sim q w db s" "fmlookup (pt_tis db) i = Some t"
  obtains t' where "fmlookup (taskInstances s) i = Some t'" "ti_seen q t' = ti_seen q t"
  using sim_tis(1) [OF assms(1), of i] assms(2) by auto

definition simulates :: "bool \<Rightarrow> pg_world \<Rightarrow> mem_world \<Rightarrow> store_call \<Rightarrow> bool" where
  "simulates q w m c \<longleftrightarrow> (\<forall>db s. pg_sim q w db s \<longrightarrow> fits q w m c db s \<longrightarrow>
     agree q (fst (pg_step w c db)) (fst (mem_step m c s)) \<and>
     pg_sim q w (snd (pg_step w c db)) (snd (mem_step m c s)))"

lemma simulatesI:
  assumes "\<And>db s. pg_sim q w db s \<Longrightarrow> fits q w m c db s \<Longrightarrow>
    agree q (fst (pg_step w c db)) (fst (mem_step m c s)) \<and>
     pg_sim q w (snd (pg_step w c db)) (snd (mem_step m c s))"
  shows "simulates q w m c"
  using assms by (simp add: simulates_def)

lemma sim_GetRun: "pg_plain w \<Longrightarrow> simulates q w m (CallGetRun i)"
  by (rule simulatesI)
     (auto simp: pg_GetRun_def plain_simps by_id_def GetRun_def pg_simD split: option.split)

lemma sim_GetTaskInstance:
  assumes w: "pg_plain w" shows "simulates q w m (CallGetTaskInstance i)"
proof (rule simulatesI)
  fix db s assume sim: "pg_sim q w db s"
  show "agree q (fst (pg_step w (CallGetTaskInstance i) db)) (fst (mem_step m (CallGetTaskInstance i) s)) \<and>
     pg_sim q w (snd (pg_step w (CallGetTaskInstance i) db)) (snd (mem_step m (CallGetTaskInstance i) s))"
    using w sim pg_simD(1) [OF sim] sim_tis(1) [OF sim, of i]
    by (cases "fmlookup (pt_tis db) i")
       (auto simp: pg_GetTaskInstance_def plain_simps by_id_def GetTaskInstance_def)
qed

lemma sim_GetDAG:
  assumes "pg_plain w" shows "simulates q w m (CallGetDAG i)"
proof (rule simulatesI)
  fix db s assume sim: "pg_sim q w db s"
  then show "agree q (fst (pg_step w (CallGetDAG i) db)) (fst (mem_step m (CallGetDAG i) s)) \<and>
     pg_sim q w (snd (pg_step w (CallGetDAG i) db)) (snd (mem_step m (CallGetDAG i) s))"
    using assms pg_simD(1) [OF sim] pg_simD(4) [OF sim, of i]
    by (auto simp: pg_GetDAG_def plain_simps by_id_def GetDAG_def split: option.splits)
qed

lemma sim_SaveDAG:
  assumes w: "pg_plain w" shows "simulates q w m (CallSaveDAG d)"
proof (rule simulatesI)
  fix db s assume sim: "pg_sim q w db s" and "fits q w m (CallSaveDAG d) db s"
  then obtain j where j: "int4 (Version d)" "pw_marshal w d = Inr j"
    "pw_unmarshal w (pw_jsonb w j) = Inr (json_dag d)" by auto
  obtain d' where d': "SaveDAG (mw_now m (dag_ID d)) d s = Inr (d', s\<lparr>dags := fmupd (dag_ID d) d' (dags s)\<rparr>)"
    "dag_ID d' = dag_ID d" "stored_as (json_dag d) d'" using SaveDAG_form by blast
  obtain row where row: "pg_SaveDAG w d db = (None, db\<lparr>pt_dags := fmupd (dag_ID d) row (pt_dags db)\<rparr>)"
    "dr_spec row = pw_jsonb w j"
    using w j pg_simD(1) [OF sim]
    by (cases "fmlookup (pt_dags db) (dag_ID d)")
       (auto simp: pg_SaveDAG_def plain_simps upsert_dag_def exec_error_def Let_def)
  have "pg_wf (snd (pg_SaveDAG w d db))" using pg_simD(2) [OF sim]
    by (auto simp: pg_SaveDAG_def case_prod_unfold Let_def split: sum.split intro: pool_Exec_wf stmt_wf)
  then show "agree q (fst (pg_step w (CallSaveDAG d) db)) (fst (mem_step m (CallSaveDAG d) s)) \<and>
     pg_sim q w (snd (pg_step w (CallSaveDAG d) db)) (snd (mem_step m (CallSaveDAG d) s))"
    using row j d' by (simp add: mem_write_def sim_put_dag [OF sim] store_wf_put_dag pg_simD(3) [OF sim])
qed

lemma scan_run_simps: "run_DAGID (scan_run w row) = rr_dag_id row" "run_Status (scan_run w row) = rr_status row"
  "run_CreatedAt (scan_run w row) = rr_created_at row"
  by (simp_all add: scan_run_def)

lemma sim_DeleteDAG:
  assumes w: "pg_plain w" shows "simulates q w m (CallDeleteDAG i)"
proof (rule simulatesI)
  fix db s assume sim: "pg_sim q w db s" and fit: "fits q w m (CallDeleteDAG i) db s"
  have fit': "fmpred (\<lambda>_ r. rr_dag_id r \<noteq> i) (pt_runs db)"
    using fit pg_simD(5) [OF sim] by (fastforce simp: fmpred_iff scan_run_simps)
  have "pg_wf (snd (pg_DeleteDAG w i db))"
    using pg_simD(2) [OF sim] by (auto simp: snd_DeleteDAG intro: pool_Exec_wf stmt_wf)
  moreover have "store_wf (s\<lparr>dags := fmdrop i (dags s)\<rparr>)"
    using pg_simD(3) [OF sim] by (auto simp: store_wf_def)
  ultimately show "agree q (fst (pg_step w (CallDeleteDAG i) db)) (fst (mem_step m (CallDeleteDAG i) s)) \<and>
     pg_sim q w (snd (pg_step w (CallDeleteDAG i) db)) (snd (mem_step m (CallDeleteDAG i) s))"
    using sim w fit' sim_dag_None [OF sim, of i] pg_simD(1) [OF sim]
    by (cases "fmlookup (dags s) i")
       (auto simp: pg_DeleteDAG_def plain_simps delete_dag_def DeleteDAG_def mem_write_def pg_sim_def)
qed

lemma fmmap_upd_scan:
  "fmmap (scan_run w) (fmupd i row m) = fmupd i (scan_run w row) (fmmap (scan_run w) m)"
  by (rule fmap_ext) simp

lemma sim_put_run:
  "pg_sim q w db s \<Longrightarrow> pg_wf (db\<lparr>pt_runs := fmupd i row (pt_runs db)\<rparr>) \<Longrightarrow> scan_run w row = r \<Longrightarrow>
     run_ID r = i \<Longrightarrow>
     pg_sim q w (db\<lparr>pt_runs := fmupd i row (pt_runs db)\<rparr>) (s\<lparr>runs := fmupd i r (runs s)\<rparr>)"
  using store_wf_run [of s r] by (auto simp: pg_sim_def fmmap_upd_scan)

lemma sim_CreateRun:
  assumes w: "pg_plain w" shows "simulates q w m (CallCreateRun r)"
proof (rule simulatesI)
  fix db s assume sim: "pg_sim q w db s" and fit: "fits q w m (CallCreateRun r) db s"
  note D = pg_simD(1,5) [OF sim]
  have none: "fmlookup (runs s) (run_ID r) = None \<longleftrightarrow> fmlookup (pt_runs db) (run_ID r) = None"
    by (simp add: D)
  have dag: "fmlookup (pt_dags db) (run_DAGID r) \<noteq> None" using fit sim_dag_None [OF sim] by auto
  have "pg_wf (snd (pg_CreateRun w r db))" using pg_simD(2) [OF sim]
    by (auto simp: pg_CreateRun_def case_prod_unfold Let_def intro: pool_Exec_wf stmt_wf)
  then show "agree q (fst (pg_step w (CallCreateRun r) db)) (fst (mem_step m (CallCreateRun r) s)) \<and>
     pg_sim q w (snd (pg_step w (CallCreateRun r) db)) (snd (mem_step m (CallCreateRun r) s))"
    using w fit none dag D(1) sim
    by (cases "fmlookup (pt_runs db) (run_ID r)")
       (auto simp: pg_CreateRun_def plain_simps insert_run_def CreateRun_def mem_write_def exec_error_def
          kept_def Let_def intro!: sim_put_run simp: scan_run_def)
qed

lemma sim_UpdateRun:
  assumes w: "pg_plain w" shows "simulates q w m (CallUpdateRun r)"
proof (rule simulatesI)
  fix db s assume sim: "pg_sim q w db s" and fit: "fits q w m (CallUpdateRun r) db s"
  note D = pg_simD(1,5) [OF sim]
  obtain row where row: "fmlookup (pt_runs db) (run_ID r) = Some row" "rr_dag_id row = run_DAGID r"
    "pw_unparams w (rr_params row) = run_Params r" "rr_created_at row = run_CreatedAt r"
    using fit D(2) by (auto simp: scan_run_def)
  have id: "rr_id row = run_ID r" using pg_wfD(2) [OF pg_simD(2) [OF sim] row(1)] .
  have run: "fmlookup (runs s) (run_ID r) \<noteq> None" using D(2) row(1) by simp
  have scan: "scan_run w (row\<lparr>rr_status := run_Status r, rr_start_time := run_StartTime r,
      rr_end_time := run_EndTime r, rr_updated_at := now\<rparr>) = r\<lparr>run_UpdatedAt := now\<rparr>" for now
    by (rule dag_run.equality) (simp_all add: scan_run_def row id)
  have "pg_wf (snd (pg_UpdateRun w r db))" using pg_simD(2) [OF sim]
    by (auto simp: pg_UpdateRun_def case_prod_unfold Let_def intro: pool_Exec_wf stmt_wf)
  then show "agree q (fst (pg_step w (CallUpdateRun r) db)) (fst (mem_step m (CallUpdateRun r) s)) \<and>
     pg_sim q w (snd (pg_step w (CallUpdateRun r) db)) (snd (mem_step m (CallUpdateRun r) s))"
    using w fit row(1) run D(1) sim
    by (auto simp: pg_UpdateRun_def plain_simps update_run_def UpdateRun_def mem_write_def exec_error_def
          kept_def Let_def scan intro!: sim_put_run)
qed

lemma sim_CreateTaskInstance:
  assumes w: "pg_plain w" shows "simulates q w m (CallCreateTaskInstance ti)"
proof (rule simulatesI)
  fix db s assume sim: "pg_sim q w db s" and fit: "fits q w m (CallCreateTaskInstance ti) db s"
  note D = pg_simD(1,5) [OF sim]
  have run: "fmlookup (pt_runs db) (ti_RunID ti) \<noteq> None" using fit D(2) by simp
  have key: "fmpred (\<lambda>_ t. IdempotencyKey t \<noteq> IdempotencyKey ti) (pt_tis db)"
    using fit by (auto simp: fmpred_iff elim!: sim_ti [OF sim] dest: seen_fields(5))
  have row: "ti_row w ti = ti" using fit by (simp add: ti_row_def kept_def)
  have wf: "pg_wf (snd (pg_CreateTaskInstance w ti db))" using pg_simD(2) [OF sim]
    by (auto simp: pg_CreateTaskInstance_def case_prod_unfold Let_def intro: pool_Exec_wf stmt_wf)
  show "agree q (fst (pg_step w (CallCreateTaskInstance ti) db)) (fst (mem_step m (CallCreateTaskInstance ti) s)) \<and>
     pg_sim q w (snd (pg_step w (CallCreateTaskInstance ti) db)) (snd (mem_step m (CallCreateTaskInstance ti) s))"
  proof (cases "fmlookup (pt_tis db) (ti_ID ti)")
    case None
    let ?db = "db\<lparr>pt_tis := fmupd (ti_ID ti) ti (pt_tis db)\<rparr>"
    have pg: "pg_CreateTaskInstance w ti db = (None, ?db)"
      using w fit run key row None D(1)
      by (auto simp: pg_CreateTaskInstance_def plain_simps insert_ti_def exec_error_def)
    let ?s = "s\<lparr>taskInstances := fmupd (ti_ID ti) ti (taskInstances s),
      idempotencyIdx := fmupd (IdempotencyKey ti) (ti_ID ti) (idempotencyIdx s)\<rparr>"
    have mem: "CreateTaskInstance ti s = Inr ?s"
      using fit None sim_tis(2) [OF sim] by (simp add: CreateTaskInstance_def)
    have wf': "store_wf ?s"
      using store_wf_ti [OF pg_simD(3) [OF sim], of ti] by (auto simp: store_wf_def)
    have idx: "fmlookup (idempotencyIdx ?s) k = Some i \<longleftrightarrow>
        (\<exists>t. fmlookup (pt_tis ?db) i = Some t \<and> IdempotencyKey t = k)" if "k \<noteq> ''''" for k i
      using pg_simD(7) [OF sim that, of i] key None by (auto simp: fmpred_iff) blast
    have "pg_sim q w ?db ?s"
      using sim wf wf' idx unfolding pg_sim_def by (simp add: pg fmmap_fmupd)
    then show ?thesis by (simp add: pg mem mem_write_def)
  next
    case (Some t)
    then have "fmlookup (taskInstances s) (ti_ID ti) \<noteq> None" using sim_tis(2) [OF sim] by simp
    then show ?thesis using w fit row D(1) sim Some
      by (auto simp: pg_CreateTaskInstance_def plain_simps insert_ti_def exec_error_def mem_write_def
            CreateTaskInstance_def)
  qed
qed

lemma sim_UpdateTaskInstance:
  assumes w: "pg_plain w" shows "simulates q w m (CallUpdateTaskInstance ti)"
proof (rule simulatesI)
  fix db s assume sim: "pg_sim q w db s" and fit: "fits q w m (CallUpdateTaskInstance ti) db s"
  obtain t0 where t0: "fmlookup (taskInstances s) (ti_ID ti) = Some t0" "ti_RunID t0 = ti_RunID ti"
    "ti_TaskID t0 = ti_TaskID ti" "ti_DAGID t0 = ti_DAGID ti" "q \<longrightarrow> QueuedAt t0 = QueuedAt ti"
    "IdempotencyKey t0 = IdempotencyKey ti" using fit by auto
  then obtain t where row: "fmlookup (pt_tis db) (ti_ID ti) = Some t" "ti_seen q t0 = ti_seen q t"
    using sim_tis(1) [OF sim, of "ti_ID ti"] by (cases "fmlookup (pt_tis db) (ti_ID ti)") simp_all
  note t = t0 [unfolded seen_fields(1-5) [OF row(2)]]
  have id: "ti_ID t = ti_ID ti" using pg_wfD(4) [OF pg_simD(2) [OF sim] row(1)] .
  let ?t = "t\<lparr>ti_Status := ti_Status ti, Attempt := Attempt ti, WorkerID := WorkerID ti,
      ti_Output := ti_Output ti, ti_Error := ti_Error ti, ti_StartTime := ti_StartTime ti,
      ti_EndTime := ti_EndTime ti\<rparr>"
  have seen: "ti_seen q ?t = ti_seen q ti"
    by (rule task_instance.equality) (use t id seen_fields(6) [OF row(2)] in \<open>simp_all add: ti_seen_def\<close>)
  let ?db = "db\<lparr>pt_tis := fmupd (ti_ID ti) ?t (pt_tis db)\<rparr>"
  let ?s = "s\<lparr>taskInstances := fmupd (ti_ID ti) ti (taskInstances s)\<rparr>"
  have pg: "pg_UpdateTaskInstance w ti db = (None, ?db)"
    using w fit row(1) pg_simD(1) [OF sim]
    by (auto simp: pg_UpdateTaskInstance_def plain_simps update_ti_def exec_error_def kept_def)
  have "pg_wf (snd (pg_UpdateTaskInstance w ti db))" using pg_simD(2) [OF sim]
    by (auto simp: pg_UpdateTaskInstance_def case_prod_unfold Let_def intro: pool_Exec_wf stmt_wf)
  then have "pg_sim q w ?db ?s"
    using sim store_wf_ti [OF pg_simD(3) [OF sim], of ti] row(1) t(6) seen
    by (auto simp: pg_sim_def pg fmmap_fmupd)
  then show "agree q (fst (pg_step w (CallUpdateTaskInstance ti) db)) (fst (mem_step m (CallUpdateTaskInstance ti) s)) \<and>
     pg_sim q w (snd (pg_step w (CallUpdateTaskInstance ti) db)) (snd (mem_step m (CallUpdateTaskInstance ti) s))"
    using t0(1) by (simp add: pg mem_write_def UpdateTaskInstance_def)
qed

text \<open>What is compared of a list does not change what is selected from it and how it is sorted.\<close>

lemma seen_selected:
  assumes "map (ti_seen q) xs = map (ti_seen q) ys"
  shows "map (ti_seen q) (sort_key ti_TaskID (filter (\<lambda>ti. ti_RunID ti = rid) xs)) =
    map (ti_seen q) (sort_key ti_TaskID (filter (\<lambda>ti. ti_RunID ti = rid) ys))"
proof -
  have "map (ti_seen q) (sort_key ti_TaskID (filter (\<lambda>ti. ti_RunID ti = rid) xs)) =
      sort_key ti_TaskID (filter (\<lambda>ti. ti_RunID ti = rid) (map (ti_seen q) xs))" for xs
    by (simp add: sort_key_map filter_map comp_def)
  then show ?thesis using assms by simp
qed

lemma sim_ListTaskInstances:
  assumes w: "pg_plain w" shows "simulates q w m (CallListTaskInstances rid)"
proof (rule simulatesI)
  fix db s assume sim: "pg_sim q w db s" and fit: "fits q w m (CallListTaskInstances rid) db s"
  have id: "(\<lambda>x. x) \<circ> ti_TaskID = ti_TaskID" by (simp add: comp_def)
  have "pg_ListTaskInstances w rid db = (sort_key ti_TaskID (filter (\<lambda>ti. ti_RunID ti = rid)
      (List.map_filter (fmlookup (pt_tis db)) (pw_tis w db))), None)"
    using w pg_simD(1) [OF sim]
    by (simp add: pg_ListTaskInstances_def plain_list_rows [OF w, where f = "\<lambda>x. x"] plain_scanned [OF w]
          on_schema_def select_tis_of_run_def select_tis_def pg_plain_def id)
  then show "agree q (fst (pg_step w (CallListTaskInstances rid) db)) (fst (mem_step m (CallListTaskInstances rid) s)) \<and>
     pg_sim q w (snd (pg_step w (CallListTaskInstances rid) db)) (snd (mem_step m (CallListTaskInstances rid) s))"
    using fit sim seen_selected [OF sim_tis(3) [OF sim, of "pw_tis w db"], of rid]
    by (simp add: ListTaskInstances_def mem_list_def)
qed

text \<open>The rows that the query selects are the runs that the memory store lets through.\<close>

lemma sim_matching_runs:
  assumes "pg_sim q w db s"
  shows "filter (run_passes f) (List.map_filter (fmlookup (runs s)) ord) =
    map (scan_run w) (filter (row_passes f) (List.map_filter (fmlookup (pt_runs db)) ord))"
proof -
  have "run_passes f (scan_run w row) \<longleftrightarrow> row_passes f row" for row
    by (cases "rf_Status f") (auto simp: run_passes_def row_passes_def scan_run_simps)
  then show ?thesis
    by (simp add: pg_simD(5) [OF assms] lookup_fmmap map_filter_map_option filter_map comp_def)
qed

lemma sim_ListRuns:
  assumes w: "pg_plain w" shows "simulates q w m (CallListRuns f)"
proof (rule simulatesI)
  fix db s assume sim: "pg_sim q w db s" and fit: "fits q w m (CallListRuns f) db s"
  define rows where "rows = filter (row_passes f) (List.map_filter (fmlookup (pt_runs db)) (pw_runs w db))"
  have mem: "filter (run_passes f) (List.map_filter (fmlookup (runs s)) (pw_runs w db)) = map (scan_run w) rows"
    unfolding rows_def by (rule sim_matching_runs [OF sim])
  have "pg_ListRuns w f db = (map (scan_run w) (page (rf_Offset f) (rf_Limit f)
      (sort_key (\<lambda>r. - rr_created_at r) rows)), None)"
    using pg_simD(1) [OF sim]
    by (simp add: pg_ListRuns_def plain_list_rows [OF w, where f = "scan_run w"] plain_scanned [OF w]
          on_schema_def select_runs_query rows_def)
  moreover have "ListRuns (mw_runs m s) f s = Inr (map (scan_run w) (page (rf_Offset f) (rf_Limit f)
      (sort_key (\<lambda>r. - rr_created_at r) rows)))"
    using fit
    by (auto simp: ListRuns_def mem sort_key_map scan_run_simps offset_by_def page_def limit_to_take Let_def
          drop_map take_map)
  ultimately show "agree q (fst (pg_step w (CallListRuns f) db)) (fst (mem_step m (CallListRuns f) s)) \<and>
     pg_sim q w (snd (pg_step w (CallListRuns f) db)) (snd (mem_step m (CallListRuns f) s))"
    using sim by (simp add: mem_list_def)
qed

lemma sim_ListDAGs:
  assumes w: "pg_plain w" shows "simulates q w m (CallListDAGs f)"
proof (rule simulatesI)
  fix db s assume sim: "pg_sim q w db s" and fit: "fits q w m (CallListDAGs f) db s"
  let ?ord = "pw_dags w db"
  let ?row = "\<lambda>i. the (fmlookup (pt_dags db) i)" and ?dag = "\<lambda>i. the (fmlookup (dags s) i)"
  let ?dec = "\<lambda>row. projr (pw_unmarshal w (dr_spec row))"
  define ids where "ids = (if 0 < df_Limit f then take (nat (df_Limit f)) (sort ?ord) else sort ?ord)"
  have all: "\<exists>row d d'. fmlookup (pt_dags db) i = Some row \<and> fmlookup (dags s) i = Some d \<and>
      pw_unmarshal w (dr_spec row) = Inr d' \<and> stored_as d' d" if "i \<in> set ?ord" for i
    using pg_simD(4) [OF sim, of i] in_ranges_iff [of ?ord "pt_dags db" i] fit that
    by (auto simp: option_rel_Some1)
  have ids: "set ids \<subseteq> set ?ord" by (auto simp: ids_def dest: in_set_takeD)
  have rows: "List.map_filter (fmlookup (pt_dags db)) ?ord = map ?row ?ord"
    and mems: "List.map_filter (fmlookup (dags s)) ?ord = map ?dag ?ord"
    using all by (force intro!: map_filter_total)+
  have row_id: "dr_id (?row i) = i" and dag_id: "dag_ID (?dag i) = i" if "i \<in> set ?ord" for i
    using all [OF that] pg_wfD(1) [OF pg_simD(2) [OF sim]] store_wfD(2) [OF pg_simD(3) [OF sim]] by auto
  have "select_dags w (df_Limit f) db = Inr (map ?row ids)"
    using w sort_key_map_inverse [of ?ord dr_id ?row] row_id
    by (simp add: select_dags_def rows pg_plain_def comp_def ids_def take_map Let_def)
  moreover have "pw_unmarshal w (dr_spec r) = Inr (?dec r)" if "r \<in> set (map ?row ids)" for r
    using that ids all by fastforce
  ultimately have pg: "pg_ListDAGs w f db = (map ?dec (map ?row ids), None)"
    using pg_simD(1) [OF sim]
    by (simp only: pg_ListDAGs_def plain_scanned [OF w])
       (rule plain_list_rows [OF w], simp_all add: on_schema_def)
  have "filter (dag_passes f) (map ?dag ?ord) = map ?dag ?ord" using fit by (simp add: dag_passes_def)
  then have mem: "ListDAGs (mw_dags m s) f s = Inr (map ?dag ids)"
    using fit sort_key_map_inverse [of ?ord dag_ID ?dag] dag_id
    by (simp add: ListDAGs_def mems limit_to_take ids_def take_map Let_def)
  have "stored_as (?dec (?row i)) (?dag i)" if "i \<in> set ids" for i
    using that ids all by fastforce
  then have "list_all2 stored_as (map ?dec (map ?row ids)) (map ?dag ids)"
    by (auto simp: list_all2_conv_all_nth)
  then show "agree q (fst (pg_step w (CallListDAGs f) db)) (fst (mem_step m (CallListDAGs f) s)) \<and>
     pg_sim q w (snd (pg_step w (CallListDAGs f) db)) (snd (mem_step m (CallListDAGs f) s))"
    using sim by (simp add: pg mem mem_list_def del: map_map)
qed

lemma sim_GetTaskInstanceByIdempotencyKey:
  assumes w: "pg_plain w" shows "simulates q w m (CallGetTaskInstanceByIdempotencyKey k)"
proof (rule simulatesI)
  fix db s assume sim: "pg_sim q w db s" and fit: "fits q w m (CallGetTaskInstanceByIdempotencyKey k) db s"
  define found where "found = filter (\<lambda>ti. IdempotencyKey ti = k) (List.map_filter (fmlookup (pt_tis db)) (pw_tis w db))"
  have ord: "ranges (pw_tis w db) (pt_tis db)" and k: "k \<noteq> ''''" using fit by auto
  have set: "set found = {ti. fmlookup (pt_tis db) (ti_ID ti) = Some ti \<and> IdempotencyKey ti = k}"
    using keyed_values(2) [OF ord, of ti_ID] pg_wfD(4) [OF pg_simD(2) [OF sim]] by (auto simp: found_def)
  have idx: "fmlookup (idempotencyIdx s) k = Some i \<longleftrightarrow> (\<exists>ti \<in> set found. ti_ID ti = i)" for i
    using pg_simD(7) [OF sim k, of i] pg_wfD(4) [OF pg_simD(2) [OF sim]] by (auto simp: set)
  have pg: "pg_GetTaskInstanceByIdempotencyKey w k db =
      (case found of [] \<Rightarrow> Inl (Err ''no task instance with idempotency key %q'' [FStr k]) | ti # _ \<Rightarrow> Inr ti)"
    using pg_simD(1) [OF sim] w
    by (auto simp: pg_GetTaskInstanceByIdempotencyKey_def plain_simps select_tis_def found_def split: list.split)
  have "map_sum id (ti_seen q) (GetTaskInstanceByIdempotencyKey k s) =
      map_sum id (ti_seen q) (pg_GetTaskInstanceByIdempotencyKey w k db)"
  proof (cases found)
    case Nil
    then have "fmlookup (idempotencyIdx s) k = None" using idx by (cases "fmlookup (idempotencyIdx s) k") auto
    then show ?thesis by (simp add: pg GetTaskInstanceByIdempotencyKey_def Nil)
  next
    case (Cons ti tis)
    then have "fmlookup (idempotencyIdx s) k = Some (ti_ID ti)" "fmlookup (pt_tis db) (ti_ID ti) = Some ti"
      using idx set by auto
    then show ?thesis using sim_tis(1) [OF sim, of "ti_ID ti"]
      by (auto simp: pg GetTaskInstanceByIdempotencyKey_def Cons)
  qed
  then show "agree q (fst (pg_step w (CallGetTaskInstanceByIdempotencyKey k) db))
       (fst (mem_step m (CallGetTaskInstanceByIdempotencyKey k) s)) \<and>
     pg_sim q w (snd (pg_step w (CallGetTaskInstanceByIdempotencyKey k) db))
       (snd (mem_step m (CallGetTaskInstanceByIdempotencyKey k) s))"
    using sim by simp
qed

lemmas all_calls_simulate = sim_SaveDAG sim_GetDAG sim_ListDAGs sim_DeleteDAG sim_CreateRun sim_GetRun
  sim_UpdateRun sim_ListRuns sim_CreateTaskInstance sim_GetTaskInstance sim_UpdateTaskInstance
  sim_ListTaskInstances sim_GetTaskInstanceByIdempotencyKey

lemma pg_simulates:
  assumes "pg_plain w" "pg_sim q w db s" "fits q w m c db s"
  shows "agree q (fst (pg_step w c db)) (fst (mem_step m c s)) \<and>
     pg_sim q w (snd (pg_step w c db)) (snd (mem_step m c s))"
proof -
  have "simulates q w m c" using assms(1) by (cases c) (simp_all only: all_calls_simulate)
  then show ?thesis using assms(2,3) by (simp add: simulates_def)
qed

lemma pg_trace_agrees:
  "pg_plain w \<Longrightarrow> pg_sim q w db s \<Longrightarrow> all_fit q w m cs db s \<Longrightarrow>
     list_all2 (agree q) (pg_replies w cs db) (mem_replies m cs s)"
proof (induction cs arbitrary: db s)
  case (Cons c cs)
  then show ?case using pg_simulates [of w q db s m c] by (auto simp: case_prod_unfold)
qed simp

lemma pg_sim_new: "pg_plain w \<Longrightarrow> pg_sim q w (snd (Migrate w pg_fresh)) NewMemoryStore"
  by (simp add: Migrate_def plain_Exec pg_sim_def pg_wf_def pg_fresh_def NewMemoryStore_def store_wf_def)

text \<open>
  C24. PostgresStore implements what MemoryStore does: after \<open>Migrate\<close>, with a connection that holds, every sequence of
  calls that fit is answered the same way by both, call by call, up to the times and the JSON form of a DAG and the texts
  of refused writes. Without \<open>q\<close>, the updates of instances may change the time they were queued at, as the scheduler
  does, and the answers are compared without that time, which the \<^verbatim>\<open>UPDATE\<close> does not write; with \<open>q\<close>, no update
  changes it, and it is compared as well. The query that \<open>ListRuns\<close> puts together selects, orders and cuts off what the
  loops of the memory store do.

  The calls that fit (\<open>fits\<close>) have statuses, attempts and versions of 32 bits, times that a timestamp column keeps (whole
  microseconds), and parameters and DAGs that come back from JSON; the two stores visit their rows in the same order and
  read the same clock. They save any DAG; delete one that has no runs; list DAGs with no tags and no owner in the filter;
  create a run of a stored DAG; create an instance of a stored run with a new key that is not empty; update a
  run or an instance that is there, without changing its references, its key, its parameters or its time of creation; list runs with an
  offset before the last match; and look up any ID, and any key but the empty one.
\<close>

theorem postgres_refines_memory:
  assumes "pg_plain w" and "all_fit q w m cs (snd (Migrate w pg_fresh)) NewMemoryStore"
  shows "list_all2 (agree q) (pg_replies w cs (snd (Migrate w pg_fresh))) (mem_replies m cs NewMemoryStore)"
  using assms by (intro pg_trace_agrees pg_sim_new)

lemma insert_ti_used_key:
  "fmlookup (pt_tis db) j = Some t \<Longrightarrow> IdempotencyKey t = IdempotencyKey ti \<Longrightarrow>
     \<exists>e. insert_ti w ti db = Inl e"
  by (auto simp: insert_ti_def fmpred_iff)

lemma delete_dag_used:
  "fmlookup (pt_runs db) j = Some r \<Longrightarrow> fmlookup (pt_dags db) (rr_dag_id r) \<noteq> None \<Longrightarrow>
     \<exists>e. delete_dag w (rr_dag_id r) db = Inl e"
  by (auto simp: delete_dag_def fmpred_iff)

lemma refused_Exec:
  "st db = Inl e \<Longrightarrow> \<exists>e'. pool_Exec w call (on_schema w st) db = (Inl e', db)"
  by (auto simp: pool_Exec_def on_schema_def split: option.split)

text \<open>
  C28. Whatever calls fail and whenever the connection breaks, the database keeps its
  constraints: rows are filed under their ID, every run has its DAG and every instance its run, and no two
  instances share an idempotency key. So an instance with a used key is refused, and so is the
  deletion of a DAG that has runs; both leave the database as it is.
\<close>

theorem postgres_constraints:
  assumes "pg_reach db"
  shows "pg_wf db \<and>
    (\<forall>w ti j t. fmlookup (pt_tis db) j = Some t \<longrightarrow> IdempotencyKey t = IdempotencyKey ti \<longrightarrow>
       (\<exists>e. pg_CreateTaskInstance w ti db = (Some e, db))) \<and>
    (\<forall>w j r. fmlookup (pt_runs db) j = Some r \<longrightarrow>
       (\<exists>e. pg_DeleteDAG w (rr_dag_id r) db = (Some e, db)))"
proof (intro conjI allI impI)
  show wf: "pg_wf db" using assms by (rule pg_reach_wf)
  show "\<exists>e. pg_CreateTaskInstance w ti db = (Some e, db)"
    if "fmlookup (pt_tis db) j = Some t" "IdempotencyKey t = IdempotencyKey ti" for w ti j t
    using that insert_ti_used_key [of db j t "ti_row w ti" w]
      refused_Exec [of "insert_ti w (ti_row w ti)" db _ w "''CreateTaskInstance''"]
    by (fastforce simp: pg_CreateTaskInstance_def exec_error_def ti_row_def)
  show "\<exists>e. pg_DeleteDAG w (rr_dag_id r) db = (Some e, db)"
    if "fmlookup (pt_runs db) j = Some r" for w j r
    using that delete_dag_used [OF that, of w] pg_wfD(3) [OF wf that]
      refused_Exec [of "delete_dag w (rr_dag_id r)" db _ w "''DeleteDAG''"]
    by (fastforce simp: pg_DeleteDAG_def fmlookup_dom'_iff)
qed

text \<open>
  What the memory store does with the filter of \<open>ListDAGs\<close> and with a page past the end.
\<close>

lemma set_ListDAGs:
  assumes "ranges ord (dags s)" "df_Limit f \<le> 0"
  shows "\<exists>ds. ListDAGs ord f s = Inr ds \<and> set ds = {d. (\<exists>i. fmlookup (dags s) i = Some d) \<and> dag_passes f d}"
proof -
  have "set (List.map_filter (fmlookup (dags s)) ord) = {d. \<exists>i. fmlookup (dags s) i = Some d}"
    using assms(1) by (auto simp: List.map_filter_def ranges_def image_iff) (metis fmdom'I option.sel)
  then show ?thesis using assms(2) by (auto simp: ListDAGs_def limit_to_def Let_def)
qed

lemma ListRuns_past_end:
  assumes "int (length (filter (run_passes f) (List.map_filter (fmlookup (runs s)) ord))) \<le> rf_Offset f"
  shows "ListRuns ord f s = ListRuns ord (f\<lparr>rf_Offset := 0\<rparr>) s"
    and "filter (run_passes f) (List.map_filter (fmlookup (runs s)) ord) \<noteq> [] \<Longrightarrow> ListRuns ord f s \<noteq> Inr []"
proof -
  have "run_passes (f\<lparr>rf_Offset := 0\<rparr>) = run_passes f"
    by (rule ext) (simp add: run_passes_def cong: if_cong option.case_cong)
  then show same: "ListRuns ord f s = ListRuns ord (f\<lparr>rf_Offset := 0\<rparr>) s"
    using assms by (simp add: ListRuns_def offset_by_def Let_def)
  show "ListRuns ord f s \<noteq> Inr []"
    if "filter (run_passes f) (List.map_filter (fmlookup (runs s)) ord) \<noteq> []"
  proof -
    have ne: "sort_key k xs \<noteq> [] \<longleftrightarrow> xs \<noteq> []" for k :: "dag_run \<Rightarrow> int" and xs
      by (metis length_0_conv length_sort)
    show ?thesis using assms that ne by (auto simp: ListRuns_def offset_by_def limit_to_def Let_def)
  qed
qed

text \<open>
  C30. Where the two stores part, on the same contents. On a run or an instance that does not exist, an update of
  PostgresStore succeeds and changes nothing, while MemoryStore reports an error. An update of an
  instance does not write the time it was queued at, while MemoryStore stores the instance as given. \<open>ListDAGs\<close> of
  PostgresStore ignores the tags and the owner of the filter, while MemoryStore, without a limit, gives exactly
  the DAGs that share a tag with the filter, if it has tags, and have its owner, if it has one. And with an offset at or past the last matching
  run, PostgresStore gives an empty page, while MemoryStore ignores the offset and starts again with
  the first run, so that its page is not empty.
\<close>

theorem postgres_differs:
  assumes w: "pg_plain w" and sim: "pg_sim True w db s"
  shows "(fmlookup (runs s) (run_ID r) = None \<longrightarrow> int4 (status_code (run_Status r)) \<longrightarrow>
      pg_UpdateRun w r db = (None, db) \<and> \<not> is_ok (UpdateRun now r s)) \<and>
    (fmlookup (taskInstances s) (ti_ID ti) = None \<longrightarrow> int4 (status_code (ti_Status ti)) \<longrightarrow> int4 (Attempt ti) \<longrightarrow>
      pg_UpdateTaskInstance w ti db = (None, db) \<and> \<not> is_ok (UpdateTaskInstance ti s)) \<and>
    (fmlookup (taskInstances s) (ti_ID ti) = Some t \<longrightarrow> int4 (status_code (ti_Status ti)) \<longrightarrow> int4 (Attempt ti) \<longrightarrow>
      (\<exists>db' t' s'. pg_UpdateTaskInstance w ti db = (None, db') \<and> UpdateTaskInstance ti s = Inr s' \<and>
        pg_GetTaskInstance w (ti_ID ti) db' = Inr t' \<and> ti_Status t' = ti_Status ti \<and>
        QueuedAt t' = QueuedAt t \<and> GetTaskInstance (ti_ID ti) s' = Inr ti)) \<and>
    pg_ListDAGs w (f\<lparr>df_Tags := tags, df_Owner := owner\<rparr>) db = pg_ListDAGs w f db \<and>
    (ranges ord (dags s) \<longrightarrow> df_Limit f \<le> 0 \<longrightarrow>
      (\<exists>ds. ListDAGs ord (f\<lparr>df_Tags := tags, df_Owner := owner\<rparr>) s = Inr ds \<and>
        set ds = {d. (\<exists>i. fmlookup (dags s) i = Some d) \<and>
          (tags = [] \<or> set tags \<inter> set (Tags (DConfig d)) \<noteq> {}) \<and> (owner = '''' \<or> Owner (DConfig d) = owner)})) \<and>
    (let matching = filter (run_passes g) (List.map_filter (fmlookup (runs s)) (pw_runs w db))
     in int (length matching) \<le> rf_Offset g \<longrightarrow>
      pg_ListRuns w g db = ([], None) \<and>
      ListRuns (pw_runs w db) g s = ListRuns (pw_runs w db) (g\<lparr>rf_Offset := 0\<rparr>) s \<and>
      (matching \<noteq> [] \<longrightarrow> ListRuns (pw_runs w db) g s \<noteq> Inr []))"
  unfolding Let_def
proof (intro conjI impI)
  have "fmmap (\<lambda>ti. ti) m = m" for m :: "(string, task_instance) fmap" by (rule fmap_ext) (simp add: option.map_ident)
  then have "taskInstances s = pt_tis db" using pg_simD(6) [OF sim] by simp
  note D = pg_simD(1,5) [OF sim] this
  show "pg_UpdateRun w r db = (None, db)" "\<not> is_ok (UpdateRun now r s)"
    if "fmlookup (runs s) (run_ID r) = None" "int4 (status_code (run_Status r))"
    using that D w by (simp_all add: pg_UpdateRun_def plain_simps update_run_def UpdateRun_def exec_error_def)
  show "pg_UpdateTaskInstance w ti db = (None, db)" "\<not> is_ok (UpdateTaskInstance ti s)"
    if "fmlookup (taskInstances s) (ti_ID ti) = None" "int4 (status_code (ti_Status ti))" "int4 (Attempt ti)"
    using that D w
    by (simp_all add: pg_UpdateTaskInstance_def plain_simps update_ti_def UpdateTaskInstance_def exec_error_def)
  show "\<exists>db' t' s'. pg_UpdateTaskInstance w ti db = (None, db') \<and> UpdateTaskInstance ti s = Inr s' \<and>
        pg_GetTaskInstance w (ti_ID ti) db' = Inr t' \<and> ti_Status t' = ti_Status ti \<and>
        QueuedAt t' = QueuedAt t \<and> GetTaskInstance (ti_ID ti) s' = Inr ti"
    if "fmlookup (taskInstances s) (ti_ID ti) = Some t" "int4 (status_code (ti_Status ti))" "int4 (Attempt ti)"
    using that D w
    by (simp add: pg_UpdateTaskInstance_def plain_simps update_ti_def UpdateTaskInstance_def exec_error_def
          pg_GetTaskInstance_def by_id_def GetTaskInstance_def)
  show "pg_ListDAGs w (f\<lparr>df_Tags := tags, df_Owner := owner\<rparr>) db = pg_ListDAGs w f db"
    by (simp add: pg_ListDAGs_def)
  show "\<exists>ds. ListDAGs ord (f\<lparr>df_Tags := tags, df_Owner := owner\<rparr>) s = Inr ds \<and>
        set ds = {d. (\<exists>i. fmlookup (dags s) i = Some d) \<and>
          (tags = [] \<or> set tags \<inter> set (Tags (DConfig d)) \<noteq> {}) \<and> (owner = '''' \<or> Owner (DConfig d) = owner)}"
    if "ranges ord (dags s)" "df_Limit f \<le> 0"
    using set_ListDAGs [OF that(1), of "f\<lparr>df_Tags := tags, df_Owner := owner\<rparr>"] that(2)
    by (simp add: dag_passes_iff dag_matches_def)
  let ?matching = "filter (run_passes g) (List.map_filter (fmlookup (runs s)) (pw_runs w db))"
  assume past: "int (length ?matching) \<le> rf_Offset g"
  show "ListRuns (pw_runs w db) g s = ListRuns (pw_runs w db) (g\<lparr>rf_Offset := 0\<rparr>) s"
    by (rule ListRuns_past_end(1) [OF past])
  show "ListRuns (pw_runs w db) g s \<noteq> Inr []" if "?matching \<noteq> []"
    using past that by (rule ListRuns_past_end(2))
  have "length (filter (row_passes g) (List.map_filter (fmlookup (pt_runs db)) (pw_runs w db))) \<le> nat (rf_Offset g)"
    using past unfolding sim_matching_runs [OF sim] by simp
  then show "pg_ListRuns w g db = ([], None)"
    using D(1)
    by (simp add: pg_ListRuns_def plain_list_rows [OF w, where f = "scan_run w"] plain_scanned [OF w]
          on_schema_def select_runs_query page_def)
qed

text \<open>
  A whole number in the settings of a task is a float after the DAG was stored as JSON, so the Hadoop
  executor falls back to its defaults.
\<close>

lemma stored_settings_lost:
  "int_setting (t\<lparr>Config := fmmap json_any (Config t)\<rparr>) key x = x"
proof -
  have "json_any v \<noteq> VInt n" for v n by (cases v) auto
  then show ?thesis by (auto simp: int_setting_def split: option.split gval.split)
qed

section \<open>Examples\<close>

definition plain_pg :: pg_world where
  "plain_pg = \<lparr>pw_now = (\<lambda>_. 5), pw_lost = (\<lambda>_ _. None), pw_cut = (\<lambda>_ _. None), pw_scan = (\<lambda>_ _. None),
     pw_refuse = (\<lambda>c. Err c []), pw_stamp = (\<lambda>t. t), pw_collate = (\<lambda>x. x),
     pw_dags = (\<lambda>db. sorted_keys (pt_dags db)), pw_runs = (\<lambda>db. sorted_keys (pt_runs db)),
     pw_tis = (\<lambda>db. sorted_keys (pt_tis db)), pw_marshal = (\<lambda>d. Inr (dag_ID d)),
     pw_unmarshal = (\<lambda>s. if s = ''demo'' then Inr (json_dag diamond) else Inl (Err s [])),
     pw_params = (\<lambda>_. ''{}''), pw_unparams = (\<lambda>_. fmempty), pw_jsonb = (\<lambda>s. s)\<rparr>"

lemma plain_pg_plain [simp]: "pg_plain plain_pg"
  by (simp add: pg_plain_def plain_pg_def)

definition sample_ti :: "status \<Rightarrow> time \<Rightarrow> task_instance" where
  "sample_ti st queued = \<lparr>ti_ID = ''i1'', ti_RunID = ''r1'', ti_TaskID = ''a'', ti_DAGID = ''demo'',
     ti_Status = st, Attempt = 1, WorkerID = '''', ti_Output = '''', ti_Error = '''',
     ti_StartTime = 0, ti_EndTime = 0, QueuedAt = queued, IdempotencyKey = ''k1''\<rparr>"

definition sample_calls :: "store_call list" where
  "sample_calls = [CallSaveDAG diamond, CallCreateRun (sample_run ''r1'' 0), CallGetRun ''r1'',
     CallUpdateRun ((sample_run ''r1'' 5)\<lparr>run_Status := StatusSuccess\<rparr>), CallGetDAG ''demo'', CallDeleteDAG ''x'',
     CallCreateTaskInstance (sample_ti StatusPending 5), CallUpdateTaskInstance (sample_ti StatusQueued 7),
     CallGetTaskInstance ''i1'']"

lemma diamond_version: "dag_ID diamond = ''demo''" "Version diamond = 1"
  by code_simp+

lemma sample_calls_fit:
  "all_fit False plain_pg plain_mem sample_calls (snd (Migrate plain_pg pg_fresh)) NewMemoryStore"
  by (simp add: sample_calls_def diamond_version memory_defs DeleteDAG_def mem_write_def NewMemoryStore_def
        kept_def int4_def sample_run_def plain_mem_def plain_pg_def fmpred_iff sample_ti_def CreateTaskInstance_def)

text \<open>The instance is queued with a new time, as the scheduler does.\<close>

lemma postgres_refines_memory_witness:
  "list_all2 (agree False) (pg_replies plain_pg sample_calls (snd (Migrate plain_pg pg_fresh)))
     (mem_replies plain_mem sample_calls NewMemoryStore)"
  by (rule postgres_refines_memory [OF plain_pg_plain sample_calls_fit])

text \<open>A database with one DAG and one run of it.\<close>

definition sample_db :: pg_tables where
  "sample_db = snd (pg_CreateRun plain_pg (sample_run ''r1'' 0)
     (snd (pg_SaveDAG plain_pg diamond (snd (Migrate plain_pg pg_fresh)))))"

lemma sample_db_reach: "pg_reach sample_db"
  by (simp add: sample_db_def pg_reach.intros)

lemma sample_db_run: "\<exists>row. fmlookup (pt_runs sample_db) ''r1'' = Some row \<and> rr_dag_id row = ''demo''"
  by (simp add: sample_db_def Migrate_def pg_SaveDAG_def pg_CreateRun_def pool_Exec_def on_schema_def
        upsert_dag_def insert_run_def pg_fresh_def diamond_version int4_def sample_run_def plain_pg_def)

lemma postgres_constraints_witness:
  "\<exists>e. pg_DeleteDAG plain_pg ''demo'' sample_db = (Some e, sample_db)"
proof -
  obtain row where row: "fmlookup (pt_runs sample_db) ''r1'' = Some row" "rr_dag_id row = ''demo''"
    using sample_db_run by blast
  have "\<forall>w j r. fmlookup (pt_runs sample_db) j = Some r \<longrightarrow>
       (\<exists>e. pg_DeleteDAG w (rr_dag_id r) sample_db = (Some e, sample_db))"
    using postgres_constraints [OF sample_db_reach] by blast
  from this [THEN spec, of plain_pg] row show ?thesis by metis
qed

lemma postgres_differs_witness:
  "pg_UpdateRun plain_pg (sample_run ''gone'' 0) (snd (Migrate plain_pg pg_fresh)) =
     (None, snd (Migrate plain_pg pg_fresh)) \<and>
   \<not> is_ok (UpdateRun 7 (sample_run ''gone'' 0) NewMemoryStore)"
proof -
  have "fmlookup (runs NewMemoryStore) (run_ID (sample_run ''gone'' 0)) = None"
    "int4 (status_code (run_Status (sample_run ''gone'' 0)))"
    by (simp_all add: NewMemoryStore_def sample_run_def int4_def)
  then show ?thesis
    using postgres_differs [OF plain_pg_plain pg_sim_new [OF plain_pg_plain], of "sample_run ''gone'' 0"] by blast
qed

end
