(* ===== verification/Spec2Isabelle.thy ===== *)
theory Spec2Isabelle
  imports Programs Fleet Clients Consensus Exec_Contract Postgres
begin

text \<open>
  A verification development for sparkflow, a workflow scheduler in Go.

  \<^bold>\<open>The program.\<close> A workflow is a DAG of tasks, written in YAML (\<^verbatim>\<open>pkg/dag/parser.go\<close>) and checked and
  ordered by \<^verbatim>\<open>pkg/dag/dag.go\<close>. The scheduler (\<^verbatim>\<open>pkg/scheduler\<close>) turns a DAG into a run with one
  instance per task, and at every tick queues the instances whose dependencies succeeded and closes the
  runs that are done. All of it goes through the interface of the store (\<^verbatim>\<open>pkg/store\<close>). A worker
  (\<^verbatim>\<open>internal/worker\<close>) takes an instance from its queue, looks up the task and its executor
  (\<^verbatim>\<open>pkg/executor\<close>), tries it as often as the retry policy allows with the delays of \<^verbatim>\<open>pkg/retry\<close>, stores
  the outcome and files failures in a dead letter queue. \<^verbatim>\<open>sparkflowctl\<close> validates, lists and runs
  workflows in one process; the server (\<^verbatim>\<open>internal/server\<close>) runs the loop of a scheduler and offers a few HTTP
  handlers; \<^verbatim>\<open>pkg/observability\<close> sets up tracing and metrics for server and worker; \<^verbatim>\<open>pkg/consensus\<close>
  replicates a key-value map with Raft; \<^verbatim>\<open>internal/spark\<close> and \<^verbatim>\<open>internal/hadoop\<close> are clients of services.

  \<^bold>\<open>Conventions\<close> (\<^verbatim>\<open>Prelude\<close>). Records are Go structs, finite maps are Go maps, strings are byte lists,
  \<open>'a outcome\<close> is a computation that returns, panics or does not end within its fuel, errors are the
  unrendered \<^verbatim>\<open>fmt.Errorf\<close> calls. A loop over a map takes the order of the visit as an argument
  (\<open>ranges\<close>), so that a theorem holds for every order. \<^verbatim>\<open>int\<close> and \<^verbatim>\<open>time.Duration\<close> are integers, wrapped
  to 64 bits (\<open>wrap64\<close>) where the code can overflow; \<^verbatim>\<open>float64\<close> is modelled bit by bit in value
  (\<^verbatim>\<open>Float64\<close>: rounding to even, 53 bits, conversions, and the platform's conversion out of range as
  the argument \<open>oob\<close>).

  \<^bold>\<open>Theories and what they model.\<close>
  \<^item> \<^verbatim>\<open>Dag_Model\<close>, \<^verbatim>\<open>Dag_Order\<close>, \<^verbatim>\<open>Dag_Cycle\<close>, \<^verbatim>\<open>Dag_Query\<close>: \<^verbatim>\<open>dag.go\<close>. Building a DAG keeps it well formed;
    Kahn's algorithm returns a topological order exactly on acyclic DAGs, the same one whatever the map
    orders; the depth-first search reports a genuine cycle exactly when there is one; \<open>Validate\<close> accepts
    exactly the DAGs in order; roots, leaves, descendants, ancestors and ready tasks are what they should
    be, and a pending task with only pending or successful tasks above it has a ready one among them or is ready itself.
  \<^item> \<^verbatim>\<open>Format\<close>, \<^verbatim>\<open>Duration\<close>: the parts of \<^verbatim>\<open>fmt\<close>, \<^verbatim>\<open>strings\<close>, \<^verbatim>\<open>encoding/json\<close>, \<^verbatim>\<open>net/url\<close> and \<^verbatim>\<open>time\<close> that the
    code uses. \<^verbatim>\<open>Dag_Parser\<close>: \<^verbatim>\<open>parser.go\<close>; which documents are accepted, and the tasks they give.
  \<^item> \<^verbatim>\<open>Queues\<close>: locales for bounded queues that evict or reject, interpreted by the dead letter queue and
    by the channel of a worker. \<^verbatim>\<open>Retry\<close>: \<^verbatim>\<open>retry.go\<close>; delays exact, with overflow, with jitter; the retry
    loop; the dead letter queue.
  \<^item> \<^verbatim>\<open>Store\<close>: the interface as a record of operations, its contract as the locale \<open>store_contract\<close>, and
    \<^verbatim>\<open>memory.go\<close>, which interprets it. \<^verbatim>\<open>Postgres\<close>: \<^verbatim>\<open>postgres.go\<close>, its SQL statements as functions on
    tables with the constraints of the schema and with connections that may break; these constraints hold
    for ever, and sequences of calls that keep to what the two stores share are answered as by \<^verbatim>\<open>memory.go\<close>;
    where the two part is proved for both. \<^verbatim>\<open>Scheduler\<close>: \<^verbatim>\<open>scheduler.go\<close>, proved inside the locale against
    a specification of one tick. \<^verbatim>\<open>System\<close>: the step relation of a scheduler, its store and whoever reports
    results, with its invariants.
  \<^item> \<^verbatim>\<open>Executor\<close> (interface, registry, the outside world as a record of functions), \<^verbatim>\<open>Exec_Process\<close>
    (\<^verbatim>\<open>shell.go\<close>, \<^verbatim>\<open>python.go\<close>, \<^verbatim>\<open>spark-submit\<close>), \<^verbatim>\<open>Exec_Http\<close> (Spark Connect), \<^verbatim>\<open>Exec_Hadoop\<close>, \<^verbatim>\<open>Exec_Hdfs\<close>,
    \<^verbatim>\<open>Exec_Docker\<close> (also \<open>DefaultRegistry\<close>). \<^verbatim>\<open>Exec_Contract\<close>: the locale \<open>task_executor\<close>, interpreted by all six
    executors; when they panic; when polling ends; that a worker with them ends every instance that it tries, unless an
    executor panics or polls for ever.
  \<^item> \<^verbatim>\<open>Worker\<close>: \<^verbatim>\<open>worker.go\<close>, over any store that keeps the contract and any executors. \<^verbatim>\<open>Goroutines\<close>: its
    execution loops and heartbeat as processes that take turns; what is accepted is executed once and in
    order within the bounds, \<open>Stop\<close> returns if the tasks end, and a negative heartbeat interval makes the worker panic.
    \<^verbatim>\<open>Fleet\<close>: scheduler, store and a pool of workers composed; whatever the interleaving, every instance is
    handed out and executed at most once, after its dependencies, and none is lost.
    \<^verbatim>\<open>Runner\<close> and \<^verbatim>\<open>Cli\<close>:
    \<^verbatim>\<open>cmd/sparkflowctl\<close>; \<open>Runner\<close> composes parser, store, scheduler and executors the way the command does.
  \<^item> \<^verbatim>\<open>Consensus\<close>: \<^verbatim>\<open>raft.go\<close>; replay of a log, snapshots, and a cluster of nodes as a step relation.
    \<^verbatim>\<open>Clients\<close>: \<^verbatim>\<open>internal/hadoop\<close> and \<^verbatim>\<open>internal/spark\<close>.
  \<^item> \<^verbatim>\<open>Observability\<close>: \<^verbatim>\<open>observability.go\<close>; what a set-up or a shutdown that fails leaves open. \<^verbatim>\<open>Server\<close>: the
    set-up and the handlers of \<^verbatim>\<open>server.go\<close>. \<^verbatim>\<open>Service\<close>: the loop that \<open>Start\<close> of the scheduler begins, and
    \<open>Start\<close> and \<open>Shutdown\<close> of the server with the services that run; why a server makes no progress, and
    what a shutdown ends. \<^verbatim>\<open>Programs\<close>: the three \<open>main\<close> functions; the exit codes of the server.

  \<^bold>\<open>Fuel and bounds.\<close> Kahn's loop has one unit of fuel per entry of the in-degree map, which is enough since
  every turn removes a node for good; the depth-first search has one per node and edge list, enough since
  a call colours a white node, and the walk back along the parents one per entry, enough since it runs
  down the stack. The rounds of \<open>run_loop\<close> are bounded by an argument: one per task and one more are enough
  if every task succeeds, and no number is if a needed one fails. Polling takes fuel, too: \<open>poll_correct\<close>
  says exactly when some fuel is enough. The delay theorems hold up to \<open>2\<^sup>5\<^sup>3\<close> nanoseconds where exactness is
  claimed and name the exponents where the product leaves 64 bits.

  \<^bold>\<open>Parameters.\<close> Code that is not in the repository is an argument: YAML and JSON decoding, the HTTP and
  Docker clients, processes, clocks and random numbers, UUIDs, the Raft library, cron parsing, the network, the row order and the error values of the database server. What a
  theorem needs of them is a named hypothesis (\<open>parse_orders\<close>, \<open>draws_ok\<close>, \<open>returns\<close>, \<open>codec_ok\<close>, \<open>appends\<close> and
  others) with a witness that satisfies it.

  \<^bold>\<open>Not modelled.\<close> What is written to the log; the inside of
  gRPC, \<^verbatim>\<open>net/http\<close>, OpenTelemetry and Prometheus; the parsing of the flags and the delivery of signals; the
  text that \<^verbatim>\<open>fmt.Errorf\<close> renders. Concurrency is modelled at the
  level of the operations that the locks make atomic: as lists of choices or step relations. In the steps
  of a worker's goroutines the call of \<open>executeTask\<close> is one of them, though other goroutines may use the
  store between its calls.
\<close>

end
